(* ===== verification/Prelude.thy ===== *)
theory Prelude
  imports Main "HOL-Library.Word" "HOL-Library.Sublist" "HOL-Library.Char_ord"
    "HOL-Library.List_Lexorder"
begin

text \<open>
  What every component of the development shares: the ways a C++ operation fails
  (\<open>fault\<close>), results that are a value or a fault (\<open>res\<close>), the part of
  \<^verbatim>\<open>std::string\<close>, \<^verbatim>\<open>std::string_view\<close> and \<^verbatim>\<open><cctype>\<close> the sources use, conversions
  between \<^verbatim>\<open>int\<close> and \<^verbatim>\<open>size_t\<close>, and the rewriting collections.

  A \<^verbatim>\<open>char\<close> is a HOL \<open>char\<close> (a byte); a string or a view of one is the list of
  the characters it still holds.  The character tests and case conversions are those of the C
  locale, on bytes below 128.  The sources hand them a plain \<^verbatim>\<open>char\<close>, for which \<^verbatim>\<open><cctype>\<close> promises
  nothing when it is negative; on a byte above 127 the definitions give the answer of the
  implementations that accept it (no space, digit or letter), and a property that rules out
  undefined behaviour asks for bytes below 128.
\<close>

named_theorems res_simps "evaluation of fallible results"
named_theorems sv_simps "string, view and character-class primitives"

subsection \<open>Faults and results\<close>

datatype fault =
    OutOfRange       \<comment> \<open>\<^verbatim>\<open>std::out_of_range\<close>, thrown by the checked accessors\<close>
  | InvalidArgument  \<comment> \<open>\<^verbatim>\<open>std::invalid_argument\<close>\<close>
  | RuntimeError     \<comment> \<open>\<^verbatim>\<open>std::runtime_error\<close>\<close>
  | LengthError      \<comment> \<open>\<^verbatim>\<open>std::length_error\<close>\<close>
  | BadAnyCast       \<comment> \<open>\<^verbatim>\<open>std::bad_any_cast\<close>\<close>
  | BadFunctionCall  \<comment> \<open>\<^verbatim>\<open>std::bad_function_call\<close>\<close>
  | Terminated       \<comment> \<open>\<^verbatim>\<open>std::terminate\<close> has been called\<close>
  | Undefined        \<comment> \<open>undefined behaviour: no value is promised\<close>

type_synonym 'a res = "fault + 'a"

definition bindR :: "'a res \<Rightarrow> ('a \<Rightarrow> 'b res) \<Rightarrow> 'b res" where
  "bindR m f = (case m of Inl e \<Rightarrow> Inl e | Inr x \<Rightarrow> f x)"

lemma bindR_simps [simp, res_simps]:
  "bindR (Inl e) f = Inl e"
  "bindR (Inr x) f = f x"
  by (simp_all add: bindR_def)

lemma bindR_Inr_iff [res_simps]:
  "bindR m f = Inr y \<longleftrightarrow> (\<exists>x. m = Inr x \<and> f x = Inr y)"
  by (cases m) auto

lemma bindR_Inl_iff [res_simps]:
  "bindR m f = Inl e \<longleftrightarrow> m = Inl e \<or> (\<exists>x. m = Inr x \<and> f x = Inl e)"
  by (cases m) auto

lemma bindR_cong [fundef_cong]:
  "m = m' \<Longrightarrow> (\<And>x. m' = Inr x \<Longrightarrow> f x = g x) \<Longrightarrow> bindR m f = bindR m' g"
  by (cases m') auto

lemma bindR_assoc: "bindR (bindR m f) g = bindR m (\<lambda>x. bindR (f x) g)"
  by (cases m) auto

text \<open>A fallible operation that may not return (\<open>None\<close>).\<close>

type_synonym 'a run = "'a res option"

definition bindO :: "'a run \<Rightarrow> ('a \<Rightarrow> 'b run) \<Rightarrow> 'b run" where
  "bindO m f = Option.bind m (\<lambda>r. case r of Inl e \<Rightarrow> Some (Inl e) | Inr x \<Rightarrow> f x)"

lemma bindO_simps [simp, res_simps]:
  "bindO None f = None"
  "bindO (Some (Inl e)) f = Some (Inl e)"
  "bindO (Some (Inr x)) f = f x"
  by (simp_all add: bindO_def)

lemma bindO_Inr: "bindO m f = Some (Inr y) \<longleftrightarrow> (\<exists>x. m = Some (Inr x) \<and> f x = Some (Inr y))"
  by (cases m; cases "the m") (auto simp: bindO_def)

subsection \<open>Actions on a state\<close>

text \<open>
  An operation that keeps what it has done when it throws: the state behind it, with the
  fault that ended it, if any.  \<open>andThen\<close> is sequencing, \<open>each\<close> a range-for.
\<close>

definition andThen :: "'s \<times> fault option \<Rightarrow> ('s \<Rightarrow> 's \<times> fault option) \<Rightarrow> 's \<times> fault option" where
  "andThen r f = (case snd r of None \<Rightarrow> f (fst r) | Some e \<Rightarrow> r)"

fun each :: "('x \<Rightarrow> 's \<Rightarrow> 's \<times> fault option) \<Rightarrow> 'x list \<Rightarrow> 's \<Rightarrow> 's \<times> fault option" where
  "each f [] s = (s, None)"
| "each f (x # xs) s = andThen (f x s) (each f xs)"

lemma andThen_simps [simp, res_simps]:
  "andThen (s, None) f = f s"
  "andThen (s, Some e) f = (s, Some e)"
  by (simp_all add: andThen_def)

lemma andThen_None: "andThen r f = (s', None) \<longleftrightarrow> (\<exists>s. r = (s, None) \<and> f s = (s', None))"
  by (cases r; cases "snd r") (auto simp: andThen_def)

lemma andThen_invariant:
  assumes "P (fst r)" "\<And>s. r = (s, None) \<Longrightarrow> P s \<Longrightarrow> P (fst (f s))"
  shows "P (fst (andThen r f))"
  using assms by (cases r; cases "snd r") (auto simp: andThen_def)

lemma each_append: "each f (xs @ ys) s = andThen (each f xs s) (each f ys)"
  by (induction xs arbitrary: s) (auto simp: andThen_def split: option.splits)

lemma each_invariant:
  assumes "P s" "\<And>x s. x \<in> set xs \<Longrightarrow> P s \<Longrightarrow> P (fst (f x s))"
  shows "P (fst (each f xs s))"
  using assms
proof (induction xs arbitrary: s)
  case (Cons x xs)
  have "P (fst (f x s))" by (rule Cons.prems(2)) (simp_all add: Cons.prems(1))
  then show ?case unfolding each.simps
    by (rule andThen_invariant) (rule Cons.IH, assumption, rule Cons.prems(2), simp_all)
qed simp

subsection \<open>Integer conversions\<close>

text \<open>
  \<^verbatim>\<open>size_t\<close> is 64 bits wide and \<^verbatim>\<open>int\<close> is 32 bits wide.  \<open>int_of_size\<close> is the narrowing
  conversion of a \<^verbatim>\<open>size_t\<close> to \<^verbatim>\<open>int\<close>, \<open>size_of_int\<close> the conversion back.
\<close>

definition int_of_size :: "nat \<Rightarrow> int" where
  "int_of_size n = sint (word_of_nat n :: 32 word)"

definition size_of_int :: "int \<Rightarrow> nat" where
  "size_of_int i = nat (i mod 2 ^ 64)"

definition int_succ :: "int \<Rightarrow> int res" where
  "int_succ i = (if i = 2147483647 then Inl Undefined else Inr (i + 1))"

lemma int_of_size_small [simp, sv_simps]: "n < 2147483648 \<Longrightarrow> int_of_size n = int n"
  by (simp add: int_of_size_def signed_of_nat signed_take_bit_int_eq_self)

lemma size_of_int_small [simp, sv_simps]:
  "0 \<le> i \<Longrightarrow> i < 18446744073709551616 \<Longrightarrow> size_of_int i = nat i"
  by (simp add: size_of_int_def)

subsection \<open>Decimal output of integers\<close>

text \<open>\<^verbatim>\<open>std::to_string\<close>, and an \<^verbatim>\<open>int\<close> put into a stream.\<close>

definition digit_char :: "nat \<Rightarrow> char" where
  "digit_char n = char_of (48 + n)"

function show_nat :: "nat \<Rightarrow> string" where
  "show_nat n = (if n < 10 then [digit_char n] else show_nat (n div 10) @ [digit_char (n mod 10)])"
  by pat_completeness auto
termination
  by (relation "measure id") auto

declare show_nat.simps [simp del]

definition show_int :: "int \<Rightarrow> string" where
  "show_int i = (if i < 0 then CHR ''-'' # show_nat (nat (- i)) else show_nat (nat i))"

subsection \<open>Strings and views\<close>

abbreviation quote :: char where "quote \<equiv> CHR 0x22"
abbreviation backslash :: char where "backslash \<equiv> CHR 0x5C"
abbreviation cr :: char where "cr \<equiv> CHR 0x0D"
abbreviation lf :: char where "lf \<equiv> CHR 0x0A"

text \<open>\<^verbatim>\<open>at(i)\<close> is checked; \<^verbatim>\<open>remove_prefix(n)\<close> is not.\<close>

definition sv_at :: "string \<Rightarrow> nat \<Rightarrow> char res" where
  "sv_at s i = (if i < length s then Inr (s ! i) else Inl OutOfRange)"

definition remove_prefix :: "nat \<Rightarrow> string \<Rightarrow> string res" where
  "remove_prefix n s = (if n \<le> length s then Inr (drop n s) else Inl Undefined)"

lemma sv_at_simps [simp, sv_simps]:
  "sv_at [] i = Inl OutOfRange"
  "sv_at (c # s) 0 = Inr c"
  "sv_at (c # s) (Suc i) = sv_at s i"
  by (simp_all add: sv_at_def)

text \<open>
  \<^verbatim>\<open>find(c, pos)\<close> and \<^verbatim>\<open>find_first_of(c, pos)\<close>: the first position from \<open>pos\<close> on that
  holds \<open>c\<close>; \<open>None\<close> is \<^verbatim>\<open>npos\<close>.
\<close>

fun index_of :: "char \<Rightarrow> string \<Rightarrow> nat option" where
  "index_of c [] = None"
| "index_of c (x # xs) = (if x = c then Some 0 else map_option Suc (index_of c xs))"

definition find_char :: "string \<Rightarrow> char \<Rightarrow> nat \<Rightarrow> nat option" where
  "find_char s c p = map_option ((+) p) (index_of c (drop p s))"

lemma index_of_None: "index_of c s = None \<longleftrightarrow> c \<notin> set s"
  by (induction s) auto

lemma index_of_append: "c \<notin> set xs \<Longrightarrow> index_of c (xs @ c # ys) = Some (length xs)"
  by (induction xs) auto

lemma index_of_SomeD: "index_of c s = Some i \<Longrightarrow> i < length s \<and> s ! i = c \<and> c \<notin> set (take i s)"
  by (induction s arbitrary: i) (auto split: if_splits)

lemma find_char_0 [simp]: "find_char s c 0 = index_of c s"
  by (cases "index_of c s") (simp_all add: find_char_def)

lemma find_char_SomeD: "find_char s c p = Some i \<Longrightarrow> p \<le> i \<and> i < length s \<and> s ! i = c"
  by (auto simp: find_char_def dest!: index_of_SomeD)

lemma find_char_here: "p < length s \<Longrightarrow> s ! p = c \<Longrightarrow> find_char s c p = Some p"
  by (simp add: find_char_def Cons_nth_drop_Suc [symmetric])

text \<open>\<^verbatim>\<open>find(sub, pos)\<close> for strings, and \<^verbatim>\<open>substr(pos, n)\<close>.\<close>

fun index_of_sub :: "string \<Rightarrow> string \<Rightarrow> nat option" where
  "index_of_sub sub [] = (if sub = [] then Some 0 else None)"
| "index_of_sub sub (x # xs) =
     (if prefix sub (x # xs) then Some 0 else map_option Suc (index_of_sub sub xs))"

definition find_sub :: "string \<Rightarrow> string \<Rightarrow> nat \<Rightarrow> nat option" where
  "find_sub s sub p =
     (if p \<le> length s then map_option ((+) p) (index_of_sub sub (drop p s)) else None)"

definition substr :: "string \<Rightarrow> nat \<Rightarrow> nat \<Rightarrow> string res" where
  "substr s p n = (if p \<le> length s then Inr (take n (drop p s)) else Inl OutOfRange)"

lemma find_sub_0 [simp]: "find_sub s sub 0 = index_of_sub sub s"
  by (cases "index_of_sub sub s") (simp_all add: find_sub_def)

lemma index_of_sub_0: "index_of_sub sub s = Some 0 \<longleftrightarrow> prefix sub s"
  by (cases s) auto

lemma index_of_sub_SomeD:
  "index_of_sub sub s = Some i \<Longrightarrow> i + length sub \<le> length s \<and> take (length sub) (drop i s) = sub"
proof (induction s arbitrary: i)
  case Nil
  then show ?case by (auto split: if_splits)
next
  case (Cons x xs)
  show ?case
  proof (cases "prefix sub (x # xs)")
    case True
    with Cons.prems have "i = 0" by simp
    with True show ?thesis by (metis add_0 append_eq_conv_conj drop0 prefix_def prefix_length_le)
  next
    case False
    with Cons show ?thesis by auto
  qed
qed

lemma index_of_sub_None: "index_of_sub sub s = None \<longleftrightarrow> \<not> sublist sub s"
  by (induction s) (auto simp: sublist_Cons_right)

subsection \<open>\<^verbatim>\<open>std::transform\<close>\<close>

text \<open>
  \<^verbatim>\<open>std::transform(first, last, dst.begin() + o, f)\<close> writes through an iterator of a container:
  it overwrites elements and never makes the container longer.  A write at or past
  \<^verbatim>\<open>dst.end()\<close> is undefined, whatever capacity has been reserved.
\<close>

definition transform_into :: "'b list \<Rightarrow> nat \<Rightarrow> ('a \<Rightarrow> 'b) \<Rightarrow> 'a list \<Rightarrow> 'b list res" where
  "transform_into dst o' f xs =
     (if o' + length xs \<le> length dst
      then Inr (take o' dst @ map f xs @ drop (o' + length xs) dst) else Inl Undefined)"

lemma transform_into_empty [simp]:
  "transform_into [] 0 f xs = (if xs = [] then Inr [] else Inl Undefined)"
  by (simp add: transform_into_def)

subsection \<open>Character classes and case\<close>

definition isspace :: "char \<Rightarrow> bool" where
  "isspace c \<longleftrightarrow> c = CHR 0x20 \<or> c = CHR 0x09 \<or> c = CHR 0x0A \<or> c = CHR 0x0B
     \<or> c = CHR 0x0C \<or> c = CHR 0x0D"

definition isdigit :: "char \<Rightarrow> bool" where
  "isdigit c \<longleftrightarrow> CHR ''0'' \<le> c \<and> c \<le> CHR ''9''"

definition isupper :: "char \<Rightarrow> bool" where
  "isupper c \<longleftrightarrow> CHR ''A'' \<le> c \<and> c \<le> CHR ''Z''"

definition islower :: "char \<Rightarrow> bool" where
  "islower c \<longleftrightarrow> CHR ''a'' \<le> c \<and> c \<le> CHR ''z''"

definition isalpha :: "char \<Rightarrow> bool" where
  "isalpha c \<longleftrightarrow> isupper c \<or> islower c"

definition tolower :: "char \<Rightarrow> char" where
  "tolower c = (if isupper c then char_of (of_char c + 32 :: nat) else c)"

definition toupper :: "char \<Rightarrow> char" where
  "toupper c = (if islower c then char_of (of_char c - 32 :: nat) else c)"

definition digit_val :: "char \<Rightarrow> int" where
  "digit_val c = int (of_char c) - int (of_char (CHR ''0''))"

lemma tens: "int n = 10 * int (n div 10) + int (n mod 10)"
  by (metis mult_div_mod_eq of_nat_add of_nat_mult of_nat_numeral)

lemma digit_char_0: "digit_char 0 = CHR ''0''"
  by (simp add: digit_char_def char_of_eq_iff)

lemma digit_val_char: "n < 10 \<Longrightarrow> digit_val (digit_char n) = int n"
  by (simp add: digit_val_def digit_char_def)

lemma foldl_show_nat: "foldl (\<lambda>a c. 10 * a + digit_val c) 0 (show_nat n) = int n"
proof (induction n rule: show_nat.induct)
  case (1 n)
  show ?case
  proof (cases "n < 10")
    case True
    then show ?thesis by (subst show_nat.simps) (simp add: digit_val_char)
  next
    case False
    with "1.IH" [OF False] tens [of n] show ?thesis
      by (subst show_nat.simps) (simp add: digit_val_char)
  qed
qed

lemma char_le_nat: "c \<le> d \<longleftrightarrow> (of_char c :: nat) \<le> of_char d"
  by (simp add: less_eq_char_def)

lemma show_nat_isdigit: "\<forall>c \<in> set (show_nat n). isdigit c"
proof (induction n rule: show_nat.induct)
  case (1 n)
  have "isdigit (digit_char k)" if "k < 10" for k
    using that by (simp add: isdigit_def char_le_nat digit_char_def)
  with 1 show ?case by (subst show_nat.simps) auto
qed

lemma isspace_chars [simp, sv_simps]:
  "isspace (CHR 0x20)" "isspace cr" "isspace lf"
  "\<not> isspace quote" "\<not> isspace (CHR ''{'')" "\<not> isspace (CHR ''}'')"
  "\<not> isspace (CHR ''['')" "\<not> isspace (CHR '']'')" "\<not> isspace (CHR '','')"
  "\<not> isspace (CHR '':'')" "\<not> isspace (CHR ''-'')"
  by (simp_all add: isspace_def)

lemma not_isspace_isdigit [simp]: "isdigit c \<Longrightarrow> \<not> isspace c"
  by (auto simp: isspace_def isdigit_def char_le_nat)

lemma not_isspace_isalpha [simp]: "isalpha c \<Longrightarrow> \<not> isspace c"
  by (auto simp: isspace_def isalpha_def isupper_def islower_def char_le_nat)

lemma isalpha_chars [simp, sv_simps]:
  "\<not> isalpha (CHR 0x20)" "\<not> isalpha cr" "\<not> isalpha lf" "\<not> isalpha (CHR '','')"
  "\<not> isalpha (CHR '']'')" "\<not> isalpha (CHR ''}'')"
  by (simp_all add: isalpha_def isupper_def islower_def char_le_nat)

lemma isdigit_chars [simp, sv_simps]:
  "\<not> isdigit (CHR 0x20)" "\<not> isdigit cr" "\<not> isdigit lf" "\<not> isdigit (CHR '','')"
  "\<not> isdigit (CHR '']'')" "\<not> isdigit (CHR ''}'')" "\<not> isdigit (CHR ''-'')"
  "\<not> isdigit quote" "\<not> isdigit (CHR ''['')" "\<not> isdigit (CHR ''{'')" "\<not> isdigit (CHR '':'')"
  "\<not> isdigit (CHR ''.'')" "\<not> isdigit (CHR ''e'')" "\<not> isdigit (CHR ''E'')"
  "isdigit (CHR ''0'')"
  by (simp_all add: isdigit_def char_le_nat)

lemma not_isdigit_isalpha: "isalpha c \<Longrightarrow> \<not> isdigit c"
  by (auto simp: isdigit_def isalpha_def isupper_def islower_def char_le_nat)

lemma tolower_idem [simp]: "tolower (tolower c) = tolower c"
  by (auto simp: tolower_def isupper_def char_le_nat)

text \<open>Removing the longest prefix of characters of a class.\<close>

lemma suffix_dropWhile: "suffix (dropWhile P s) s"
  by (metis suffixI takeWhile_dropWhile_id)

lemma length_suffix: "suffix s t \<Longrightarrow> length s \<le> length t"
  by (rule suffix_length_le)

lemma suffix_set: "suffix s t \<Longrightarrow> set s \<subseteq> set t"
  by (rule set_mono_suffix)

lemma suffix_drop_trans: "suffix s t \<Longrightarrow> suffix (drop n s) t"
  by (meson suffix_drop suffix_order.trans)

text \<open>
  The loop \<^verbatim>\<open>for (; p(s.at(n)); ++n);\<close> of the parsers: it reads past the last character
  if no character fails the test.
\<close>

fun scan_while :: "(char \<Rightarrow> bool) \<Rightarrow> string \<Rightarrow> nat res" where
  "scan_while p [] = Inl OutOfRange"
| "scan_while p (c # s) = (if p c then bindR (scan_while p s) (\<lambda>n. Inr (Suc n)) else Inr 0)"

lemma scan_while_append:
  "\<forall>c \<in> set xs. p c \<Longrightarrow> \<not> p d \<Longrightarrow> scan_while p (xs @ d # ys) = Inr (length xs)"
  by (induction xs) auto

lemma scan_while_all: "\<forall>c \<in> set xs. p c \<Longrightarrow> scan_while p xs = Inl OutOfRange"
  by (induction xs) auto

lemma scan_while_InrD:
  "scan_while p s = Inr n \<Longrightarrow> n < length s \<and> (\<forall>c \<in> set (take n s). p c) \<and> \<not> p (s ! n)"
  by (induction s arbitrary: n) (auto split: if_splits simp: res_simps)

lemma scan_while_InlD: "scan_while p s = Inl e \<Longrightarrow> e = OutOfRange \<and> (\<forall>c \<in> set s. p c)"
  by (induction s) (auto split: if_splits simp: res_simps)

end
