(* ===== verification/StdMap.thy ===== *)
theory StdMap
  imports Prelude
begin

text \<open>
  \<^verbatim>\<open>std::map\<close>: an association list kept strictly sorted by its keys, so that a range-for
  over the map visits the pairs in list order.  \<open>map_set\<close> is \<^verbatim>\<open>m[k] = v\<close> (it
  overwrites), \<open>map_insert\<close> is \<^verbatim>\<open>insert\<close> and \<^verbatim>\<open>emplace\<close> (they keep an existing entry),
  \<open>map_erase\<close> is \<^verbatim>\<open>erase(key)\<close>, \<open>map_at\<close> is the checked \<^verbatim>\<open>at\<close>; lookup is \<open>map_of\<close>.
  The locale \<open>std_dict\<close> states what a client of a dictionary relies on.
\<close>

named_theorems map_laws "lookup after each map operation"

fun map_set :: "('k::linorder \<times> 'v) list \<Rightarrow> 'k \<Rightarrow> 'v \<Rightarrow> ('k \<times> 'v) list" where
  "map_set [] k v = [(k, v)]"
| "map_set (p # m) k v =
     (if fst p < k then p # map_set m k v
      else if fst p = k then (k, v) # m else (k, v) # p # m)"

fun map_insert :: "('k::linorder \<times> 'v) list \<Rightarrow> 'k \<Rightarrow> 'v \<Rightarrow> ('k \<times> 'v) list" where
  "map_insert [] k v = [(k, v)]"
| "map_insert (p # m) k v =
     (if fst p < k then p # map_insert m k v
      else if fst p = k then p # m else (k, v) # p # m)"

fun map_erase :: "('k::linorder \<times> 'v) list \<Rightarrow> 'k \<Rightarrow> ('k \<times> 'v) list" where
  "map_erase [] k = []"
| "map_erase (p # m) k = (if fst p = k then m else p # map_erase m k)"

definition map_at :: "('k \<times> 'v) list \<Rightarrow> 'k \<Rightarrow> 'v res" where
  "map_at m k = (case map_of m k of None \<Rightarrow> Inl OutOfRange | Some v \<Rightarrow> Inr v)"

fun sorted_keys :: "('k::linorder \<times> 'v) list \<Rightarrow> bool" where
  "sorted_keys [] = True"
| "sorted_keys (p # m) = ((\<forall>q \<in> set m. fst p < fst q) \<and> sorted_keys m)"

lemma map_of_set [simp, map_laws]: "sorted_keys m \<Longrightarrow> map_of (map_set m k v) = (map_of m)(k \<mapsto> v)"
  by (induction m) (auto simp: fun_eq_iff)

lemma map_of_NoneI: "\<forall>q \<in> set m. k < fst q \<Longrightarrow> map_of m (k::'k::linorder) = None"
  by (induction m) auto

lemma map_of_insert [simp, map_laws]:
  "sorted_keys m \<Longrightarrow>
   map_of (map_insert m k v) = (case map_of m k of None \<Rightarrow> (map_of m)(k \<mapsto> v) | Some _ \<Rightarrow> map_of m)"
proof (induction m)
  case Nil
  then show ?case by simp
next
  case (Cons p m)
  have "map_of m k = None" if "k < fst p"
    using that Cons.prems by (intro map_of_NoneI) auto
  with Cons show ?case
    by (cases "fst p" k rule: linorder_cases) (auto simp: fun_eq_iff split: option.splits)
qed

lemma map_of_erase [simp, map_laws]:
  "sorted_keys m \<Longrightarrow> map_of (map_erase m k) = (map_of m)(k := None)"
proof (induction m)
  case Nil
  then show ?case by (simp add: fun_eq_iff)
next
  case (Cons p m)
  then have "map_of m (fst p) = None" by (intro map_of_NoneI) auto
  with Cons show ?case by (auto simp: fun_eq_iff)
qed

lemma set_map_set: "set (map_set m k v) \<subseteq> insert (k, v) (set m)"
  by (induction m) auto

lemma set_map_insert: "set (map_insert m k v) \<subseteq> insert (k, v) (set m)"
  by (induction m) auto

lemma set_map_erase: "set (map_erase m k) \<subseteq> set m"
  by (induction m) auto

lemma sorted_keys_set [simp, intro]: "sorted_keys m \<Longrightarrow> sorted_keys (map_set m k v)"
  by (induction m) (use set_map_set in fastforce)+

lemma sorted_keys_insert [simp, intro]: "sorted_keys m \<Longrightarrow> sorted_keys (map_insert m k v)"
  by (induction m) (use set_map_insert in fastforce)+

lemma sorted_keys_erase [simp, intro]: "sorted_keys m \<Longrightarrow> sorted_keys (map_erase m k)"
  by (induction m) (use set_map_erase in fastforce)+

lemma map_at_set [simp, map_laws]:
  "sorted_keys m \<Longrightarrow> map_at (map_set m k v) l = (if l = k then Inr v else map_at m l)"
  by (simp add: map_at_def)

text \<open>Appending a key above all others, as a loop over a sorted range does.\<close>

lemma map_set_snoc: "\<forall>q \<in> set m. fst q < k \<Longrightarrow> map_set m k v = m @ [(k, v)]"
  by (induction m) auto

lemma sorted_keys_append:
  "sorted_keys (xs @ ys) \<longleftrightarrow>
     sorted_keys xs \<and> sorted_keys ys \<and> (\<forall>p \<in> set xs. \<forall>q \<in> set ys. fst p < fst q)"
  by (induction xs) auto

lemma sorted_keys_distinct: "sorted_keys m \<Longrightarrow> distinct (map fst m)"
  by (induction m) auto

subsection \<open>The dictionary interface\<close>

text \<open>
  \<open>put\<close> is any operation that stores a pair; \<open>wins\<close> says whether a stored pair replaces
  an earlier one.  Storing a list of pairs one by one then finds the last pair of a key
  (\<open>wins\<close>) or the first.
\<close>

locale std_dict =
  fixes empty :: "'m"
    and put :: "'m \<Rightarrow> 'k \<Rightarrow> 'v \<Rightarrow> 'm"
    and lookup :: "'m \<Rightarrow> 'k \<Rightarrow> 'v option"
    and good :: "'m \<Rightarrow> bool"
    and wins :: bool
  assumes good_empty: "good empty"
    and good_put: "good m \<Longrightarrow> good (put m k v)"
    and lookup_empty: "lookup empty k = None"
    and lookup_put: "good m \<Longrightarrow>
      lookup (put m k v) l =
        (if l = k then (if wins \<or> lookup m k = None then Some v else lookup m k) else lookup m l)"
begin

lemma good_foldl: "good m \<Longrightarrow> good (foldl (\<lambda>m p. put m (fst p) (snd p)) m kvs)"
  by (induction kvs arbitrary: m) (auto intro: good_put)

lemma lookup_foldl_wins:
  "wins \<Longrightarrow> good m \<Longrightarrow>
   lookup (foldl (\<lambda>m p. put m (fst p) (snd p)) m kvs) k =
     (case map_of (rev kvs) k of None \<Rightarrow> lookup m k | Some v \<Rightarrow> Some v)"
proof (induction kvs arbitrary: m)
  case Nil
  then show ?case by simp
next
  case (Cons p kvs)
  then show ?case
    by (simp add: good_put lookup_put map_add_def split: option.splits)
qed

lemma lookup_foldl_keeps:
  "\<not> wins \<Longrightarrow> good m \<Longrightarrow>
   lookup (foldl (\<lambda>m p. put m (fst p) (snd p)) m kvs) k =
     (case lookup m k of None \<Rightarrow> map_of kvs k | Some v \<Rightarrow> Some v)"
proof (induction kvs arbitrary: m)
  case Nil
  then show ?case by (simp split: option.splits)
next
  case (Cons p kvs)
  then show ?case
    by (cases p) (simp add: good_put lookup_put split: option.splits)
qed

lemma lookup_last: "wins \<Longrightarrow> lookup (foldl (\<lambda>m p. put m (fst p) (snd p)) empty kvs) k = map_of (rev kvs) k"
  by (simp add: lookup_foldl_wins good_empty lookup_empty split: option.splits)

lemma lookup_first: "\<not> wins \<Longrightarrow> lookup (foldl (\<lambda>m p. put m (fst p) (snd p)) empty kvs) k = map_of kvs k"
  by (simp add: lookup_foldl_keeps good_empty lookup_empty)

end

interpretation assign: std_dict "[]" map_set map_of sorted_keys True
  by unfold_locales auto

interpretation emplace: std_dict "[]" map_insert map_of sorted_keys False
  by unfold_locales (auto split: option.splits)

end
