(* ===== verification/Variant.thy ===== *)
theory Variant
  imports StdMap
begin

text \<open>
  \<^verbatim>\<open>include/brutils/variant.h\<close>.  A \<^verbatim>\<open>variant\<close> has the three members of the class: the flag
  \<^verbatim>\<open>_valid\<close>, the pointer \<^verbatim>\<open>_type\<close> to a \<^verbatim>\<open>type_info\<close> (null in a default-constructed object)
  and the \<^verbatim>\<open>std::any\<close> member \<^verbatim>\<open>_value\<close> (empty in a default-constructed object).  The
  types of values that can be stored are those of the constructors.  \<open>'f\<close> and \<open>'d\<close> are
  the values of \<^verbatim>\<open>float\<close> and \<^verbatim>\<open>double\<close>.
\<close>

datatype tyid = TyNull | TyBool | TyInt | TyFloat | TyDouble | TyString | TyList | TyMap

datatype ('f, 'd) any =
    ANull
  | ABool bool
  | AInt "32 word"
  | AFloat 'f
  | ADouble 'd
  | AString string
  | AList "('f, 'd) variant list"
  | AMap "(string \<times> ('f, 'd) variant) list"
and ('f, 'd) variant =
    Variant (valid: bool) (type_info: "tyid option") (any_value: "('f, 'd) any option")

type_synonym ('f, 'd) variant_list = "('f, 'd) variant list"
type_synonym ('f, 'd) variant_map = "(string \<times> ('f, 'd) variant) list"

fun typeid :: "('f, 'd) any \<Rightarrow> tyid" where
  "typeid ANull = TyNull"
| "typeid (ABool _) = TyBool"
| "typeid (AInt _) = TyInt"
| "typeid (AFloat _) = TyFloat"
| "typeid (ADouble _) = TyDouble"
| "typeid (AString _) = TyString"
| "typeid (AList _) = TyList"
| "typeid (AMap _) = TyMap"

subsection \<open>Construction and assignment\<close>

definition default_variant :: "('f, 'd) variant" where
  "default_variant = Variant False None None"

definition setValue :: "('f, 'd) any \<Rightarrow> ('f, 'd) variant \<Rightarrow> ('f, 'd) variant" where
  "setValue t v = (case v of Variant _ _ _ \<Rightarrow> Variant True (Some (typeid t)) (Some t))"

text \<open>The explicit constructors: the members are uninitialised until \<^verbatim>\<open>setValue\<close> sets them.\<close>

definition variant_of :: "('f, 'd) any \<Rightarrow> ('f, 'd) variant" where
  "variant_of t = setValue t default_variant"

subsection \<open>Queries\<close>

definition isValid :: "('f, 'd) variant \<Rightarrow> bool" where
  "isValid v = valid v"

definition isNull :: "('f, 'd) variant \<Rightarrow> bool" where
  "isNull v \<longleftrightarrow> any_value v = None"

definition holds :: "tyid \<Rightarrow> ('f, 'd) variant \<Rightarrow> bool" where
  "holds ty v =
     (if \<not> isNull v then (case any_value v of Some x \<Rightarrow> typeid x = ty | None \<Rightarrow> False) else False)"

definition isBool :: "('f, 'd) variant \<Rightarrow> bool" where "isBool v = holds TyBool v"
definition isInt :: "('f, 'd) variant \<Rightarrow> bool" where "isInt v = holds TyInt v"
definition isFloat :: "('f, 'd) variant \<Rightarrow> bool" where "isFloat v = holds TyFloat v"
definition isDouble :: "('f, 'd) variant \<Rightarrow> bool" where "isDouble v = holds TyDouble v"
definition isString :: "('f, 'd) variant \<Rightarrow> bool" where "isString v = holds TyString v"
definition isMap :: "('f, 'd) variant \<Rightarrow> bool" where "isMap v = holds TyMap v"
definition isList :: "('f, 'd) variant \<Rightarrow> bool" where "isList v = holds TyList v"

definition isValue :: "('f, 'd) variant \<Rightarrow> bool" where
  "isValue v =
     (if \<not> isNull v
      then (case any_value v of Some x \<Rightarrow> typeid x \<noteq> TyMap \<and> typeid x \<noteq> TyList | None \<Rightarrow> False)
      else False)"

lemmas is_defs = isBool_def isInt_def isFloat_def isDouble_def isString_def isMap_def isList_def
  holds_def isNull_def isValid_def isValue_def

subsection \<open>Reading a value\<close>

text \<open>
  \<^verbatim>\<open>value<T>()\<close>: it compares \<^verbatim>\<open>typeid(T)\<close> with the object \<^verbatim>\<open>_type\<close> points to, and
  \<^verbatim>\<open>std::any_cast\<close> throws when the stored type is another one.  \<open>ty\<close> is \<^verbatim>\<open>typeid(T)\<close>, \<open>get\<close>
  the projection of a stored \<open>T\<close>, \<open>dflt\<close> is \<^verbatim>\<open>T()\<close>.
\<close>

definition value_as ::
  "tyid \<Rightarrow> (('f, 'd) any \<Rightarrow> 'a option) \<Rightarrow> 'a \<Rightarrow> ('f, 'd) variant \<Rightarrow> 'a res" where
  "value_as ty get dflt v =
     (case type_info v of
        None \<Rightarrow> Inl Undefined
      | Some t \<Rightarrow>
          if ty = t then
            (case any_value v of
               None \<Rightarrow> Inl BadAnyCast
             | Some x \<Rightarrow> (case get x of None \<Rightarrow> Inl BadAnyCast | Some y \<Rightarrow> Inr y))
          else Inr dflt)"

fun as_bool :: "('f, 'd) any \<Rightarrow> bool option" where
  "as_bool (ABool b) = Some b" | "as_bool _ = None"

fun as_int :: "('f, 'd) any \<Rightarrow> 32 word option" where
  "as_int (AInt i) = Some i" | "as_int _ = None"

fun as_float :: "('f, 'd) any \<Rightarrow> 'f option" where
  "as_float (AFloat x) = Some x" | "as_float _ = None"

fun as_double :: "('f, 'd) any \<Rightarrow> 'd option" where
  "as_double (ADouble x) = Some x" | "as_double _ = None"

fun as_string :: "('f, 'd) any \<Rightarrow> string option" where
  "as_string (AString s) = Some s" | "as_string _ = None"

fun as_list :: "('f, 'd) any \<Rightarrow> ('f, 'd) variant_list option" where
  "as_list (AList l) = Some l" | "as_list _ = None"

fun as_map :: "('f, 'd) any \<Rightarrow> ('f, 'd) variant_map option" where
  "as_map (AMap m) = Some m" | "as_map _ = None"

definition toBool :: "('f, 'd) variant \<Rightarrow> bool res" where
  "toBool v = value_as TyBool as_bool False v"

definition toInt :: "('f, 'd) variant \<Rightarrow> 32 word res" where
  "toInt v = value_as TyInt as_int 0 v"

definition toFloat :: "'f \<Rightarrow> ('f, 'd) variant \<Rightarrow> 'f res" where
  "toFloat zero v = value_as TyFloat as_float zero v"

definition toDouble :: "'d \<Rightarrow> ('f, 'd) variant \<Rightarrow> 'd res" where
  "toDouble zero v = value_as TyDouble as_double zero v"

definition toString :: "('f, 'd) variant \<Rightarrow> string res" where
  "toString v = value_as TyString as_string [] v"

definition toList :: "('f, 'd) variant \<Rightarrow> ('f, 'd) variant_list res" where
  "toList v = value_as TyList as_list [] v"

definition toMap :: "('f, 'd) variant \<Rightarrow> ('f, 'd) variant_map res" where
  "toMap v = value_as TyMap as_map [] v"

lemmas to_defs = toBool_def toInt_def toFloat_def toDouble_def toString_def toList_def toMap_def
  value_as_def

subsection \<open>The class invariant\<close>

text \<open>
  The three members agree: either the object is a default one, or it is valid, a value is
  stored and the type pointer names the type of that value.  Below it, the elements of
  a list are valid, and a map is a \<^verbatim>\<open>std::map\<close>.
\<close>

fun coherent :: "('f, 'd) variant \<Rightarrow> bool"
  and coherent_any :: "('f, 'd) any \<Rightarrow> bool" where
  "coherent (Variant b t x) =
     (case x of
        None \<Rightarrow> \<not> b \<and> t = None
      | Some y \<Rightarrow> b \<and> t = Some (typeid y) \<and> coherent_any y)"
| "coherent_any ANull = True"
| "coherent_any (ABool _) = True"
| "coherent_any (AInt _) = True"
| "coherent_any (AFloat _) = True"
| "coherent_any (ADouble _) = True"
| "coherent_any (AString _) = True"
| "coherent_any (AList l) = (\<forall>v \<in> set l. valid v \<and> coherent v)"
| "coherent_any (AMap m) = (sorted_keys m \<and> (\<forall>p \<in> set m. coherent (snd p)))"

lemma variant_of_simps [simp]:
  "valid (variant_of t)"
  "type_info (variant_of t) = Some (typeid t)"
  "any_value (variant_of t) = Some t"
  "isValid (variant_of t)"
  "\<not> isNull (variant_of t)"
  by (simp_all add: variant_of_def setValue_def default_variant_def isValid_def isNull_def)

lemma default_variant_simps [simp]:
  "\<not> valid default_variant"
  "type_info default_variant = None"
  "any_value default_variant = None"
  "\<not> isValid default_variant"
  "isNull default_variant"
  by (simp_all add: default_variant_def isValid_def isNull_def)

lemma holds_variant_of [simp]: "holds ty (variant_of t) \<longleftrightarrow> typeid t = ty"
  by (simp add: holds_def)

lemma coherent_variant_of [simp]: "coherent (variant_of t) \<longleftrightarrow> coherent_any t"
  by (simp add: variant_of_def setValue_def default_variant_def)

lemma coherent_default [simp]: "coherent default_variant"
  by (simp add: default_variant_def)

lemma variant_of_eq [simp]: "variant_of s = variant_of t \<longleftrightarrow> s = t"
  by (auto simp: variant_of_def setValue_def default_variant_def)

lemma coherent_cases:
  assumes "coherent v"
  obtains "v = default_variant" | t where "v = variant_of t" "coherent_any t"
  using assms
  by (cases v) (auto simp: default_variant_def variant_of_def setValue_def split: option.splits)

lemma setValue_eq: "setValue t v = variant_of t"
  by (cases v) (simp add: variant_of_def setValue_def default_variant_def)

lemma value_as_variant_of:
  "value_as ty get dflt (variant_of t) =
     (if ty = typeid t then (case get t of None \<Rightarrow> Inl BadAnyCast | Some y \<Rightarrow> Inr y) else Inr dflt)"
  by (simp add: value_as_def)

lemma toMap_AMap [simp]: "toMap (variant_of (AMap m)) = Inr m"
  by (simp add: toMap_def value_as_variant_of)

lemma toList_AList [simp]: "toList (variant_of (AList l)) = Inr l"
  by (simp add: toList_def value_as_variant_of)

lemma toString_AString [simp]: "toString (variant_of (AString s)) = Inr s"
  by (simp add: toString_def value_as_variant_of)

text \<open>
  \<^verbatim>\<open>setValue\<close> brings any variant, whatever it held, to the stored value: it is valid,
  not null, answers exactly one of the type tests, and its getter of that type returns
  the value while the getters of the other types return their default.
\<close>

theorem setValue_then_read:
  "isValid (setValue t v) \<and> \<not> isNull (setValue t v) \<and>
   (isString (setValue t v) \<longleftrightarrow> typeid t = TyString) \<and>
   (isMap (setValue t v) \<longleftrightarrow> typeid t = TyMap) \<and>
   (isList (setValue t v) \<longleftrightarrow> typeid t = TyList) \<and>
   (isValue (setValue t v) \<longleftrightarrow> \<not> isMap (setValue t v) \<and> \<not> isList (setValue t v)) \<and>
   toInt (setValue t v) = Inr (case t of AInt i \<Rightarrow> i | _ \<Rightarrow> 0) \<and>
   toBool (setValue t v) = Inr (case t of ABool b \<Rightarrow> b | _ \<Rightarrow> False) \<and>
   toString (setValue t v) = Inr (case t of AString s \<Rightarrow> s | _ \<Rightarrow> []) \<and>
   toList (setValue t v) = Inr (case t of AList l \<Rightarrow> l | _ \<Rightarrow> []) \<and>
   toMap (setValue t v) = Inr (case t of AMap m \<Rightarrow> m | _ \<Rightarrow> [])"
  by (cases t) (simp_all add: setValue_eq isString_def isMap_def isList_def isValue_def
      toInt_def toBool_def toString_def toList_def toMap_def value_as_variant_of)

text \<open>
  Every getter of a default-constructed variant dereferences a null \<^verbatim>\<open>type_info\<close>
  pointer: it has no defined result, although all the type tests return false.
\<close>

theorem default_variant_getters_undefined:
  "toBool (default_variant :: ('f, 'd) variant) = Inl Undefined \<and>
   toInt (default_variant :: ('f, 'd) variant) = Inl Undefined \<and>
   toString (default_variant :: ('f, 'd) variant) = Inl Undefined \<and>
   toList (default_variant :: ('f, 'd) variant) = Inl Undefined \<and>
   toMap (default_variant :: ('f, 'd) variant) = Inl Undefined \<and>
   \<not> isString (default_variant :: ('f, 'd) variant) \<and>
   \<not> isMap (default_variant :: ('f, 'd) variant) \<and>
   \<not> isValue (default_variant :: ('f, 'd) variant)"
  by (simp add: to_defs isString_def isMap_def isValue_def holds_def)

end
