(* ===== verification/JsonParser.thy ===== *)
theory JsonParser
  imports Variant
begin

text \<open>
  \<^verbatim>\<open>src/brutils/json_parser.cpp\<close>.  A parsing function takes the view it is given by
  reference and returns its value with the view it leaves behind.  Its result has three
  layers: \<open>None\<close> when the call does not return, \<open>Some (Inl e)\<close> when it throws, and
  \<open>Some (Inr (v, rest))\<close> otherwise.  What becomes of a view after an exception is not
  recorded: the exception leaves \<^verbatim>\<open>json_parser::parse\<close>.

  The mutual recursion of \<^verbatim>\<open>parseObject\<close>, \<^verbatim>\<open>parseArray\<close> and \<^verbatim>\<open>parseValue\<close> and their loops
  spend one unit of fuel per call.  \<open>parse_fuel\<close> units are enough for every text
  (\<open>parse_fuel_stable\<close>): more fuel never changes a result, so \<open>None\<close> means a loop of the
  code that does not end, and the only such loop is the one in \<^verbatim>\<open>parseString\<close>.

  \<^verbatim>\<open>float\<close> and \<^verbatim>\<open>double\<close> arithmetic, \<^verbatim>\<open>pow\<close> included, is a parameter \<open>F\<close>.
\<close>

subsection \<open>Floating-point arithmetic\<close>

record ('f, 'd) fp_ops =
  f_of_int :: "int \<Rightarrow> 'f"            \<comment> \<open>\<^verbatim>\<open>int\<close> to \<^verbatim>\<open>float\<close>\<close>
  f_add :: "'f \<Rightarrow> 'f \<Rightarrow> 'f"
  f_mul :: "'f \<Rightarrow> 'f \<Rightarrow> 'f"
  f_div :: "'f \<Rightarrow> 'f \<Rightarrow> 'f"
  f_of_d :: "'d \<Rightarrow> 'f"               \<comment> \<open>narrowing conversion\<close>
  d_of_f :: "'f \<Rightarrow> 'd"               \<comment> \<open>widening conversion\<close>
  d_of_int :: "int \<Rightarrow> 'd"
  d_add :: "'d \<Rightarrow> 'd \<Rightarrow> 'd"
  d_mul :: "'d \<Rightarrow> 'd \<Rightarrow> 'd"
  d_div :: "'d \<Rightarrow> 'd \<Rightarrow> 'd"
  d_pow10 :: "'d \<Rightarrow> 'd"              \<comment> \<open>\<^verbatim>\<open>std::pow(10, x)\<close>, computed in \<^verbatim>\<open>double\<close>\<close>

subsection \<open>Results of parsing functions\<close>

type_synonym 'a pres = "('a \<times> string) res option"

definition pret :: "'a \<Rightarrow> string \<Rightarrow> 'a pres" where
  "pret v s = Some (Inr (v, s))"

definition pthrow :: "fault \<Rightarrow> 'a pres" where
  "pthrow e = Some (Inl e)"

definition pbind :: "'a pres \<Rightarrow> ('a \<Rightarrow> string \<Rightarrow> 'b pres) \<Rightarrow> 'b pres" where
  "pbind m f = (case m of
     None \<Rightarrow> None
   | Some (Inl e) \<Rightarrow> Some (Inl e)
   | Some (Inr (v, s)) \<Rightarrow> f v s)"

text \<open>\<^verbatim>\<open>input.at(0)\<close>, and the continuation that uses the character.\<close>

definition at0 :: "string \<Rightarrow> (char \<Rightarrow> 'a pres) \<Rightarrow> 'a pres" where
  "at0 s k = (case s of [] \<Rightarrow> pthrow OutOfRange | c # _ \<Rightarrow> k c)"

lemma pbind_simps [simp, sv_simps]:
  "pbind None f = None"
  "pbind (pthrow e) f = pthrow e"
  "pbind (pret v s) f = f v s"
  by (simp_all add: pbind_def pret_def pthrow_def)

lemma at0_simps [simp, sv_simps]:
  "at0 [] k = pthrow OutOfRange"
  "at0 (c # s) k = k c"
  by (simp_all add: at0_def)

lemma pres_cases:
  obtains "m = None" | e where "m = pthrow e" | v s where "m = pret v s"
proof (cases m)
  case (Some r)
  then show ?thesis using that by (cases r) (auto simp: pret_def pthrow_def)
qed (rule that)

lemma pres_distinct [simp]:
  "pret v s \<noteq> pthrow e" "pthrow e \<noteq> pret v s"
  "pret v s \<noteq> None" "None \<noteq> pret v s" "pthrow e \<noteq> None" "None \<noteq> pthrow e"
  "pret v s = pret w t \<longleftrightarrow> v = w \<and> s = t"
  "pthrow e = pthrow d \<longleftrightarrow> e = d"
  by (auto simp: pret_def pthrow_def)

lemma pbind_pret_iff:
  "pbind m f = pret w t \<longleftrightarrow> (\<exists>v s. m = pret v s \<and> f v s = pret w t)"
  by (cases m rule: pres_cases) auto

lemma pbind_None_iff:
  "pbind m f = None \<longleftrightarrow> m = None \<or> (\<exists>v s. m = pret v s \<and> f v s = None)"
  by (cases m rule: pres_cases) auto

lemma at0_pret_iff: "at0 s k = pret v t \<longleftrightarrow> (\<exists>c u. s = c # u \<and> k c = pret v t)"
  by (cases s) auto

lemma at0_None_iff: "at0 s k = None \<longleftrightarrow> (\<exists>c u. s = c # u \<and> k c = None)"
  by (cases s) auto

lemma pbind_cong:
  "m = m' \<Longrightarrow> (\<And>v s. m' = pret v s \<Longrightarrow> f v s = g v s) \<Longrightarrow> pbind m f = pbind m' g"
  by (cases m' rule: pres_cases) auto

lemma at0_cong:
  "s = t \<Longrightarrow> (\<And>c u. t = c # u \<Longrightarrow> k c = l c) \<Longrightarrow> at0 s k = at0 t l"
  by (cases t) auto

subsection \<open>White space\<close>

fun removeWhitespace :: "string \<Rightarrow> string" where
  "removeWhitespace [] = []"
| "removeWhitespace (c # s) = (if isspace c then removeWhitespace s else c # s)"

lemma removeWhitespace_dropWhile: "removeWhitespace s = dropWhile isspace s"
  by (induction s) auto

lemma suffix_removeWhitespace: "suffix (removeWhitespace s) s"
  by (simp add: removeWhitespace_dropWhile suffix_dropWhile)

lemma length_removeWhitespace: "length (removeWhitespace s) \<le> length s"
  by (rule length_suffix [OF suffix_removeWhitespace])

lemma removeWhitespace_idem [simp]: "removeWhitespace (removeWhitespace s) = removeWhitespace s"
  by (induction s) auto

lemma removeWhitespace_append:
  "\<forall>c \<in> set ws. isspace c \<Longrightarrow> removeWhitespace (ws @ s) = removeWhitespace s"
  by (induction ws) auto

subsection \<open>Strings\<close>

text \<open>
  The search for the closing quote, on the view behind the opening one.  The result of
  \<^verbatim>\<open>find_first_of\<close> is narrowed to the \<^verbatim>\<open>int\<close> \<open>size\<close> (\<open>-1\<close> is \<^verbatim>\<open>npos\<close>).  After a quote
  that follows a backslash the search goes on \<^emph>\<open>at\<close> that quote, not behind it.
\<close>

partial_function (option) scanQuote :: "string \<Rightarrow> int \<Rightarrow> int res option" where
  "scanQuote s continueIndex =
     (let sz = (case find_char s quote (size_of_int continueIndex) of
                    None \<Rightarrow> -1 | Some i \<Rightarrow> int_of_size i)
      in if sz \<noteq> -1 then
           (if sz = 0 then Some (Inr sz)
            else (case sv_at s (size_of_int (sz - 1)) of
                    Inl e \<Rightarrow> Some (Inl e)
                  | Inr c \<Rightarrow> if c = backslash then scanQuote s sz else Some (Inr sz)))
         else Some (Inr sz))"

definition parseString :: "string \<Rightarrow> ('f, 'd) variant pres" where
  "parseString input =
     (let input = removeWhitespace input in
      at0 input (\<lambda>c.
        if c = quote then
          (let input = drop 1 input in
           case scanQuote input 0 of
             None \<Rightarrow> None
           | Some (Inl e) \<Rightarrow> pthrow e
           | Some (Inr sz) \<Rightarrow>
               if sz = -1 then pret default_variant input
               else if sz < 0 then pthrow LengthError
               else (case bindR (int_succ sz) (\<lambda>n. remove_prefix (size_of_int n) input) of
                       Inl e \<Rightarrow> pthrow e
                     | Inr rest \<Rightarrow>
                         pret (variant_of (AString (take (nat sz) input)))
                              (removeWhitespace rest)))
        else pret default_variant input))"

subsection \<open>Numbers\<close>

text \<open>
  \<open>val += (input.at(0) - '0') * pow(10, strLength - i - 1)\<close> and its counterpart behind the
  decimal point: the product and the sum are computed in \<^verbatim>\<open>double\<close>, the sum is stored in a
  \<^verbatim>\<open>float\<close>.
\<close>

definition add_digit :: "('f, 'd) fp_ops \<Rightarrow> int \<Rightarrow> 'f \<Rightarrow> char \<Rightarrow> 'f" where
  "add_digit F e val c =
     f_of_d F (d_add F (d_of_f F val)
       (d_mul F (d_of_int F (digit_val c)) (d_pow10 F (d_of_int F e))))"

definition add_fraction :: "('f, 'd) fp_ops \<Rightarrow> int \<Rightarrow> 'f \<Rightarrow> char \<Rightarrow> 'f" where
  "add_fraction F e val c =
     f_of_d F (d_add F (d_of_f F val)
       (d_div F (d_of_int F (digit_val c)) (d_pow10 F (d_of_int F e))))"

fun parseInt_loop :: "('f, 'd) fp_ops \<Rightarrow> nat \<Rightarrow> nat \<Rightarrow> 'f \<Rightarrow> string \<Rightarrow> 'f pres" where
  "parseInt_loop F strLength i val [] = pthrow OutOfRange"
| "parseInt_loop F strLength i val (c # s) =
     (if isdigit c
      then parseInt_loop F strLength (Suc i) (add_digit F (int strLength - int i - 1) val c) s
      else pret val (c # s))"

definition parseInt :: "('f, 'd) fp_ops \<Rightarrow> string \<Rightarrow> 'f pres" where
  "parseInt F input =
     (case scan_while isdigit input of
        Inl e \<Rightarrow> pthrow e
      | Inr strLength \<Rightarrow> parseInt_loop F strLength 0 (f_of_int F 0) input)"

fun parseAfterInt_loop :: "('f, 'd) fp_ops \<Rightarrow> nat \<Rightarrow> 'f \<Rightarrow> string \<Rightarrow> 'f pres" where
  "parseAfterInt_loop F i val [] = pthrow OutOfRange"
| "parseAfterInt_loop F i val (c # s) =
     (if isdigit c then parseAfterInt_loop F (Suc i) (add_fraction F (int i + 1) val c) s
      else pret val (c # s))"

definition parseAfterInt :: "('f, 'd) fp_ops \<Rightarrow> string \<Rightarrow> 'f pres" where
  "parseAfterInt F input = parseAfterInt_loop F 0 (f_of_int F 0) input"

text \<open>
  \<^verbatim>\<open>parseNumber\<close>, cut at its statements: the sign, the integer part, the early return of a
  number without fraction and exponent, the fraction, the exponent.  The early return
  does not apply \<open>coeff\<close>.
\<close>

definition parseExponent :: "('f, 'd) fp_ops \<Rightarrow> 'f \<Rightarrow> string \<Rightarrow> 'f pres" where
  "parseExponent F number input =
     at0 input (\<lambda>c.
       if c = CHR ''e'' \<or> c = CHR ''E'' then
         (let input = drop 1 input in
          at0 input (\<lambda>c.
            let coef = (if c = CHR ''-'' then - 1 else 1 :: int);
                input = (if c = CHR ''-'' then drop 1 input else input)
            in pbind (parseInt F input) (\<lambda>e input.
                 let val = f_of_d F (d_pow10 F (d_of_f F e))
                 in pret (if 1 = coef then f_mul F number val else f_div F number val) input)))
       else pret number input)"

definition parseFraction :: "('f, 'd) fp_ops \<Rightarrow> 'f \<Rightarrow> string \<Rightarrow> 'f pres" where
  "parseFraction F number input =
     at0 input (\<lambda>c.
       if c = CHR ''.'' then
         pbind (parseAfterInt F (drop 1 input)) (\<lambda>v input. pret (f_add F number v) input)
       else pret number input)"

definition parseIntegerPart :: "('f, 'd) fp_ops \<Rightarrow> string \<Rightarrow> 'f option pres" where
  "parseIntegerPart F input =
     at0 input (\<lambda>c.
       if c = CHR ''0'' then pret (Some (f_of_int F 0)) (drop 1 input)
       else if isdigit c then pbind (parseInt F input) (\<lambda>v input. pret (Some v) input)
       else pret None input)"

definition parseNumber_rest ::
  "('f, 'd) fp_ops \<Rightarrow> int \<Rightarrow> 'f \<Rightarrow> string \<Rightarrow> ('f, 'd) variant pres" where
  "parseNumber_rest F coeff number input =
     at0 input (\<lambda>c.
       if c \<noteq> CHR ''.'' \<and> c \<noteq> CHR ''e'' \<and> c \<noteq> CHR ''E'' then
         pret (variant_of (AFloat number)) (removeWhitespace input)
       else
         pbind (parseFraction F number input) (\<lambda>number input.
         pbind (parseExponent F number input) (\<lambda>number input.
           pret (variant_of (AFloat (f_mul F number (f_of_int F coeff)))) input)))"

definition parseNumber :: "('f, 'd) fp_ops \<Rightarrow> string \<Rightarrow> ('f, 'd) variant pres" where
  "parseNumber F input =
     (let input = removeWhitespace input in
      at0 input (\<lambda>c.
        let coeff = (if c = CHR ''-'' then - 1 else 1 :: int);
            input = (if c = CHR ''-'' then drop 1 input else input)
        in pbind (parseIntegerPart F input) (\<lambda>r input.
          case r of
            None \<Rightarrow> pret default_variant input
          | Some number \<Rightarrow> parseNumber_rest F coeff number input)))"

subsection \<open>Literals\<close>

definition parseLiteral :: "string \<Rightarrow> ('f, 'd) variant pres" where
  "parseLiteral input =
     (let input = removeWhitespace input in
      at0 input (\<lambda>c.
        if \<not> isalpha c then pret default_variant input
        else (case scan_while isalpha input of
                Inl e \<Rightarrow> pthrow e
              | Inr sz \<Rightarrow>
                  let val = take sz input;
                      output = (if val = ''true'' then variant_of (ABool True)
                                else if val = ''false'' then variant_of (ABool False)
                                else if val = ''null'' then variant_of ANull
                                else default_variant)
                  in pret output (removeWhitespace (drop sz input)))))"

subsection \<open>Objects, arrays and values\<close>

function parseObject :: "('f, 'd) fp_ops \<Rightarrow> nat \<Rightarrow> string \<Rightarrow> ('f, 'd) variant_map pres"
  and objectLoop :: "('f, 'd) fp_ops \<Rightarrow> nat \<Rightarrow> ('f, 'd) variant_map \<Rightarrow> string
         \<Rightarrow> ('f, 'd) variant_map pres"
  and parseArray :: "('f, 'd) fp_ops \<Rightarrow> nat \<Rightarrow> string \<Rightarrow> ('f, 'd) variant_list pres"
  and arrayLoop :: "('f, 'd) fp_ops \<Rightarrow> nat \<Rightarrow> ('f, 'd) variant_list \<Rightarrow> string
         \<Rightarrow> ('f, 'd) variant_list pres"
  and parseValue :: "('f, 'd) fp_ops \<Rightarrow> nat \<Rightarrow> string \<Rightarrow> ('f, 'd) variant pres" where
  "parseObject F 0 input = None"
| "parseObject F (Suc n) input =
     (let input = removeWhitespace input in
      at0 input (\<lambda>c.
        if c = CHR ''{'' then
          (let input = removeWhitespace (drop 1 input) in
           at0 input (\<lambda>c.
             if c = CHR ''}'' then pret [] (drop 1 input)
             else if c \<noteq> quote then pret [] input
             else objectLoop F n [] input))
        else pret [] input))"
| "objectLoop F 0 object input = None"
| "objectLoop F (Suc n) object input =
     at0 input (\<lambda>c.
       if c \<noteq> CHR ''}'' then
         (if c = quote then
            pbind (parseString input :: ('f, 'd) variant pres) (\<lambda>key input.
              if \<not> isValid key then pret [] input
              else
                let input = removeWhitespace input in
                at0 input (\<lambda>c.
                  if c \<noteq> CHR '':'' then pret [] input
                  else
                    pbind (parseValue F n (removeWhitespace (drop 1 input))) (\<lambda>value input.
                      case toString key of
                        Inl e \<Rightarrow> pthrow e
                      | Inr k \<Rightarrow> objectLoop F n (map_set object k value) (removeWhitespace input))))
          else if c = CHR '','' then objectLoop F n object (removeWhitespace (drop 1 input))
          else pret [] input)
       else pret object (removeWhitespace (drop 1 input)))"
| "parseArray F 0 input = None"
| "parseArray F (Suc n) input =
     (let input = removeWhitespace input in
      at0 input (\<lambda>c.
        if c = CHR ''['' then arrayLoop F n [] (drop 1 input) else pret [] input))"
| "arrayLoop F 0 array input = None"
| "arrayLoop F (Suc n) array input =
     at0 input (\<lambda>c.
       if c \<noteq> CHR '']'' then
         pbind (parseValue F n (removeWhitespace input)) (\<lambda>element input.
           if isValid element then
             at0 input (\<lambda>c.
               let input = (if c = CHR '','' then drop 1 input else input)
               in arrayLoop F n (array @ [element]) (removeWhitespace input))
           else pret [] input)
       else pret array (removeWhitespace (drop 1 input)))"
| "parseValue F 0 input = None"
| "parseValue F (Suc n) input =
     (let input = removeWhitespace input in
      at0 input (\<lambda>c.
        pbind
          (if c = quote then parseString input
           else if isdigit c \<or> c = CHR ''-'' then parseNumber F input
           else if c = CHR ''{'' then
             pbind (parseObject F n input) (\<lambda>m input. pret (variant_of (AMap m)) input)
           else if c = CHR ''['' then
             pbind (parseArray F n input) (\<lambda>l input. pret (variant_of (AList l)) input)
           else parseLiteral input)
          (\<lambda>val input. pret val (removeWhitespace input))))"
  by pat_completeness auto
termination
  by (relation "measure (\<lambda>x. case x of
        Inl (Inl (F, n, s)) \<Rightarrow> n | Inl (Inr (F, n, m, s)) \<Rightarrow> n
      | Inr (Inl (F, n, s)) \<Rightarrow> n | Inr (Inr (Inl (F, n, l, s))) \<Rightarrow> n
      | Inr (Inr (Inr (F, n, s))) \<Rightarrow> n)") auto

definition parse_fuel :: "string \<Rightarrow> nat" where
  "parse_fuel s = 3 * length s + 4"

text \<open>The value of a call, without the view it leaves behind.\<close>

definition presult :: "'a pres \<Rightarrow> 'a res option" where
  "presult m = map_option (\<lambda>r. bindR r (\<lambda>p. Inr (fst p))) m"

lemma presult_simps [simp]:
  "presult None = None"
  "presult (pthrow e) = Some (Inl e)"
  "presult (pret v s) = Some (Inr v)"
  by (simp_all add: presult_def pthrow_def pret_def)

definition parse :: "('f, 'd) fp_ops \<Rightarrow> string \<Rightarrow> ('f, 'd) variant res option" where
  "parse F input =
     (let input = removeWhitespace input;
          finish = (\<lambda>content input.
            if removeWhitespace input \<noteq> [] then pret default_variant input
            else pret content input)
      in presult
        (at0 input (\<lambda>c.
          if c = CHR ''{'' then
            pbind (parseObject F (parse_fuel input) input) (\<lambda>m. finish (variant_of (AMap m)))
          else if c = CHR ''['' then
            pbind (parseArray F (parse_fuel input) input) (\<lambda>l. finish (variant_of (AList l)))
          else pret default_variant input)))"

declare parseObject.simps [simp del] objectLoop.simps [simp del] parseArray.simps [simp del]
  arrayLoop.simps [simp del] parseValue.simps [simp del]

end
