(* ===== verification/JsonParserFacts.thy ===== *)
theory JsonParserFacts
  imports JsonParser
begin

text \<open>
  What holds of the JSON parser on every text: what a call leaves behind is a suffix of
  what it was given and a valid value costs at least one character; with \<open>parse_fuel\<close> fuel
  the result does not depend on the fuel; the call returns on every text without an
  escaped quote, and does not return on a key or string that holds one; the values it
  builds satisfy the class invariant of \<^verbatim>\<open>variant\<close>.

  \<open>wpp m Q\<close> is the weakest precondition of a parsing call: it says of \<open>m\<close> that whatever it
  returns satisfies \<open>Q\<close>; \<open>wpt m Q\<close> says in addition that \<open>m\<close> returns or throws.
\<close>

named_theorems wpp_simps "weakest preconditions of parsing calls"

definition wpp :: "'a pres \<Rightarrow> ('a \<Rightarrow> string \<Rightarrow> bool) \<Rightarrow> bool" where
  "wpp m Q \<longleftrightarrow> (\<forall>v t. m = pret v t \<longrightarrow> Q v t)"

definition wpt :: "'a pres \<Rightarrow> ('a \<Rightarrow> string \<Rightarrow> bool) \<Rightarrow> bool" where
  "wpt m Q \<longleftrightarrow> m \<noteq> None \<and> wpp m Q"

lemma wpp_basic [simp, wpp_simps]:
  "wpp (pret v t) Q \<longleftrightarrow> Q v t"
  "wpp (pthrow e) Q"
  "wpp None Q"
  "wpt (pret v t) Q \<longleftrightarrow> Q v t"
  "wpt (pthrow e) Q"
  "\<not> wpt None Q"
  by (simp_all add: wpp_def wpt_def)

lemma wpp_bind [simp, wpp_simps]:
  "wpp (pbind m f) Q \<longleftrightarrow> wpp m (\<lambda>v t. wpp (f v t) Q)"
  by (cases m rule: pres_cases) simp_all

lemma wpt_bind [simp, wpp_simps]:
  "wpt (pbind m f) Q \<longleftrightarrow> wpt m (\<lambda>v t. wpt (f v t) Q)"
  by (cases m rule: pres_cases) simp_all

lemma wpp_at0 [wpp_simps]: "wpp (at0 s k) Q \<longleftrightarrow> (\<forall>c u. s = c # u \<longrightarrow> wpp (k c) Q)"
  by (cases s) simp_all

lemma wpt_at0 [wpp_simps]: "wpt (at0 s k) Q \<longleftrightarrow> (\<forall>c u. s = c # u \<longrightarrow> wpt (k c) Q)"
  by (cases s) simp_all

lemma wpp_if [wpp_simps]: "wpp (if b then m else m') Q \<longleftrightarrow> (b \<longrightarrow> wpp m Q) \<and> (\<not> b \<longrightarrow> wpp m' Q)"
  by simp

lemma wpt_if [wpp_simps]: "wpt (if b then m else m') Q \<longleftrightarrow> (b \<longrightarrow> wpt m Q) \<and> (\<not> b \<longrightarrow> wpt m' Q)"
  by simp

lemma wpp_mono: "wpp m Q \<Longrightarrow> (\<And>v t. Q v t \<Longrightarrow> R v t) \<Longrightarrow> wpp m R"
  by (auto simp: wpp_def)

lemma wpt_mono: "wpt m Q \<Longrightarrow> (\<And>v t. Q v t \<Longrightarrow> R v t) \<Longrightarrow> wpt m R"
  by (auto simp: wpt_def wpp_def)

lemma wppD: "wpp m Q \<Longrightarrow> m = pret v t \<Longrightarrow> Q v t"
  by (auto simp: wpp_def)

lemma wpp_conj: "wpp m Q \<Longrightarrow> wpp m R \<Longrightarrow> wpp m (\<lambda>v t. Q v t \<and> R v t)"
  by (auto simp: wpp_def)

lemma wpt_conj: "wpt m Q \<Longrightarrow> wpp m R \<Longrightarrow> wpt m (\<lambda>v t. Q v t \<and> R v t)"
  by (auto simp: wpt_def wpp_def)

subsection \<open>Suffixes and progress\<close>

lemma suffix_rw_trans [intro]: "suffix s t \<Longrightarrow> suffix (removeWhitespace s) t"
  using suffix_removeWhitespace suffix_order.trans by blast

lemma suffix_rwD: "suffix s (removeWhitespace t) \<Longrightarrow> suffix s t"
  using suffix_removeWhitespace suffix_order.trans by blast

lemma suffix_rw_Cons: "removeWhitespace s = c # u \<Longrightarrow> suffix (c # u) s"
  by (metis suffix_removeWhitespace)

lemma suffix_rw_tail: "removeWhitespace s = c # u \<Longrightarrow> suffix u s"
  by (meson suffix_ConsD suffix_rw_Cons)

lemma rw_ConsD: "removeWhitespace s = c # u \<Longrightarrow> \<not> isspace c \<and> removeWhitespace (c # u) = c # u"
  by (induction s) (auto split: if_splits)

definition shrinks :: "string \<Rightarrow> bool \<Rightarrow> string \<Rightarrow> bool" where
  "shrinks s b t \<longleftrightarrow> suffix t s \<and> (b \<longrightarrow> length t < length s)"

lemma shrinksI_tail: "removeWhitespace s = c # u \<Longrightarrow> suffix t u \<Longrightarrow> shrinks s b t"
  unfolding shrinks_def
  by (metis impossible_Cons length_suffix linorder_not_le order_trans suffix_order.trans
      suffix_rw_Cons suffix_rw_tail)

lemma shrinks_False: "suffix t s \<Longrightarrow> shrinks s False t"
  by (simp add: shrinks_def)

lemma shrinks_then_suffix: "shrinks s b t \<Longrightarrow> suffix u t \<Longrightarrow> shrinks s b u"
  unfolding shrinks_def by (meson length_suffix order.strict_trans1 suffix_order.trans)

lemma suffix_then_shrinks: "suffix t s \<Longrightarrow> shrinks t b u \<Longrightarrow> shrinks s b u"
  unfolding shrinks_def by (meson length_suffix order.strict_trans2 suffix_order.trans)

lemma parseString_shrinks:
  "wpp (parseString s :: ('f, 'd) variant pres) (\<lambda>v t. shrinks s (isValid v) t)"
proof (cases "removeWhitespace s")
  case Nil
  then show ?thesis by (simp add: parseString_def)
next
  case (Cons c u)
  have "shrinks s b (removeWhitespace (drop n u))" for b n
    using Cons by (rule shrinksI_tail) (auto intro: suffix_drop)
  moreover have "shrinks s b u" for b
    using Cons by (rule shrinksI_tail) simp
  moreover have "shrinks s False (c # u)"
    by (simp add: Cons suffix_rw_Cons shrinks_False)
  ultimately show ?thesis
    using Cons
    by (auto simp: parseString_def Let_def remove_prefix_def res_simps
        split: option.splits sum.splits if_splits)
qed

lemma parseInt_loop_suffix: "wpp (parseInt_loop F L i val s) (\<lambda>v t. suffix t s)"
  by (induction F L i val s rule: parseInt_loop.induct)
     (auto simp: wpp_def suffix_Cons)

lemma parseInt_suffix: "wpp (parseInt F s) (\<lambda>v t. suffix t s)"
  using parseInt_loop_suffix by (auto simp: parseInt_def split: sum.splits)

lemma parseAfterInt_loop_suffix: "wpp (parseAfterInt_loop F i val s) (\<lambda>v t. suffix t s)"
  by (induction F i val s rule: parseAfterInt_loop.induct) (auto simp: wpp_def suffix_Cons)

lemma parseAfterInt_suffix: "wpp (parseAfterInt F s) (\<lambda>v t. suffix t s)"
  unfolding parseAfterInt_def by (rule parseAfterInt_loop_suffix)

lemma wpp_suffix_of: "wpp m (\<lambda>v t. suffix t u) \<Longrightarrow> suffix u s \<Longrightarrow> wpp m (\<lambda>v t. suffix t s)"
  by (erule wpp_mono) (rule suffix_order.trans)

lemma parseExponent_suffix: "wpp (parseExponent F x s) (\<lambda>v t. suffix t s)"
proof -
  have "wpp (parseInt F t) (\<lambda>v t'. suffix t' s)" if "suffix t s" for t
    using parseInt_suffix that by (rule wpp_suffix_of)
  moreover have "suffix u s" if "s = c # d # u" for c d u
    using that by (simp add: suffix_Cons)
  ultimately show ?thesis
    by (auto simp: parseExponent_def Let_def wpp_simps suffix_Cons)
qed

lemma parseFraction_suffix: "wpp (parseFraction F x s) (\<lambda>v t. suffix t s)"
  by (auto simp: parseFraction_def wpp_simps suffix_Cons
      intro: wpp_mono [OF parseAfterInt_suffix])

lemma parseInt_digit: "isdigit c \<Longrightarrow> wpp (parseInt F (c # s)) (\<lambda>v t. suffix t s)"
  using parseInt_loop_suffix by (auto simp: parseInt_def split: sum.splits)

lemma parseIntegerPart_shrinks:
  "wpp (parseIntegerPart F s) (\<lambda>r t. shrinks s (r \<noteq> None) t)"
proof (cases s)
  case (Cons c u)
  have "wpp (parseInt F (c # u)) (\<lambda>v t. shrinks s True t)" if "isdigit c"
    using parseInt_digit [OF that]
    by (rule wpp_mono) (use Cons in \<open>auto simp: shrinks_def suffix_Cons dest: length_suffix\<close>)
  with Cons show ?thesis by (auto simp: parseIntegerPart_def shrinks_def suffix_Cons)
qed (simp add: parseIntegerPart_def)

lemma parseNumber_rest_shrinks:
  assumes "shrinks s True t"
  shows "wpp (parseNumber_rest F k x t) (\<lambda>v u. shrinks s True u)"
proof -
  have "wpp (parseFraction F x t) (\<lambda>v t'. wpp (parseExponent F v t') (\<lambda>v u. shrinks s True u))"
    using assms
    by (intro wpp_mono [OF parseFraction_suffix] wpp_mono [OF parseExponent_suffix])
      (meson shrinks_then_suffix)
  with shrinks_then_suffix [OF assms suffix_removeWhitespace] show ?thesis
    by (auto simp: parseNumber_rest_def wpp_simps simp del: removeWhitespace.simps)
qed

lemma parseNumber_shrinks: "wpp (parseNumber F s) (\<lambda>v t. shrinks s (isValid v) t)"
proof (cases "removeWhitespace s")
  case (Cons c u)
  define w where "w = (if c = CHR ''-'' then drop 1 (c # u) else c # u)"
  have "suffix w s"
    using suffix_rw_tail [OF Cons] suffix_rw_Cons [OF Cons] by (simp add: w_def)
  then have "wpp (parseIntegerPart F w) (\<lambda>r t. shrinks s (r \<noteq> None) t)"
    by (intro wpp_mono [OF parseIntegerPart_shrinks]) (rule suffix_then_shrinks)
  then have "wpp (parseIntegerPart F w) (\<lambda>r t. wpp (case r of None \<Rightarrow> pret default_variant t
      | Some x \<Rightarrow> parseNumber_rest F k x t) (\<lambda>v t. shrinks s (isValid v) t))" for k
    by (rule wpp_mono)
      (auto split: option.splits simp: shrinks_def [of s False]
        intro: wpp_mono [OF parseNumber_rest_shrinks] simp: shrinks_def)
  from this [of "- 1"] this [of 1] Cons show ?thesis
    by (cases "c = CHR ''-''") (simp_all add: parseNumber_def Let_def w_def)
qed (simp add: parseNumber_def)

lemma parseLiteral_shrinks:
  "wpp (parseLiteral s :: ('f, 'd) variant pres) (\<lambda>v t. shrinks s (isValid v) t)"
proof (cases "removeWhitespace s")
  case Nil
  then show ?thesis by (simp add: parseLiteral_def)
next
  case (Cons c u)
  have "shrinks s b (removeWhitespace (drop (Suc n) (c # u)))" for b n
    using Cons by (rule shrinksI_tail) (auto intro: suffix_drop)
  moreover have "shrinks s False (c # u)"
    by (simp add: Cons suffix_rw_Cons shrinks_False)
  ultimately show ?thesis
    using Cons
    by (auto simp: parseLiteral_def Let_def res_simps split: sum.splits if_splits)
qed

subsection \<open>Enough fuel\<close>

lemma suffix_drop1: "suffix (drop 1 s) s"
  by (rule suffix_drop)

lemmas loop_unfold = parseObject.simps objectLoop.simps parseArray.simps arrayLoop.simps
  parseValue.simps

text \<open>The two loop bodies behind a key and behind an element, named.\<close>

definition objectEntry ::
  "('f, 'd) fp_ops \<Rightarrow> nat \<Rightarrow> ('f, 'd) variant_map \<Rightarrow> ('f, 'd) variant \<Rightarrow> string
     \<Rightarrow> ('f, 'd) variant_map pres" where
  "objectEntry F n m key input =
     (if \<not> isValid key then pret [] input
      else at0 (removeWhitespace input) (\<lambda>c.
        if c \<noteq> CHR '':'' then pret [] (removeWhitespace input)
        else
          pbind (parseValue F n (removeWhitespace (drop 1 (removeWhitespace input)))) (\<lambda>v t.
            case toString key of
              Inl e \<Rightarrow> pthrow e
            | Inr k \<Rightarrow> objectLoop F n (map_set m k v) (removeWhitespace t))))"

definition arrayEntry ::
  "('f, 'd) fp_ops \<Rightarrow> nat \<Rightarrow> ('f, 'd) variant_list \<Rightarrow> ('f, 'd) variant \<Rightarrow> string
     \<Rightarrow> ('f, 'd) variant_list pres" where
  "arrayEntry F n l v t =
     (if isValid v then at0 t (\<lambda>c.
        arrayLoop F n (l @ [v]) (removeWhitespace (if c = CHR '','' then drop 1 t else t)))
      else pret [] t)"

lemma objectLoop_Suc:
  "objectLoop F (Suc n) m s =
     at0 s (\<lambda>c.
       if c = CHR ''}'' then pret m (removeWhitespace (drop 1 s))
       else if c = quote then pbind (parseString s) (objectEntry F n m)
       else if c = CHR '','' then objectLoop F n m (removeWhitespace (drop 1 s))
       else pret [] s)"
  unfolding objectLoop.simps Let_def objectEntry_def [abs_def] by (cases s) simp_all

lemma arrayLoop_Suc:
  "arrayLoop F (Suc n) l s =
     at0 s (\<lambda>c.
       if c = CHR '']'' then pret l (removeWhitespace (drop 1 s))
       else pbind (parseValue F n (removeWhitespace s)) (arrayEntry F n l))"
  unfolding arrayLoop.simps Let_def arrayEntry_def [abs_def] by (cases s) simp_all

lemma objectEntry_suffix:
  fixes F :: "('f, 'd) fp_ops"
  assumes "\<And>s. wpp (parseValue F n s) (\<lambda>v t. suffix t s)"
    and "\<And>m s. wpp (objectLoop F n m s) (\<lambda>v t. suffix t s)"
  shows "wpp (objectEntry F n m key s) (\<lambda>v t. suffix t s)"
proof -
  have "wpp (parseValue F n (removeWhitespace w)) (\<lambda>v t. wpp (case toString key of
      Inl e \<Rightarrow> pthrow e
    | Inr k \<Rightarrow> objectLoop F n (map_set m k v) (removeWhitespace t)) (\<lambda>v t. suffix t s))"
    if "suffix w s" for w
    using that
    by (intro wpp_mono [OF assms(1)])
      (auto split: sum.split intro!: wpp_mono [OF assms(2)] dest!: suffix_rwD
        intro: suffix_order.trans)
  then show ?thesis
    by (auto simp: objectEntry_def wpp_at0 wpp_if dest: suffix_rw_Cons suffix_rw_tail)
qed

lemma arrayEntry_suffix:
  assumes "\<And>l s. wpp (arrayLoop F n l s) (\<lambda>v t. suffix t s)"
  shows "wpp (arrayEntry F n l v s) (\<lambda>v t. suffix t s)"
  by (auto simp: arrayEntry_def wpp_at0 suffix_Cons simp del: removeWhitespace.simps
      intro!: wpp_mono [OF assms] dest!: suffix_rwD)

lemma parse_shrinks:
  fixes F :: "('f, 'd) fp_ops"
  shows "wpp (parseObject F n s) (\<lambda>v t. suffix t s \<and> (hd (removeWhitespace s) = CHR ''{'' \<longrightarrow> length t < length s))"
  "wpp (objectLoop F n m s) (\<lambda>v t. suffix t s)"
  "wpp (parseArray F n s) (\<lambda>v t. suffix t s \<and> (hd (removeWhitespace s) = CHR ''['' \<longrightarrow> length t < length s))"
  "wpp (arrayLoop F n l s) (\<lambda>v t. suffix t s)"
  "wpp (parseValue F n s) (\<lambda>v t. shrinks s (isValid v) t)"
proof (induction n arbitrary: s m l)
  case 0
  { case 1 show ?case by (simp add: loop_unfold) next
    case 2 show ?case by (simp add: loop_unfold) next
    case 3 show ?case by (simp add: loop_unfold) next
    case 4 show ?case by (simp add: loop_unfold) next
    case 5 show ?case by (simp add: loop_unfold) }
next
  case (Suc n)
  {
    case 1
    show ?case
    proof (cases "removeWhitespace s")
      case (Cons c u)
      have s: "shrinks s True t" if "suffix t u" for t
        using Cons that by (rule shrinksI_tail)
      have "wpp (objectLoop F n [] (removeWhitespace u)) (\<lambda>v t. shrinks s True t)"
        by (rule wpp_mono [OF Suc.IH(2)]) (auto intro: s suffix_order.trans)
      moreover have "shrinks s True (removeWhitespace u)" "shrinks s True (drop 1 (removeWhitespace u))"
        by (auto intro!: s intro: suffix_drop_trans suffix_removeWhitespace)
      ultimately show ?thesis
        using suffix_rw_Cons [OF Cons]
        by (auto simp: parseObject.simps Cons Let_def wpp_simps shrinks_def
            intro: wpp_mono split: if_splits)
    qed (simp add: parseObject.simps)
  next
    case 2
    have v: "wpp (parseValue F n t) (\<lambda>v u. suffix u t)" for t
      by (rule wpp_mono [OF Suc.IH(5)]) (simp add: shrinks_def)
    have "wpp (parseString s) (\<lambda>key t. wpp (objectEntry F n m key t) (\<lambda>v u. suffix u s))"
      by (intro wpp_mono [OF parseString_shrinks] wpp_mono [OF objectEntry_suffix [OF v Suc.IH(2)]])
        (auto simp: shrinks_def intro: suffix_order.trans)
    moreover have "suffix (removeWhitespace (drop 1 s)) s"
      by (meson suffix_drop suffix_rw_trans)
    ultimately show ?case
      by (auto simp: objectLoop_Suc wpp_at0 intro: wpp_mono [OF Suc.IH(2)] suffix_order.trans
          simp del: drop_Suc_Cons removeWhitespace.simps)
  next
    case 3
    show ?case
    proof (cases "removeWhitespace s")
      case (Cons c u)
      have s: "shrinks s True t" if "suffix t u" for t
        using Cons that by (rule shrinksI_tail)
      have "wpp (arrayLoop F n [] u) (\<lambda>v t. shrinks s True t)"
        by (rule wpp_mono [OF Suc.IH(4)]) (rule s)
      then show ?thesis
        using suffix_rw_Cons [OF Cons]
        by (auto simp: parseArray.simps Cons Let_def wpp_simps shrinks_def
            intro: wpp_mono split: if_splits)
    qed (simp add: parseArray.simps)
  next
    case 4
    have "wpp (parseValue F n (removeWhitespace s))
        (\<lambda>v t. wpp (arrayEntry F n l v t) (\<lambda>v u. suffix u s))"
      by (intro wpp_mono [OF Suc.IH(5)] wpp_mono [OF arrayEntry_suffix [OF Suc.IH(4)]])
        (auto simp: shrinks_def intro: suffix_order.trans)
    moreover have "suffix (removeWhitespace (drop 1 s)) s"
      by (meson suffix_drop suffix_rw_trans)
    ultimately show ?case
      by (auto simp: arrayLoop_Suc wpp_at0 simp del: drop_Suc_Cons removeWhitespace.simps)
  next
    case 5
    show ?case
    proof (cases "removeWhitespace s")
      case (Cons c u)
      let ?w = "c # u"
      have w: "suffix ?w s" "removeWhitespace ?w = ?w"
        using Cons suffix_rw_Cons rw_ConsD by blast+
      have fin: "wpp m (\<lambda>v t. shrinks s (isValid v) (removeWhitespace t))"
        if "wpp m (\<lambda>v t. shrinks ?w (isValid v) t)" for m :: "('f, 'd) variant pres"
        using that by (rule wpp_mono)
          (meson shrinks_then_suffix suffix_removeWhitespace suffix_then_shrinks w(1))
      have obj: "c = CHR ''{'' \<Longrightarrow> wpp (parseObject F n ?w) (\<lambda>v t. shrinks ?w True t)"
        by (rule wpp_mono [OF Suc.IH(1)]) (simp add: w shrinks_def)
      have arr: "c = CHR ''['' \<Longrightarrow> wpp (parseArray F n ?w) (\<lambda>v t. shrinks ?w True t)"
        by (rule wpp_mono [OF Suc.IH(3)]) (simp add: w shrinks_def)
      show ?thesis
        using fin [OF parseString_shrinks] fin [OF parseNumber_shrinks] fin [OF parseLiteral_shrinks]
          fin [of "pbind (parseObject F n ?w) (\<lambda>m input. pret (variant_of (AMap m)) input)"] obj
          fin [of "pbind (parseArray F n ?w) (\<lambda>l input. pret (variant_of (AList l)) input)"] arr
        by (simp add: parseValue.simps Cons Let_def) blast
    qed (simp add: parseValue.simps)
  }
qed


lemma length_rw_less: "length s < n \<Longrightarrow> length (removeWhitespace s) < n"
  using length_removeWhitespace order.strict_trans1 by blast

lemma shrinks_length: "shrinks s b t \<Longrightarrow> length t \<le> length s \<and> (b \<longrightarrow> length t < length s)"
  by (auto simp: shrinks_def dest: length_suffix)

lemma objectEntry_cong:
  fixes F :: "('f, 'd) fp_ops"
  assumes v: "\<And>w. length w < length t \<Longrightarrow> parseValue F n w = parseValue F k w"
    and o: "\<And>m w. length w < length t \<Longrightarrow> objectLoop F n m w = objectLoop F k m w"
  shows "objectEntry F n m key t = objectEntry F k m key t"
proof -
  have "(case toString key of Inl e \<Rightarrow> pthrow e
      | Inr l \<Rightarrow> objectLoop F n (map_set m l v) (removeWhitespace u)) =
    (case toString key of Inl e \<Rightarrow> pthrow e
      | Inr l \<Rightarrow> objectLoop F k (map_set m l v) (removeWhitespace u))"
    if "length w < length t" "parseValue F k w = pret v u" for w u v
  proof -
    have "length (removeWhitespace u) < length t"
      using shrinks_length [OF wppD [OF parse_shrinks(5) that(2)]] that(1)
        length_removeWhitespace [of u] by simp
    then show ?thesis by (simp add: o split: sum.splits)
  qed
  moreover have "length (removeWhitespace w) < length t" if "removeWhitespace t = c # w" for c w
    using length_removeWhitespace [of t] length_removeWhitespace [of w] that by simp
  ultimately show ?thesis
    unfolding objectEntry_def
    by (auto intro!: at0_cong pbind_cong v simp del: removeWhitespace.simps)
qed

lemma arrayEntry_cong:
  assumes "\<And>l w. length w \<le> length t \<Longrightarrow> isValid v \<Longrightarrow> arrayLoop F n l w = arrayLoop F k l w"
  shows "arrayEntry F n l v t = arrayEntry F k l v t"
proof -
  have "length (removeWhitespace (if b then drop 1 t else t)) \<le> length t" for b
    using length_removeWhitespace [of t] length_removeWhitespace [of "drop 1 t"] by auto
  then show ?thesis
    unfolding arrayEntry_def by (auto intro!: at0_cong assms simp del: drop_Suc_Cons)
qed

lemma fuel_step:
  fixes F :: "('f, 'd) fp_ops"
  shows "3 * length s + 1 \<le> n \<Longrightarrow> parseObject F (Suc n) s = parseObject F n s"
    and "3 * length s + 3 \<le> n \<Longrightarrow> objectLoop F (Suc n) m s = objectLoop F n m s"
    and "3 * length s + 1 \<le> n \<Longrightarrow> parseArray F (Suc n) s = parseArray F n s"
    and "3 * length s + 3 \<le> n \<Longrightarrow> arrayLoop F (Suc n) l s = arrayLoop F n l s"
    and "3 * length s + 2 \<le> n \<Longrightarrow> parseValue F (Suc n) s = parseValue F n s"
proof (induction n arbitrary: s m l)
  case 0
  { case 1 then show ?case by simp next
    case 2 then show ?case by simp next
    case 3 then show ?case by simp next
    case 4 then show ?case by simp next
    case 5 then show ?case by simp }
next
  case (Suc n)
  have rw: "length (removeWhitespace t) \<le> length t" for t
    by (rule length_removeWhitespace)
  {
    case 1
    show ?case
    proof (cases "removeWhitespace s")
      case (Cons c u)
      with rw [of s] rw [of u] 1 have "3 * length (removeWhitespace u) + 3 \<le> n" by simp
      from Suc.IH(2) [OF this] Cons show ?thesis
        by (auto simp: parseObject.simps Let_def intro!: at0_cong)
    qed (simp add: parseObject.simps)
  next
    case 2
    have comma: "objectLoop F (Suc n) m (removeWhitespace (drop 1 s)) =
        objectLoop F n m (removeWhitespace (drop 1 s))" if "s \<noteq> []"
      using rw [of "drop 1 s"] 2 that by (intro Suc.IH(2)) (cases s, auto)
    have "objectEntry F (Suc n) m key t = objectEntry F n m key t"
      if "parseString s = pret key t" for key t
      using shrinks_length [OF wppD [OF parseString_shrinks that]] 2
      by (intro objectEntry_cong Suc.IH) auto
    with comma show ?case
      unfolding objectLoop_Suc [of F "Suc n"] objectLoop_Suc [of F n]
      by (auto intro!: at0_cong pbind_cong)
  next
    case 3
    show ?case
    proof (cases "removeWhitespace s")
      case (Cons c u)
      with rw [of s] 3 have "3 * length u + 3 \<le> n" by simp
      from Suc.IH(4) [OF this] Cons show ?thesis
        by (simp add: parseArray.simps Let_def)
    qed (simp add: parseArray.simps)
  next
    case 4
    have "parseValue F (Suc n) (removeWhitespace s) = parseValue F n (removeWhitespace s)"
      using rw [of s] 4 by (intro Suc.IH(5)) simp
    moreover have "arrayEntry F (Suc n) l v t = arrayEntry F n l v t"
      if "parseValue F n (removeWhitespace s) = pret v t" for v t
      using shrinks_length [OF wppD [OF parse_shrinks(5) that]] rw [of s] 4
      by (intro arrayEntry_cong Suc.IH) auto
    ultimately show ?case
      unfolding arrayLoop_Suc [of F "Suc n"] arrayLoop_Suc [of F n]
      by (auto intro!: at0_cong pbind_cong)
  next
    case 5
    show ?case
    proof (cases "removeWhitespace s")
      case (Cons c u)
      have o: "parseObject F (Suc n) (c # u) = parseObject F n (c # u)"
        using rw [of s] Cons 5 by (intro Suc.IH(1)) simp
      have a: "parseArray F (Suc n) (c # u) = parseArray F n (c # u)"
        using rw [of s] Cons 5 by (intro Suc.IH(3)) simp
      from Cons o a show ?thesis
        by (auto simp: parseValue.simps Let_def)
    qed (simp add: parseValue.simps)
  }
qed
lemma fuel_stable:
  fixes F :: "('f, 'd) fp_ops"
  shows "3 * length s + 1 \<le> n \<Longrightarrow> parseObject F (n + k) s = parseObject F n s"
    and "3 * length s + 1 \<le> n \<Longrightarrow> parseArray F (n + k) s = parseArray F n s"
    and "3 * length s + 2 \<le> n \<Longrightarrow> parseValue F (n + k) s = parseValue F n s"
  by (induction k) (simp_all add: fuel_step)

subsection \<open>Which texts the parser returns on\<close>

text \<open>An escaped quote: a backslash right before a double quote.\<close>

abbreviation escaped :: "string \<Rightarrow> bool" where
  "escaped s \<equiv> sublist [backslash, quote] s"

lemma escaped_suffix: "suffix t s \<Longrightarrow> escaped t \<Longrightarrow> escaped s"
  by (meson suffix_imp_sublist sublist_order.order_trans)

lemma escaped_nth: "Suc i < length s \<Longrightarrow> s ! i = backslash \<Longrightarrow> s ! Suc i = quote \<Longrightarrow> escaped s"
proof -
  assume a: "Suc i < length s" "s ! i = backslash" "s ! Suc i = quote"
  then have "drop i s = [backslash, quote] @ drop (Suc (Suc i)) s"
    using Cons_nth_drop_Suc [of i s] Cons_nth_drop_Suc [of "Suc i" s] by simp
  then show ?thesis
    by (metis append_take_drop_id sublist_appendI)
qed

lemma scanQuote_first:
  assumes "index_of quote s = Some i" and "length s < 2147483648"
    and "i = 0 \<or> s ! (i - 1) \<noteq> backslash"
  shows "scanQuote s 0 = Some (Inr (int i))"
proof -
  have "i < length s" using index_of_SomeD [OF assms(1)] by simp
  with assms(2) have "int_of_size i = int i" "i > 0 \<Longrightarrow> size_of_int (int i - 1) = i - 1"
    "i > 0 \<Longrightarrow> sv_at s (i - 1) = Inr (s ! (i - 1))"
    by (simp_all add: nat_diff_distrib sv_at_def)
  with assms(1,3) show ?thesis
    by (auto simp: scanQuote.simps [of s 0] Let_def)
qed

lemma scanQuote_returns:
  assumes "\<not> escaped s" and "length s < 2147483648"
  shows "scanQuote s 0 =
    Some (Inr (case index_of quote s of None \<Rightarrow> -1 | Some i \<Rightarrow> int i))"
proof (cases "index_of quote s")
  case None
  then show ?thesis by (simp add: scanQuote.simps)
next
  case (Some i)
  then have "i < length s" "s ! i = quote" using index_of_SomeD by blast+
  with assms have "i = 0 \<or> s ! (i - 1) \<noteq> backslash"
    using escaped_nth [of "i - 1" s] by (cases i) auto
  from scanQuote_first [OF Some assms(2) this] Some show ?thesis by simp
qed

text \<open>
  A quote behind a backslash is found again and again: the search starts at the quote it
  has just rejected.
\<close>

lemma scanQuote_stuck:
  assumes "0 < i" "i < length s" "length s < 2147483648" "s ! i = quote" "s ! (i - 1) = backslash"
  shows "scanQuote s (int i) = None"
proof (rule ccontr)
  have here: "find_char s quote i = Some i" "sv_at s (i - 1) = Inr backslash"
    "size_of_int (int i) = i" "size_of_int (int i - 1) = i - 1" "int_of_size i = int i"
    using assms by (simp_all add: find_char_here sv_at_def nat_diff_distrib)
  assume "scanQuote s (int i) \<noteq> None"
  then obtain r where r: "scanQuote s (int i) = Some r" by blast
  have "\<not> (s = t \<and> c = int i)" if "scanQuote t c = Some r" for t c r
  proof (rule scanQuote.raw_induct [where P = "\<lambda>t c r. \<not> (s = t \<and> c = int i)", OF _ that])
    fix scan t c r
    assume IH: "\<And>t c r. scan t c = Some r \<Longrightarrow> \<not> (s = t \<and> c = int i)"
      and eq: "(let sz = (case find_char t quote (size_of_int c) of
                    None \<Rightarrow> -1 | Some i \<Rightarrow> int_of_size i)
      in if sz \<noteq> -1 then
           (if sz = 0 then Some (Inr sz)
            else (case sv_at t (size_of_int (sz - 1)) of
                    Inl e \<Rightarrow> Some (Inl e)
                  | Inr c \<Rightarrow> if c = backslash then scan t sz else Some (Inr sz)))
         else Some (Inr sz)) = Some r"
    show "\<not> (s = t \<and> c = int i)"
    proof
      assume "s = t \<and> c = int i"
      then have tc: "t = s" "c = int i" by simp_all
      from eq [unfolded tc here Let_def option.case sum.case] assms(1)
      have "scan s (int i) = Some r" by (simp add: here)
      with IH show False by blast
    qed
  qed
  with r show False by blast
qed

lemma parseString_stuck:
  assumes "quote \<notin> set xs" and "length (xs @ backslash # quote # ys) < 2147483648"
  shows "parseString (quote # xs @ backslash # quote # ys) = None"
proof -
  let ?t = "xs @ backslash # quote # ys"
  let ?i = "Suc (length xs)"
  have "index_of quote ?t = Some ?i"
    using index_of_append [of quote "xs @ [backslash]" ys] assms(1) by simp
  moreover have "sv_at ?t (length xs) = Inr backslash" by (simp add: sv_at_def)
  moreover have "scanQuote ?t (int ?i) = None"
    using assms(2) by (intro scanQuote_stuck) (simp_all add: nth_append)
  moreover have "size_of_int (int ?i - 1) = length xs" "int_of_size ?i = int ?i"
    using assms(2) by simp_all
  ultimately have "scanQuote ?t 0 = None"
    by (simp add: scanQuote.simps [of ?t 0] Let_def)
  then show ?thesis by (simp add: parseString_def Let_def)
qed

lemma wpt_iff: "wpt m Q \<longleftrightarrow> m \<noteq> None \<and> wpp m Q"
  by (simp add: wpt_def)

lemma parseString_returns:
  assumes "\<not> escaped s" and "length s < 2147483648"
  shows "(parseString s :: ('f, 'd) variant pres) \<noteq> None"
proof (cases "removeWhitespace s")
  case (Cons c u)
  then have "\<not> escaped u"
    using assms(1) escaped_suffix suffix_rw_tail by blast
  moreover have "length u < 2147483648"
    using length_removeWhitespace [of s] assms(2) Cons by simp
  ultimately show ?thesis
    using Cons scanQuote_returns [of u]
    by (auto simp: parseString_def Let_def pret_def pthrow_def split: sum.splits option.splits)
qed (simp add: parseString_def pthrow_def)

lemma parseInt_loop_returns: "parseInt_loop F L i v s \<noteq> None"
  by (induction F L i v s rule: parseInt_loop.induct) (auto simp: pret_def pthrow_def)

lemma parseInt_returns: "parseInt F s \<noteq> None"
  using parseInt_loop_returns by (auto simp: parseInt_def pthrow_def split: sum.splits)

lemma parseAfterInt_loop_returns: "parseAfterInt_loop F i v s \<noteq> None"
  by (induction F i v s rule: parseAfterInt_loop.induct) (auto simp: pret_def pthrow_def)

lemmas returns_simps = pbind_None_iff at0_None_iff Let_def if_distrib [of "\<lambda>m. m = None"]

lemma parseExponent_returns: "parseExponent F x s \<noteq> None"
  by (simp add: parseExponent_def returns_simps parseInt_returns del: not_None_eq)

lemma parseFraction_returns: "parseFraction F x s \<noteq> None"
  by (simp add: parseFraction_def parseAfterInt_def returns_simps parseAfterInt_loop_returns
      del: not_None_eq)

lemma parseIntegerPart_returns: "parseIntegerPart F s \<noteq> None"
  by (simp add: parseIntegerPart_def returns_simps parseInt_returns del: not_None_eq)

lemma parseNumber_rest_returns: "parseNumber_rest F k x s \<noteq> None"
  by (simp add: parseNumber_rest_def returns_simps parseFraction_returns parseExponent_returns
      del: not_None_eq)

lemma parseNumber_returns: "parseNumber F s \<noteq> None"
  by (auto simp add: parseNumber_def returns_simps parseIntegerPart_returns
      parseNumber_rest_returns simp del: not_None_eq split: option.splits)

lemma parseLiteral_returns: "parseLiteral s \<noteq> None"
  by (auto simp: parseLiteral_def returns_simps simp del: not_None_eq split: sum.splits)

text \<open>Every call returns or throws when the fuel suffices and no quote is escaped.\<close>

lemma objectEntry_returns:
  fixes F :: "('f, 'd) fp_ops"
  assumes v: "\<And>w. suffix w t \<Longrightarrow> length w < length t \<Longrightarrow> parseValue F n w \<noteq> None"
    and o: "\<And>m w. suffix w t \<Longrightarrow> length w < length t \<Longrightarrow> objectLoop F n m w \<noteq> None"
  shows "objectEntry F n m key t \<noteq> None"
proof -
  have nonempty: "objectLoop F n m' (removeWhitespace u) \<noteq> None"
    if "shrinks w b u" "suffix w t" "length w < length t" for w u b m'
  proof (rule o)
    show "suffix (removeWhitespace u) t"
      using that by (meson shrinks_def suffix_order.trans suffix_removeWhitespace)
    show "length (removeWhitespace u) < length t"
      using shrinks_length [OF that(1)] that(3) length_removeWhitespace [of u] by simp
  qed
  have loop: "pbind (parseValue F n w) (\<lambda>v u. case toString key of
      Inl e \<Rightarrow> pthrow e
    | Inr l \<Rightarrow> objectLoop F n (map_set m l v) (removeWhitespace u)) \<noteq> None"
    if w: "suffix w t" "length w < length t" for w
  proof
    assume "pbind (parseValue F n w) (\<lambda>v u. case toString key of
      Inl e \<Rightarrow> pthrow e
    | Inr l \<Rightarrow> objectLoop F n (map_set m l v) (removeWhitespace u)) = None"
    with v [OF w] obtain x u where u: "parseValue F n w = pret x u"
      and c: "(case toString key of Inl e \<Rightarrow> pthrow e
        | Inr l \<Rightarrow> objectLoop F n (map_set m l x) (removeWhitespace u)) = None"
      by (auto simp: pbind_None_iff)
    from nonempty [OF wppD [OF parse_shrinks(5) u] w] c show False
      by (simp add: pthrow_def del: not_None_eq split: sum.splits)
  qed
  have "suffix (removeWhitespace w) t \<and> length (removeWhitespace w) < length t"
    if "removeWhitespace t = c # w" for c w
    using suffix_rw_tail [OF that] length_removeWhitespace [of t] length_removeWhitespace [of w] that
    by (auto intro: suffix_order.trans suffix_removeWhitespace)
  with loop show ?thesis
    by (auto simp: objectEntry_def at0_None_iff simp del: not_None_eq removeWhitespace.simps)
qed

lemma parse_returns_fuel:
  fixes F :: "('f, 'd) fp_ops"
  shows "\<not> escaped s \<Longrightarrow> length s < 2147483648 \<Longrightarrow>
           3 * length s + 1 \<le> n \<Longrightarrow> parseObject F n s \<noteq> None"
    and "\<not> escaped s \<Longrightarrow> length s < 2147483648 \<Longrightarrow>
           3 * length s + 3 \<le> n \<Longrightarrow> objectLoop F n m s \<noteq> None"
    and "\<not> escaped s \<Longrightarrow> length s < 2147483648 \<Longrightarrow>
           3 * length s + 1 \<le> n \<Longrightarrow> parseArray F n s \<noteq> None"
    and "\<not> escaped s \<Longrightarrow> length s < 2147483648 \<Longrightarrow>
           3 * length s + 3 \<le> n \<Longrightarrow> arrayLoop F n l s \<noteq> None"
    and "\<not> escaped s \<Longrightarrow> length s < 2147483648 \<Longrightarrow>
           3 * length s + 2 \<le> n \<Longrightarrow> parseValue F n s \<noteq> None"
proof (induction n arbitrary: s m l)
  case 0
  { case 1 then show ?case by simp next
    case 2 then show ?case by simp next
    case 3 then show ?case by simp next
    case 4 then show ?case by simp next
    case 5 then show ?case by simp }
next
  case (Suc n)
  have sub: "suffix t s \<Longrightarrow> \<not> escaped s \<Longrightarrow> length s < 2147483648 \<Longrightarrow>
      \<not> escaped t \<and> length t < 2147483648 \<and> length t \<le> length s" for t s
    using escaped_suffix length_suffix by (meson order.strict_trans1)
  {
    case 1
    show ?case
    proof (cases "removeWhitespace s")
      case (Cons c u)
      have "objectLoop F n [] (removeWhitespace u) \<noteq> None"
        using sub [OF suffix_rw_trans [OF suffix_rw_tail [OF Cons]]] 1
          length_removeWhitespace [of u] length_removeWhitespace [of s] Cons
        by (intro Suc.IH(2)) auto
      with Cons show ?thesis
        by (auto simp: parseObject.simps at0_None_iff Let_def simp del: not_None_eq)
    qed (simp add: parseObject.simps pthrow_def)
  next
    case 2
    have comma: "objectLoop F n m (removeWhitespace (drop 1 s)) \<noteq> None" if "s \<noteq> []"
    proof -
      have "suffix (removeWhitespace (drop 1 s)) s" by (meson suffix_drop suffix_rw_trans)
      moreover have "length (removeWhitespace (drop 1 s)) < length s"
        using length_removeWhitespace [of "drop 1 s"] that by (cases s) auto
      ultimately show ?thesis
        using sub [of "removeWhitespace (drop 1 s)" s] 2 by (intro Suc.IH(2)) linarith+
    qed
    have "objectEntry F n m key t \<noteq> None" if "parseString s = pret key t" for key :: "('f, 'd) variant" and t
    proof -
      have t: "suffix t s" using wppD [OF parseString_shrinks that] by (simp add: shrinks_def)
      have "\<not> escaped w \<and> length w < 2147483648 \<and> 3 * length w + 2 \<le> n \<and>
          3 * length w + 3 \<le> n"
        if "suffix w t" "length w < length t" for w
        using sub [of w s] sub [of t s] suffix_order.trans [OF that(1) t] t that(2) 2 by linarith
      then show ?thesis by (intro objectEntry_returns Suc.IH) blast+
    qed
    with comma parseString_returns [OF 2(1,2)] show ?case
      by (auto simp: objectLoop_Suc at0_None_iff pbind_None_iff simp del: not_None_eq)
  next
    case 3
    show ?case
    proof (cases "removeWhitespace s")
      case (Cons c u)
      have "arrayLoop F n [] u \<noteq> None"
        using sub [OF suffix_rw_tail [OF Cons]] 3 length_removeWhitespace [of s] Cons
        by (intro Suc.IH(4)) auto
      with Cons show ?thesis
        by (auto simp: parseArray.simps at0_None_iff Let_def simp del: not_None_eq)
    qed (simp add: parseArray.simps pthrow_def)
  next
    case 4
    have v: "parseValue F n (removeWhitespace s) \<noteq> None"
      using sub [OF suffix_removeWhitespace 4(1,2)] 4(3) by (intro Suc.IH(5)) auto
    have "arrayEntry F n l v t \<noteq> None" if "parseValue F n (removeWhitespace s) = pret v t" for v t
    proof -
      have st: "shrinks s (isValid v) t"
        using wppD [OF parse_shrinks(5) that] suffix_then_shrinks suffix_removeWhitespace by blast
      have "arrayLoop F n l' (removeWhitespace (if b then drop 1 t else t)) \<noteq> None" if "isValid v" for l' b
      proof -
        let ?w = "removeWhitespace (if b then drop 1 t else t)"
        have wt: "suffix ?w t" by (auto intro: suffix_drop)
        then have ws: "suffix ?w s" using st by (meson shrinks_def suffix_order.trans)
        have "length ?w < length s" using length_suffix [OF wt] shrinks_length [OF st] that by simp
        with sub [OF ws 4(1,2)] 4(3) show ?thesis
          by (intro Suc.IH(4)) auto
      qed
      then show ?thesis
        by (auto simp: arrayEntry_def at0_None_iff pret_def simp del: not_None_eq drop_Suc_Cons)
    qed
    with v show ?case
      by (auto simp: arrayLoop_Suc at0_None_iff pbind_None_iff simp del: not_None_eq)
  next
    case 5
    show ?case
    proof (cases "removeWhitespace s")
      case (Cons c u)
      have cu: "\<not> escaped (c # u) \<and> length (c # u) < 2147483648 \<and> length (c # u) \<le> length s"
        using sub [OF suffix_rw_Cons [OF Cons]] 5 by simp
      then have "3 * length (c # u) + 1 \<le> n" using 5(3) by linarith
      with cu have "parseObject F n (c # u) \<noteq> None" "parseArray F n (c # u) \<noteq> None"
        using Suc.IH(1) Suc.IH(3) by blast+
      with Cons cu parseString_returns [of "c # u"] show ?thesis
        by (auto simp: parseValue.simps pbind_None_iff Let_def parseNumber_returns
            parseLiteral_returns simp del: not_None_eq split: if_splits)
    qed (simp add: parseValue.simps pthrow_def)
  }
qed

end
