(* ===== verification/JsonGrammar.thy ===== *)
theory JsonGrammar
  imports JsonParserFacts
begin

text \<open>
  The dialect of JSON the parser reads, in the parser's own terms: \<open>json_value F t v\<close> says that \<open>t\<close> is
  a text of the dialect and \<open>v\<close> what the parser makes of it.  It is the middle layer between the
  grammar of the RFC (theory \<open>JsonSyntax\<close>, which does not refer to it) and the code.  Its strings are
  those without a quote in them that do not end in a backslash, and stand for themselves; its numbers
  have no plus sign in their exponents, and their values are computed as the parser computes them; an
  empty list has no white space in it.  All of these texts are read (\<open>json_reads\<close>, by induction on the
  dialect); the last section shows what is read beyond them and what is not.
\<close>

abbreviation blank :: "string \<Rightarrow> bool" where
  "blank w \<equiv> \<forall>c \<in> set w. isspace c"

abbreviation digits :: "string \<Rightarrow> bool" where
  "digits s \<equiv> \<forall>c \<in> set s. isdigit c"

subsection \<open>Strings and digits\<close>

text \<open>The characters between two quotes that the parser takes for a string.\<close>

definition json_text :: "string \<Rightarrow> bool" where
  "json_text s \<longleftrightarrow> quote \<notin> set s \<and> (s = [] \<or> last s \<noteq> backslash)"

fun digits_loop :: "('f, 'd) fp_ops \<Rightarrow> nat \<Rightarrow> nat \<Rightarrow> 'f \<Rightarrow> string \<Rightarrow> 'f" where
  "digits_loop F L i val [] = val"
| "digits_loop F L i val (c # cs) =
     digits_loop F L (Suc i) (add_digit F (int L - int i - 1) val c) cs"

definition digits_float :: "('f, 'd) fp_ops \<Rightarrow> string \<Rightarrow> 'f" where
  "digits_float F ds = digits_loop F (length ds) 0 (f_of_int F 0) ds"

lemma parseString_text:
  assumes "json_text k" and "length (k @ quote # rest) < 2147483648"
  shows "parseString (quote # k @ quote # rest) =
    pret (variant_of (AString k)) (removeWhitespace rest)"
proof -
  let ?t = "k @ quote # rest"
  have i: "index_of quote ?t = Some (length k)"
    using assms(1) by (simp add: index_of_append json_text_def)
  have "length k = 0 \<or> ?t ! (length k - 1) \<noteq> backslash"
    using assms(1) by (auto simp: json_text_def nth_append last_conv_nth)
  with i assms(2) have "scanQuote ?t 0 = Some (Inr (int (length k)))"
    by (rule scanQuote_first)
  moreover have "remove_prefix (size_of_int (int (length k) + 1)) ?t = Inr rest"
    using assms(2) by (simp add: remove_prefix_def nat_add_distrib)
  ultimately show ?thesis
    using assms(2) by (simp add: parseString_def Let_def int_succ_def)
qed

lemma parseInt_loop_digits:
  "\<forall>c \<in> set ds. isdigit c \<Longrightarrow> \<not> isdigit d \<Longrightarrow>
   parseInt_loop F L i v (ds @ d # rest) = pret (digits_loop F L i v ds) (d # rest)"
  by (induction ds arbitrary: i v) auto

lemma parseInt_digits:
  "\<forall>c \<in> set ds. isdigit c \<Longrightarrow> \<not> isdigit d \<Longrightarrow>
   parseInt F (ds @ d # rest) = pret (digits_float F ds) (d # rest)"
  by (simp add: parseInt_def scan_while_append parseInt_loop_digits digits_float_def)

subsection \<open>Assigning members\<close>

text \<open>The map that assigning the members one by one builds.\<close>

definition assign_all :: "('k::linorder \<times> 'v) list \<Rightarrow> ('k \<times> 'v) list \<Rightarrow> ('k \<times> 'v) list" where
  "assign_all m kvs = foldl (\<lambda>m p. map_set m (fst p) (snd p)) m kvs"

lemma assign_all_simps [simp]:
  "assign_all m [] = m"
  "assign_all m (p # kvs) = assign_all (map_set m (fst p) (snd p)) kvs"
  by (simp_all add: assign_all_def)

lemma assign_all_sorted: "sorted_keys (m @ kvs) \<Longrightarrow> assign_all m kvs = m @ kvs"
proof (induction kvs arbitrary: m)
  case Nil
  then show ?case by simp
next
  case (Cons p kvs)
  then have "map_set m (fst p) (snd p) = m @ [p]"
    by (auto simp: map_set_snoc sorted_keys_append)
  with Cons show ?case by simp
qed

subsection \<open>Numbers\<close>

definition int_text :: "string \<Rightarrow> bool" where
  "int_text ds \<longleftrightarrow> ds \<noteq> [] \<and> digits ds \<and> (hd ds \<noteq> CHR ''0'' \<or> length ds = 1)"

definition fraction_text :: "string \<Rightarrow> bool" where
  "fraction_text f \<longleftrightarrow> f = [] \<or> (hd f = CHR ''.'' \<and> tl f \<noteq> [] \<and> digits (tl f))"

definition exponent_text :: "string \<Rightarrow> bool" where
  "exponent_text e \<longleftrightarrow> e = [] \<or> ((hd e = CHR ''e'' \<or> hd e = CHR ''E'') \<and>
     (\<exists>es. es \<noteq> [] \<and> digits es \<and> (tl e = es \<or> tl e = CHR ''-'' # es)))"

definition int_value :: "('f, 'd) fp_ops \<Rightarrow> string \<Rightarrow> 'f" where
  "int_value F ds = (if ds = ''0'' then f_of_int F 0 else digits_float F ds)"

fun fraction_loop :: "('f, 'd) fp_ops \<Rightarrow> nat \<Rightarrow> 'f \<Rightarrow> string \<Rightarrow> 'f" where
  "fraction_loop F i val [] = val"
| "fraction_loop F i val (c # cs) = fraction_loop F (Suc i) (add_fraction F (int i + 1) val c) cs"

definition add_fraction_text :: "('f, 'd) fp_ops \<Rightarrow> 'f \<Rightarrow> string \<Rightarrow> 'f" where
  "add_fraction_text F x f = (if f = [] then x else f_add F x (fraction_loop F 0 (f_of_int F 0) (tl f)))"

definition apply_exponent :: "('f, 'd) fp_ops \<Rightarrow> 'f \<Rightarrow> string \<Rightarrow> 'f" where
  "apply_exponent F x e =
     (if e = [] then x
      else if hd (tl e) = CHR ''-''
      then f_div F x (f_of_d F (d_pow10 F (d_of_f F (digits_float F (tl (tl e))))))
      else f_mul F x (f_of_d F (d_pow10 F (d_of_f F (digits_float F (tl e))))))"

text \<open>The sign of a number without fraction and exponent has no effect.\<close>

inductive json_number :: "('f, 'd) fp_ops \<Rightarrow> string \<Rightarrow> 'f \<Rightarrow> bool" for F where
  plain: "int_text ds \<Longrightarrow> s = [] \<or> s = ''-'' \<Longrightarrow> json_number F (s @ ds) (int_value F ds)"
| long: "int_text ds \<Longrightarrow> s = [] \<or> s = ''-'' \<Longrightarrow> fraction_text f \<Longrightarrow> exponent_text e \<Longrightarrow> f @ e \<noteq> [] \<Longrightarrow>
    json_number F (s @ ds @ f @ e)
      (f_mul F (apply_exponent F (add_fraction_text F (int_value F ds) f) e)
         (f_of_int F (if s = [] then 1 else - 1)))"

subsection \<open>Values\<close>

inductive json_value :: "('f, 'd) fp_ops \<Rightarrow> string \<Rightarrow> ('f, 'd) variant \<Rightarrow> bool"
  and json_elements :: "('f, 'd) fp_ops \<Rightarrow> string \<Rightarrow> ('f, 'd) variant list \<Rightarrow> bool"
  and json_members :: "('f, 'd) fp_ops \<Rightarrow> string \<Rightarrow> (string \<times> ('f, 'd) variant) list \<Rightarrow> bool" for F where
  string: "json_text s \<Longrightarrow> json_value F (quote # s @ [quote]) (variant_of (AString s))"
| true: "json_value F ''true'' (variant_of (ABool True))"
| false: "json_value F ''false'' (variant_of (ABool False))"
| null: "json_value F ''null'' (variant_of ANull)"
| number: "json_number F t x \<Longrightarrow> json_value F t (variant_of (AFloat x))"
| no_elements: "json_value F ''[]'' (variant_of (AList []))"
| array: "json_elements F t l \<Longrightarrow> json_value F (CHR ''['' # t @ '']'') (variant_of (AList l))"
| no_members: "blank w \<Longrightarrow> json_value F (CHR ''{'' # w @ ''}'') (variant_of (AMap []))"
| object: "json_members F t m \<Longrightarrow> json_value F (CHR ''{'' # t @ ''}'') (variant_of (AMap (assign_all [] m)))"
| one_element: "blank w1 \<Longrightarrow> json_value F t v \<Longrightarrow> blank w2 \<Longrightarrow> json_elements F (w1 @ t @ w2) [v]"
| element: "blank w1 \<Longrightarrow> json_value F t v \<Longrightarrow> blank w2 \<Longrightarrow> json_elements F u l \<Longrightarrow>
    json_elements F (w1 @ t @ w2 @ CHR '','' # u) (v # l)"
| one_member: "blank w1 \<Longrightarrow> json_text k \<Longrightarrow> blank w2 \<Longrightarrow> blank w3 \<Longrightarrow> json_value F t v \<Longrightarrow> blank w4 \<Longrightarrow>
    json_members F (w1 @ quote # k @ quote # w2 @ CHR '':'' # w3 @ t @ w4) [(k, v)]"
| member: "blank w1 \<Longrightarrow> json_text k \<Longrightarrow> blank w2 \<Longrightarrow> blank w3 \<Longrightarrow> json_value F t v \<Longrightarrow> blank w4 \<Longrightarrow>
    json_members F u m \<Longrightarrow>
    json_members F (w1 @ quote # k @ quote # w2 @ CHR '':'' # w3 @ t @ w4 @ CHR '','' # u) ((k, v) # m)"

inductive_cases json_value_mapE: "json_value F t (variant_of (AMap m))"
inductive_cases json_value_listE: "json_value F t (variant_of (AList l))"

subsection \<open>Reading numbers\<close>

text \<open>What ends a number or a literal.\<close>

definition ends_value :: "string \<Rightarrow> bool" where
  "ends_value s \<longleftrightarrow> s \<noteq> [] \<and> (isspace (hd s) \<or> hd s \<in> {CHR '','', CHR '']'', CHR ''}''})"

lemma ends_value_cases:
  assumes "ends_value s"
  obtains d u where "s = d # u" "\<not> isdigit d" "\<not> isalpha d" "d \<noteq> CHR ''.''"
    "d \<noteq> CHR ''e''" "d \<noteq> CHR ''E''"
proof -
  obtain d u where s: "s = d # u" using assms by (cases s) (auto simp: ends_value_def)
  have "\<not> isdigit d \<and> \<not> isalpha d"
    using assms s not_isspace_isdigit not_isspace_isalpha by (auto simp: ends_value_def)
  moreover have "isalpha (CHR ''e'')" "isalpha (CHR ''E'')" "\<not> isspace (CHR ''.'')"
    by (simp_all add: isalpha_def islower_def isupper_def char_le_nat isspace_def)
  ultimately show thesis using assms s by (intro that [of d u]) (auto simp: ends_value_def)
qed

lemma ends_value_blank: "blank w \<Longrightarrow> ends_value s \<Longrightarrow> ends_value (w @ s)"
  by (cases w) (auto simp: ends_value_def)

lemma ends_value_simps [simp]:
  "ends_value (CHR '','' # s)" "ends_value (CHR '']'' # s)" "ends_value (CHR ''}'' # s)"
  by (simp_all add: ends_value_def)

lemma parseAfterInt_loop_text:
  "digits fs \<Longrightarrow> \<not> isdigit d \<Longrightarrow>
   parseAfterInt_loop F i v (fs @ d # rest) = pret (fraction_loop F i v fs) (d # rest)"
  by (induction fs arbitrary: i v) auto

lemma parseFraction_text:
  assumes "fraction_text f" "\<not> isdigit d" "d \<noteq> CHR ''.''"
  shows "parseFraction F x (f @ d # rest) = pret (add_fraction_text F x f) (d # rest)"
  using assms parseAfterInt_loop_text [of "tl f" d F 0 "f_of_int F 0" rest]
  by (cases f) (auto simp: fraction_text_def parseFraction_def parseAfterInt_def add_fraction_text_def)

lemma parseExponent_text:
  assumes "exponent_text e" "\<not> isdigit d" "d \<noteq> CHR ''e''" "d \<noteq> CHR ''E''"
  shows "parseExponent F x (e @ d # rest) = pret (apply_exponent F x e) (d # rest)"
proof (cases "e = []")
  case True
  then show ?thesis using assms by (simp add: parseExponent_def apply_exponent_def)
next
  case False
  then obtain c es where e: "hd e = c" "c = CHR ''e'' \<or> c = CHR ''E''" "es \<noteq> []" "digits es"
    "tl e = es \<or> tl e = CHR ''-'' # es" using assms(1) by (auto simp: exponent_text_def)
  have p: "parseInt F (es @ d # rest) = pret (digits_float F es) (d # rest)"
    using e(4) assms(2) by (rule parseInt_digits)
  obtain h u where es: "es = h # u" "isdigit h" using e(3,4) by (cases es) auto
  then have h: "h \<noteq> CHR ''-''" by auto
  have "e = c # es \<or> e = c # CHR ''-'' # es" using e(1,5) False by (cases e) auto
  then show ?thesis using e(2) p es(1) h
    by (auto simp: parseExponent_def apply_exponent_def Let_def)
qed

lemma parseNumber_sign:
  assumes "ds \<noteq> []" and "\<forall>x \<in> set ds. isdigit x"
    and "parseIntegerPart F (ds @ t) = pret (Some x) u"
  shows "parseNumber F (ds @ t) = parseNumber_rest F 1 x u"
    "parseNumber F (CHR ''-'' # ds @ t) = parseNumber_rest F (- 1) x u"
proof -
  obtain c cs where "ds = c # cs" "isdigit c" using assms(1,2) by (cases ds) auto
  moreover from this have "c \<noteq> CHR ''-''" by auto
  ultimately show "parseNumber F (ds @ t) = parseNumber_rest F 1 x u"
    "parseNumber F (CHR ''-'' # ds @ t) = parseNumber_rest F (- 1) x u"
    using assms(3) by (simp_all add: parseNumber_def)
qed

lemma int_text_cases:
  assumes "int_text ds"
  obtains c cs where "ds = c # cs" "isdigit c" "digits cs" "c = CHR ''0'' \<longrightarrow> cs = []"
  using assms by (cases ds) (auto simp: int_text_def)

lemma parseIntegerPart_text:
  assumes "int_text ds" "\<not> isdigit d"
  shows "parseIntegerPart F (ds @ d # rest) = pret (Some (int_value F ds)) (d # rest)"
proof -
  obtain c cs where c: "ds = c # cs" "isdigit c" "digits cs" "c = CHR ''0'' \<longrightarrow> cs = []"
    using int_text_cases [OF assms(1)] .
  have "parseInt F (ds @ d # rest) = pret (digits_float F ds) (d # rest)"
    using c assms(2) by (intro parseInt_digits) simp_all
  then show ?thesis using c by (auto simp: parseIntegerPart_def int_value_def)
qed

lemma parseNumber_plain:
  assumes "int_text ds" "s = [] \<or> s = ''-''" "ends_value rest"
  shows "parseNumber F (s @ ds @ rest) = pret (variant_of (AFloat (int_value F ds))) (removeWhitespace rest)"
proof -
  obtain d u where d: "rest = d # u" "\<not> isdigit d" "d \<noteq> CHR ''.''" "d \<noteq> CHR ''e''" "d \<noteq> CHR ''E''"
    using ends_value_cases [OF assms(3)] .
  have "ds \<noteq> []" "digits ds" using assms(1) by (simp_all add: int_text_def)
  note parseNumber_sign [OF this parseIntegerPart_text [OF assms(1) d(2), of F u]]
  with assms(2) d show ?thesis by (auto simp: parseNumber_rest_def)
qed

lemma parseNumber_text:
  assumes "json_number F t x" "ends_value rest"
  shows "\<exists>r. parseNumber F (t @ rest) = pret (variant_of (AFloat x)) r \<and> removeWhitespace r = removeWhitespace rest"
proof -
  obtain d u where d: "rest = d # u" "\<not> isdigit d" "\<not> isalpha d" "d \<noteq> CHR ''.''" "d \<noteq> CHR ''e''" "d \<noteq> CHR ''E''"
    using ends_value_cases [OF assms(2)] .
  show ?thesis
    using assms(1)
  proof cases
    case (plain ds s)
    with parseNumber_plain [OF plain(3,4) assms(2), of F] show ?thesis by simp
  next
    case (long ds s f e)
    have i: "ds \<noteq> []" "digits ds" using long(3) by (simp_all add: int_text_def)
    obtain c w where c: "f @ e @ d # u = c # w" "c = CHR ''.'' \<or> c = CHR ''e'' \<or> c = CHR ''E''"
      using long(5,6,7) by (cases f; cases e) (auto simp: fraction_text_def exponent_text_def)
    have "\<not> isdigit c" using c(2) by (auto simp: isdigit_def char_le_nat)
    note n = parseNumber_sign [OF i parseIntegerPart_text [OF long(3) this, of F w]]
    have r: "parseNumber_rest F k y (c # w) = pret (variant_of (AFloat
        (f_mul F (apply_exponent F (add_fraction_text F y f) e) (f_of_int F k)))) (d # u)" for k y
    proof -
      obtain c' w' where c': "e @ d # u = c' # w'" "\<not> isdigit c'" "c' \<noteq> CHR ''.''"
      proof (cases e)
        case Nil
        with d that show ?thesis by auto
      next
        case (Cons a b)
        then have "a = CHR ''e'' \<or> a = CHR ''E''" using long(6) by (auto simp: exponent_text_def)
        with Cons that show ?thesis by (auto simp: isdigit_def char_le_nat)
      qed
      have "parseFraction F y (c # w) = pret (add_fraction_text F y f) (e @ d # u)"
        using parseFraction_text [OF long(5) c'(2,3), of F y w'] c(1) c'(1) by simp
      with parseExponent_text [OF long(6) d(2,5,6), of F "add_fraction_text F y f" u] c(2) show ?thesis
        by (auto simp: parseNumber_rest_def)
    qed
    show ?thesis using long(1,2,4) n r c(1) d(1) by auto
  qed
qed

lemma json_number_hd: "json_number F t x \<Longrightarrow> \<exists>h u. t = h # u \<and> (isdigit h \<or> h = CHR ''-'')"
  by (erule json_number.cases) (auto elim!: int_text_cases)

lemma parseLiteral_text:
  assumes "ends_value rest" "w \<in> {''true'', ''false'', ''null''}"
  shows "parseLiteral (w @ rest) = pret (if w = ''true'' then variant_of (ABool True)
    else if w = ''false'' then variant_of (ABool False) else variant_of ANull) (removeWhitespace rest)"
proof -
  obtain d u where d: "rest = d # u" "\<not> isalpha d" using ends_value_cases [OF assms(1)] by metis
  have "\<forall>c \<in> set w. isalpha c"
    using assms(2) by (auto simp: isalpha_def isupper_def islower_def char_le_nat)
  then have "scan_while isalpha (w @ d # u) = Inr (length w)" and "isalpha (hd w)" and "w \<noteq> []"
    using scan_while_append d(2) assms(2) by auto
  with assms(2) d(1) show ?thesis
    by (cases w) (auto simp: parseLiteral_def Let_def)
qed

subsection \<open>Reading values\<close>

definition reads_value :: "('f, 'd) fp_ops \<Rightarrow> string \<Rightarrow> ('f, 'd) variant \<Rightarrow> bool" where
  "reads_value F t v \<longleftrightarrow> isValid v \<and> (\<exists>h u. t = h # u \<and> \<not> isspace h \<and> h \<noteq> CHR '']'') \<and>
     (\<forall>n rest. ends_value rest \<and> length (t @ rest) < 2147483648 \<and> 3 * length (t @ rest) + 2 \<le> n \<longrightarrow>
        parseValue F n (t @ rest) = pret v (removeWhitespace rest))"

definition reads_elements :: "('f, 'd) fp_ops \<Rightarrow> string \<Rightarrow> ('f, 'd) variant list \<Rightarrow> bool" where
  "reads_elements F t l \<longleftrightarrow> (\<exists>h u. removeWhitespace t = h # u \<and> h \<noteq> CHR '']'') \<and>
     (\<forall>n acc rest s. length (t @ CHR '']'' # rest) < 2147483648 \<and> 3 * length (t @ CHR '']'' # rest) + 3 \<le> n \<and>
        s \<noteq> [] \<and> hd s \<noteq> CHR '']'' \<and> removeWhitespace s = removeWhitespace (t @ CHR '']'' # rest) \<longrightarrow>
        arrayLoop F n acc s = pret (acc @ l) (removeWhitespace rest))"

definition reads_members :: "('f, 'd) fp_ops \<Rightarrow> string \<Rightarrow> (string \<times> ('f, 'd) variant) list \<Rightarrow> bool" where
  "reads_members F t m \<longleftrightarrow> (\<exists>u. removeWhitespace t = quote # u) \<and>
     (\<forall>n acc rest. length (t @ CHR ''}'' # rest) < 2147483648 \<and> 3 * length (t @ CHR ''}'' # rest) + 1 \<le> n \<longrightarrow>
        objectLoop F n acc (removeWhitespace (t @ CHR ''}'' # rest)) =
          pret (assign_all acc m) (removeWhitespace rest))"

lemma reads_valueD:
  "reads_value F t v \<Longrightarrow> ends_value rest \<Longrightarrow> length (t @ rest) < 2147483648 \<Longrightarrow> 3 * length (t @ rest) + 2 \<le> n \<Longrightarrow>
   parseValue F n (t @ rest) = pret v (removeWhitespace rest)"
  by (simp add: reads_value_def)

lemma reads_value_rw: "reads_value F t v \<Longrightarrow> blank w \<Longrightarrow> removeWhitespace (w @ t @ s) = t @ s"
  by (auto simp: reads_value_def removeWhitespace_append)

text \<open>One element or member, and what comes behind it.\<close>

lemma reads_element:
  assumes v: "reads_value F t v" and w: "blank w1" "blank w2" and rest: "ends_value rest"
    and s: "s \<noteq> []" "hd s \<noteq> CHR '']''" "removeWhitespace s = removeWhitespace (w1 @ t @ w2 @ rest)"
    and len: "length (t @ w2 @ rest) < 2147483648" and n: "3 * length (t @ w2 @ rest) + 3 \<le> n"
  obtains k where "n = Suc k" "arrayLoop F n acc s = arrayEntry F k acc v (removeWhitespace rest)"
proof -
  obtain k where k: "n = Suc k" "3 * length (t @ w2 @ rest) + 2 \<le> k" using n by (cases n) auto
  have "removeWhitespace s = t @ w2 @ rest" using s(3) reads_value_rw [OF v w(1)] by simp
  moreover have "parseValue F k (t @ w2 @ rest) = pret v (removeWhitespace rest)"
    using reads_valueD [OF v ends_value_blank [OF w(2) rest] len k(2)] removeWhitespace_append [OF w(2)] by simp
  ultimately have "arrayLoop F n acc s = arrayEntry F k acc v (removeWhitespace rest)"
    using s(1,2) k(1) by (cases s) (simp_all add: arrayLoop_Suc del: removeWhitespace.simps)
  with k(1) show thesis by (rule that)
qed

lemma reads_member:
  assumes v: "reads_value F t v" and w: "blank w1" "blank w2" "blank w3" "blank w4" and key: "json_text k"
    and rest: "ends_value rest"
    and s: "s = w1 @ quote # k @ quote # w2 @ CHR '':'' # w3 @ t @ w4 @ rest"
    and len: "length s < 2147483648" and n: "3 * length s + 1 \<le> n"
  obtains n' where "n = Suc n'" "3 * length rest + 4 \<le> n'"
    "objectLoop F n acc (removeWhitespace s) = objectLoop F n' (map_set acc k v) (removeWhitespace rest)"
proof -
  obtain n' where n': "n = Suc n'" using n by (cases n) auto
  let ?r = "w2 @ CHR '':'' # w3 @ t @ w4 @ rest"
  have rs: "removeWhitespace s = quote # k @ quote # ?r" using s w(1) by (simp add: removeWhitespace_append)
  have "(parseString (quote # k @ quote # ?r) :: ('a, 'b) variant pres) =
      pret (variant_of (AString k)) (removeWhitespace ?r)"
    using key len s by (intro parseString_text) simp_all
  moreover have "removeWhitespace ?r = CHR '':'' # w3 @ t @ w4 @ rest" using w(2) by (simp add: removeWhitespace_append)
  moreover have "removeWhitespace (w3 @ t @ w4 @ rest) = t @ w4 @ rest" by (rule reads_value_rw [OF v w(3)])
  moreover have "parseValue F n' (t @ w4 @ rest) = pret v (removeWhitespace (w4 @ rest))"
    using len n n' s by (intro reads_valueD [OF v ends_value_blank [OF w(4) rest]]) simp_all
  ultimately have "objectLoop F n acc (removeWhitespace s) = objectLoop F n' (map_set acc k v) (removeWhitespace rest)"
    using w(4) unfolding n' rs by (simp add: objectLoop_Suc objectEntry_def removeWhitespace_append)
  moreover have "3 * length rest + 4 \<le> n'" using n n' s by simp
  ultimately show thesis using n' that by blast
qed

lemma reads_elementsD:
  "reads_elements F t l \<Longrightarrow> length (t @ CHR '']'' # rest) < 2147483648 \<Longrightarrow> 3 * length (t @ CHR '']'' # rest) + 3 \<le> n \<Longrightarrow>
   s \<noteq> [] \<Longrightarrow> hd s \<noteq> CHR '']'' \<Longrightarrow> removeWhitespace s = removeWhitespace (t @ CHR '']'' # rest) \<Longrightarrow>
   arrayLoop F n acc s = pret (acc @ l) (removeWhitespace rest)"
  by (simp add: reads_elements_def)

lemma reads_membersD:
  "reads_members F t m \<Longrightarrow> length (t @ CHR ''}'' # rest) < 2147483648 \<Longrightarrow> 3 * length (t @ CHR ''}'' # rest) + 1 \<le> n \<Longrightarrow>
   objectLoop F n acc (removeWhitespace (t @ CHR ''}'' # rest)) = pret (assign_all acc m) (removeWhitespace rest)"
  by (simp add: reads_members_def)

lemma reads_one_element:
  assumes w: "blank w1" "blank w2" and v: "reads_value F t v"
  shows "reads_elements F (w1 @ t @ w2) [v]"
  unfolding reads_elements_def
proof (intro conjI allI impI)
  show "\<exists>h u. removeWhitespace (w1 @ t @ w2) = h # u \<and> h \<noteq> CHR '']''"
    using reads_value_rw [OF v w(1), of w2] v by (auto simp: reads_value_def)
  fix n acc rest s
  assume a: "length ((w1 @ t @ w2) @ CHR '']'' # rest) < 2147483648 \<and>
      3 * length ((w1 @ t @ w2) @ CHR '']'' # rest) + 3 \<le> n \<and> s \<noteq> [] \<and> hd s \<noteq> CHR '']'' \<and>
      removeWhitespace s = removeWhitespace ((w1 @ t @ w2) @ CHR '']'' # rest)"
  then have s: "s \<noteq> []" "hd s \<noteq> CHR '']''" "removeWhitespace s = removeWhitespace (w1 @ t @ w2 @ CHR '']'' # rest)"
    and len: "length (t @ w2 @ CHR '']'' # rest) < 2147483648" "3 * length (t @ w2 @ CHR '']'' # rest) + 3 \<le> n"
    by simp_all
  obtain k where k: "n = Suc k" "arrayLoop F n acc s = arrayEntry F k acc v (removeWhitespace (CHR '']'' # rest))"
    by (rule reads_element [OF v w _ s len]) simp_all
  obtain j where "k = Suc j" using len(2) k(1) by (cases k) auto
  then show "arrayLoop F n acc s = pret (acc @ [v]) (removeWhitespace rest)"
    using k(2) v by (simp add: arrayEntry_def arrayLoop_Suc reads_value_def)
qed

lemma reads_more_elements:
  assumes w: "blank w1" "blank w2" and v: "reads_value F t v" and l: "reads_elements F u l"
  shows "reads_elements F (w1 @ t @ w2 @ CHR '','' # u) (v # l)"
  unfolding reads_elements_def
proof (intro conjI allI impI)
  show "\<exists>h u'. removeWhitespace (w1 @ t @ w2 @ CHR '','' # u) = h # u' \<and> h \<noteq> CHR '']''"
    using reads_value_rw [OF v w(1), of "w2 @ CHR '','' # u"] v by (auto simp: reads_value_def)
  fix n acc rest s
  let ?u = "u @ CHR '']'' # rest"
  assume a: "length ((w1 @ t @ w2 @ CHR '','' # u) @ CHR '']'' # rest) < 2147483648 \<and>
      3 * length ((w1 @ t @ w2 @ CHR '','' # u) @ CHR '']'' # rest) + 3 \<le> n \<and> s \<noteq> [] \<and> hd s \<noteq> CHR '']'' \<and>
      removeWhitespace s = removeWhitespace ((w1 @ t @ w2 @ CHR '','' # u) @ CHR '']'' # rest)"
  then have s: "s \<noteq> []" "hd s \<noteq> CHR '']''" "removeWhitespace s = removeWhitespace (w1 @ t @ w2 @ CHR '','' # ?u)"
    and len: "length (t @ w2 @ CHR '','' # ?u) < 2147483648" "3 * length (t @ w2 @ CHR '','' # ?u) + 3 \<le> n"
    by simp_all
  obtain k where k: "n = Suc k" "arrayLoop F n acc s = arrayEntry F k acc v (removeWhitespace (CHR '','' # ?u))"
    by (rule reads_element [OF v w _ s len]) simp_all
  obtain h u' where h: "removeWhitespace u = h # u'" "h \<noteq> CHR '']''" using l by (auto simp: reads_elements_def)
  then have hu: "removeWhitespace ?u = h # u' @ CHR '']'' # rest"
    by (induction u) auto
  have "arrayLoop F k (acc @ [v]) (removeWhitespace ?u) = pret ((acc @ [v]) @ l) (removeWhitespace rest)"
  proof (rule reads_elementsD [OF l])
    show "removeWhitespace (removeWhitespace ?u) = removeWhitespace ?u" by (rule removeWhitespace_idem)
  qed (use len k(1) hu h(2) in simp_all)
  then show "arrayLoop F n acc s = pret (acc @ v # l) (removeWhitespace rest)"
    using k(2) v by (simp add: arrayEntry_def reads_value_def)
qed

lemma member_hd: "blank w \<Longrightarrow> removeWhitespace (w @ quote # s) = quote # s"
  by (simp add: removeWhitespace_append)

lemma reads_one_member:
  assumes w: "blank w1" "blank w2" "blank w3" "blank w4" and k: "json_text k" and v: "reads_value F t v"
  shows "reads_members F (w1 @ quote # k @ quote # w2 @ CHR '':'' # w3 @ t @ w4) [(k, v)]"
  unfolding reads_members_def
proof (intro conjI allI impI)
  show "\<exists>u. removeWhitespace (w1 @ quote # k @ quote # w2 @ CHR '':'' # w3 @ t @ w4) = quote # u"
    using w(1) by (simp add: member_hd)
  fix n acc rest
  let ?s = "w1 @ quote # k @ quote # w2 @ CHR '':'' # w3 @ t @ w4 @ CHR ''}'' # rest"
  assume a: "length ((w1 @ quote # k @ quote # w2 @ CHR '':'' # w3 @ t @ w4) @ CHR ''}'' # rest) < 2147483648 \<and>
      3 * length ((w1 @ quote # k @ quote # w2 @ CHR '':'' # w3 @ t @ w4) @ CHR ''}'' # rest) + 1 \<le> n"
  obtain n' where n': "n = Suc n'" "3 * length (CHR ''}'' # rest) + 4 \<le> n'"
    "objectLoop F n acc (removeWhitespace ?s) = objectLoop F n' (map_set acc k v) (removeWhitespace (CHR ''}'' # rest))"
    by (rule reads_member [OF v w k, of "CHR ''}'' # rest" ?s n acc]) (use a in simp_all)
  obtain j where "n' = Suc j" using n'(2) by (cases n') auto
  with n'(3) show "objectLoop F n acc (removeWhitespace ((w1 @ quote # k @ quote # w2 @ CHR '':'' # w3 @ t @ w4) @ CHR ''}'' # rest)) =
      pret (assign_all acc [(k, v)]) (removeWhitespace rest)"
    by (simp add: objectLoop_Suc)
qed

lemma reads_more_members:
  assumes w: "blank w1" "blank w2" "blank w3" "blank w4" and k: "json_text k" and v: "reads_value F t v"
    and m: "reads_members F u m"
  shows "reads_members F (w1 @ quote # k @ quote # w2 @ CHR '':'' # w3 @ t @ w4 @ CHR '','' # u) ((k, v) # m)"
  unfolding reads_members_def
proof (intro conjI allI impI)
  show "\<exists>u'. removeWhitespace (w1 @ quote # k @ quote # w2 @ CHR '':'' # w3 @ t @ w4 @ CHR '','' # u) = quote # u'"
    using w(1) by (simp add: member_hd)
  fix n acc rest
  let ?u = "u @ CHR ''}'' # rest"
  let ?s = "w1 @ quote # k @ quote # w2 @ CHR '':'' # w3 @ t @ w4 @ CHR '','' # ?u"
  assume a: "length ((w1 @ quote # k @ quote # w2 @ CHR '':'' # w3 @ t @ w4 @ CHR '','' # u) @ CHR ''}'' # rest) < 2147483648 \<and>
      3 * length ((w1 @ quote # k @ quote # w2 @ CHR '':'' # w3 @ t @ w4 @ CHR '','' # u) @ CHR ''}'' # rest) + 1 \<le> n"
  obtain n' where n': "n = Suc n'" "3 * length (CHR '','' # ?u) + 4 \<le> n'"
    "objectLoop F n acc (removeWhitespace ?s) = objectLoop F n' (map_set acc k v) (removeWhitespace (CHR '','' # ?u))"
    by (rule reads_member [OF v w k, of "CHR '','' # ?u" ?s n acc]) (use a in simp_all)
  obtain j where j: "n' = Suc j" using n'(2) by (cases n') auto
  have "objectLoop F j (map_set acc k v) (removeWhitespace ?u) = pret (assign_all (map_set acc k v) m) (removeWhitespace rest)"
    by (rule reads_membersD [OF m]) (use a n'(2) j in simp_all)
  then show "objectLoop F n acc (removeWhitespace ((w1 @ quote # k @ quote # w2 @ CHR '':'' # w3 @ t @ w4 @ CHR '','' # u) @ CHR ''}'' # rest)) =
      pret (assign_all acc ((k, v) # m)) (removeWhitespace rest)"
    using n'(3) j by (simp add: objectLoop_Suc)
qed

lemma reads_array:
  assumes "reads_elements F t l"
  shows "reads_value F (CHR ''['' # t @ '']'') (variant_of (AList l))"
  unfolding reads_value_def
proof (intro conjI allI impI)
  fix n rest
  assume a: "ends_value rest \<and> length ((CHR ''['' # t @ '']'') @ rest) < 2147483648 \<and>
      3 * length ((CHR ''['' # t @ '']'') @ rest) + 2 \<le> n"
  obtain k where k: "n = Suc (Suc k)" using a by (cases n; cases "n - 1") auto
  obtain h u where "removeWhitespace t = h # u" "h \<noteq> CHR '']''" using assms by (auto simp: reads_elements_def)
  then have "t \<noteq> [] \<and> hd t \<noteq> CHR '']''" by (cases t) (auto split: if_splits)
  then have "arrayLoop F k [] (t @ CHR '']'' # rest) = pret ([] @ l) (removeWhitespace rest)"
    by (intro reads_elementsD [OF assms]) (use a k in simp_all)
  then show "parseValue F n ((CHR ''['' # t @ '']'') @ rest) = pret (variant_of (AList l)) (removeWhitespace rest)"
    by (simp add: k parseValue.simps parseArray.simps Let_def)
qed simp_all

lemma reads_object:
  assumes "reads_members F t m"
  shows "reads_value F (CHR ''{'' # t @ ''}'') (variant_of (AMap (assign_all [] m)))"
  unfolding reads_value_def
proof (intro conjI allI impI)
  fix n rest
  assume a: "ends_value rest \<and> length ((CHR ''{'' # t @ ''}'') @ rest) < 2147483648 \<and>
      3 * length ((CHR ''{'' # t @ ''}'') @ rest) + 2 \<le> n"
  obtain k where k: "n = Suc (Suc k)" using a by (cases n; cases "n - 1") auto
  obtain u where "removeWhitespace t = quote # u" using assms by (auto simp: reads_members_def)
  then have u: "removeWhitespace (t @ CHR ''}'' # rest) = quote # u @ CHR ''}'' # rest" by (induction t) auto
  have "objectLoop F k [] (removeWhitespace (t @ CHR ''}'' # rest)) = pret (assign_all [] m) (removeWhitespace rest)"
    by (rule reads_membersD [OF assms]) (use a k in simp_all)
  then show "parseValue F n ((CHR ''{'' # t @ ''}'') @ rest) =
      pret (variant_of (AMap (assign_all [] m))) (removeWhitespace rest)"
    by (simp add: k parseValue.simps parseObject.simps Let_def u)
qed simp_all

lemma reads_scalars:
  "json_text s \<Longrightarrow> reads_value F (quote # s @ [quote]) (variant_of (AString s))"
  "reads_value F ''true'' (variant_of (ABool True))"
  "reads_value F ''false'' (variant_of (ABool False))"
  "reads_value F ''null'' (variant_of ANull)"
  "json_number F t x \<Longrightarrow> reads_value F t (variant_of (AFloat x))"
  "reads_value F ''[]'' (variant_of (AList []))"
  "blank w \<Longrightarrow> reads_value F (CHR ''{'' # w @ ''}'') (variant_of (AMap []))"
proof -
  assume s: "json_text s"
  show "reads_value F (quote # s @ [quote]) (variant_of (AString s))"
    unfolding reads_value_def
  proof (intro conjI allI impI)
    fix n rest
    assume a: "ends_value rest \<and> length ((quote # s @ [quote]) @ rest) < 2147483648 \<and>
        3 * length ((quote # s @ [quote]) @ rest) + 2 \<le> n"
    obtain k where k: "n = Suc k" using a by (cases n) auto
    have "(parseString (quote # s @ quote # rest) :: ('a, 'b) variant pres) =
        pret (variant_of (AString s)) (removeWhitespace rest)"
      by (rule parseString_text [OF s]) (use a in simp)
    then show "parseValue F n ((quote # s @ [quote]) @ rest) = pret (variant_of (AString s)) (removeWhitespace rest)"
      by (simp add: k parseValue.simps Let_def)
  qed simp_all
next
  have n: "isalpha (CHR ''t'')" "isalpha (CHR ''f'')" "isalpha (CHR ''n'')"
    by (simp_all add: isalpha_def islower_def char_le_nat)
  have lit: "reads_value F w v" if w: "w \<in> {''true'', ''false'', ''null''}"
      and v: "v = (if w = ''true'' then variant_of (ABool True)
        else if w = ''false'' then variant_of (ABool False) else variant_of ANull)" for w v
    unfolding reads_value_def
  proof (intro conjI allI impI)
    show "isValid v" unfolding v by simp
    obtain h u where h: "w = h # u" "isalpha h" "h \<noteq> quote" "h \<noteq> CHR ''-''" "h \<noteq> CHR ''{''" "h \<noteq> CHR ''[''" "h \<noteq> CHR '']''"
      using w n by auto
    then show "\<exists>h u. w = h # u \<and> \<not> isspace h \<and> h \<noteq> CHR '']''" by auto
    fix n rest
    assume a: "ends_value rest \<and> length (w @ rest) < 2147483648 \<and> 3 * length (w @ rest) + 2 \<le> n"
    obtain k where k: "n = Suc k" using a by (cases n) auto
    have "parseLiteral (w @ rest) = pret v (removeWhitespace rest)"
      unfolding v using a w by (intro parseLiteral_text) simp_all
    then show "parseValue F n (w @ rest) = pret v (removeWhitespace rest)"
      using h not_isdigit_isalpha [OF h(2)] by (simp add: k parseValue.simps Let_def)
  qed
  show "reads_value F ''true'' (variant_of (ABool True))" "reads_value F ''false'' (variant_of (ABool False))"
    "reads_value F ''null'' (variant_of ANull)" by (rule lit; simp)+
next
  assume x: "json_number F t x"
  obtain h u where h: "t = h # u" "isdigit h \<or> h = CHR ''-''" using json_number_hd [OF x] by blast
  show "reads_value F t (variant_of (AFloat x))"
    unfolding reads_value_def
  proof (intro conjI allI impI)
    show "\<exists>h u. t = h # u \<and> \<not> isspace h \<and> h \<noteq> CHR '']''" using h by auto
    fix n rest
    assume a: "ends_value rest \<and> length (t @ rest) < 2147483648 \<and> 3 * length (t @ rest) + 2 \<le> n"
    obtain k where k: "n = Suc k" using a by (cases n) auto
    obtain r where "parseNumber F (t @ rest) = pret (variant_of (AFloat x)) r" "removeWhitespace r = removeWhitespace rest"
      using parseNumber_text [OF x] a by blast
    then show "parseValue F n (t @ rest) = pret (variant_of (AFloat x)) (removeWhitespace rest)"
      using h by (auto simp: k parseValue.simps Let_def)
  qed simp
next
  show "reads_value F ''[]'' (variant_of (AList []))"
    unfolding reads_value_def
  proof (intro conjI allI impI)
    fix n rest
    assume a: "ends_value rest \<and> length (''[]'' @ rest) < 2147483648 \<and> 3 * length (''[]'' @ rest) + 2 \<le> n"
    obtain k where "n = Suc (Suc (Suc k))" using a by (cases n; cases "n - 1"; cases "n - 2") auto
    then show "parseValue F n (''[]'' @ rest) = pret (variant_of (AList [])) (removeWhitespace rest)"
      by (simp add: parseValue.simps parseArray.simps arrayLoop_Suc Let_def)
  qed simp_all
next
  assume w: "blank w"
  show "reads_value F (CHR ''{'' # w @ ''}'') (variant_of (AMap []))"
    unfolding reads_value_def
  proof (intro conjI allI impI)
    fix n rest
    assume a: "ends_value rest \<and> length ((CHR ''{'' # w @ ''}'') @ rest) < 2147483648 \<and>
        3 * length ((CHR ''{'' # w @ ''}'') @ rest) + 2 \<le> n"
    obtain k where "n = Suc (Suc k)" using a by (cases n; cases "n - 1") auto
    then show "parseValue F n ((CHR ''{'' # w @ ''}'') @ rest) = pret (variant_of (AMap [])) (removeWhitespace rest)"
      using w by (simp add: parseValue.simps parseObject.simps Let_def removeWhitespace_append)
  qed simp_all
qed

lemma json_reads:
  "json_value F t v \<Longrightarrow> reads_value F t v"
  "json_elements F t' l \<Longrightarrow> reads_elements F t' l"
  "json_members F t'' m \<Longrightarrow> reads_members F t'' m"
  by (induction rule: json_value_json_elements_json_members.inducts)
    (simp_all only: reads_scalars reads_array reads_object reads_one_element reads_more_elements
      reads_one_member reads_more_members)

subsection \<open>Whole texts\<close>

lemma blank_rw: "blank w \<Longrightarrow> removeWhitespace w = []"
  by (induction w) auto

lemma parse_array_text:
  assumes "reads_elements F t l" "blank w'" "length (CHR ''['' # t @ CHR '']'' # w') < 2147483648"
  shows "parse F (CHR ''['' # t @ CHR '']'' # w') = Some (Inr (variant_of (AList l)))"
proof -
  let ?s = "CHR ''['' # t @ CHR '']'' # w'"
  obtain k where k: "parse_fuel ?s = Suc k" "3 * length (t @ CHR '']'' # w') + 3 \<le> k"
    by (simp add: parse_fuel_def)
  obtain h u where "removeWhitespace t = h # u" "h \<noteq> CHR '']''" using assms(1) by (auto simp: reads_elements_def)
  then have "t \<noteq> [] \<and> hd t \<noteq> CHR '']''" by (cases t) (auto split: if_splits)
  then have "arrayLoop F k [] (t @ CHR '']'' # w') = pret ([] @ l) (removeWhitespace w')"
    by (intro reads_elementsD [OF assms(1)]) (use assms(3) k in simp_all)
  then have "parseArray F (parse_fuel ?s) ?s = pret l []"
    using assms(2) unfolding k(1) by (simp add: parseArray.simps Let_def blank_rw)
  then show ?thesis by (simp add: parse_def Let_def)
qed

lemma parse_object_members:
  assumes "reads_members F t m" "blank w'" "length (CHR ''{'' # t @ CHR ''}'' # w') < 2147483648"
  shows "parse F (CHR ''{'' # t @ CHR ''}'' # w') = Some (Inr (variant_of (AMap (assign_all [] m))))"
proof -
  let ?s = "CHR ''{'' # t @ CHR ''}'' # w'"
  obtain k where k: "parse_fuel ?s = Suc k" "3 * length (t @ CHR ''}'' # w') + 1 \<le> k"
    by (simp add: parse_fuel_def)
  obtain u where "removeWhitespace t = quote # u" using assms(1) by (auto simp: reads_members_def)
  then have u: "removeWhitespace (t @ CHR ''}'' # w') = quote # u @ CHR ''}'' # w'" by (induction t) auto
  have "objectLoop F k [] (removeWhitespace (t @ CHR ''}'' # w')) = pret (assign_all [] m) (removeWhitespace w')"
    by (rule reads_membersD [OF assms(1)]) (use assms(3) k in simp_all)
  then have "parseObject F (parse_fuel ?s) ?s = pret (assign_all [] m) []"
    using assms(2) u unfolding k(1) by (simp add: parseObject.simps Let_def blank_rw)
  then show ?thesis by (simp add: parse_def Let_def)
qed

lemma parse_blank: "blank w \<Longrightarrow> parse F (w @ s) = parse F s"
  by (simp add: parse_def removeWhitespace_append)

lemma json_value_parsed:
  assumes "json_value F t v" "isMap v \<or> isList v" "blank w" "blank w'"
    and "length (t @ w') < 2147483648"
  shows "parse F (w @ t @ w') = Some (Inr v)"
proof -
  have "parse F (t @ w') = Some (Inr v)"
    using assms(1)
  proof cases
    case no_elements
    obtain k where k: "parse_fuel (''[]'' @ w') = Suc (Suc k)" by (simp add: parse_fuel_def)
    show ?thesis using assms(4) k
      by (simp add: no_elements parse_def Let_def parseArray.simps arrayLoop_Suc blank_rw)
  next
    case (array t' l)
    have "reads_elements F t' l" using array(3) by (rule json_reads)
    from parse_array_text [OF this assms(4)] assms(5) show ?thesis by (simp add: array(1,2))
  next
    case (no_members u)
    obtain k where k: "parse_fuel (CHR ''{'' # u @ CHR ''}'' # w') = Suc k" by (simp add: parse_fuel_def)
    show ?thesis using assms(4) k no_members(3)
      by (simp add: no_members(1,2) parse_def Let_def parseObject.simps removeWhitespace_append blank_rw)
  next
    case (object t' m)
    have "reads_members F t' m" using object(3) by (rule json_reads)
    from parse_object_members [OF this assms(4)] assms(5) show ?thesis by (simp add: object(1,2))
  qed (use assms(2) in \<open>simp_all add: is_defs\<close>)
  then show ?thesis unfolding parse_blank [OF assms(3)] .
qed

subsection \<open>Beyond the dialect\<close>

text \<open>
  The dialect is not all that is read.  A comma behind the last element and a missing comma between two
  elements are accepted; an object that is broken off leaves its rest to the list around it, so the
  text \<^verbatim>\<open>[{]\<close> is a list of one empty map; and the plus sign of an exponent makes a text unreadable.
\<close>

lemma parseValue_true:
  fixes F :: "('f, 'd) fp_ops"
  assumes "ends_value rest"
  shows "parseValue F (Suc n) (''true'' @ rest) = pret (variant_of (ABool True)) (removeWhitespace rest)"
  using parseLiteral_text [OF assms, of "''true''", where 'a = 'f and 'b = 'd]
  by (simp add: parseValue.simps isspace_def isdigit_def char_le_nat)

lemma lax_lists:
  "parse F ''[true,]'' = Some (Inr (variant_of (AList [variant_of (ABool True)])))"
  "parse F ''[true true]'' = Some (Inr (variant_of (AList [variant_of (ABool True), variant_of (ABool True)])))"
  "parse F ''[{]'' = Some (Inr (variant_of (AList [variant_of (AMap [])])))"
proof -
  have "parseValue F (Suc n) ''true,]'' = pret (variant_of (ABool True)) '',]''"
    "parseValue F (Suc n) ''true true]'' = pret (variant_of (ABool True)) ''true]''"
    "parseValue F (Suc n) ''true]'' = pret (variant_of (ABool True)) '']''" for n
    using parseValue_true [of "'',]''" F n] parseValue_true [of "'' true]''" F n]
      parseValue_true [of "'']''" F n] by (simp_all add: ends_value_def isspace_def)
  then show "parse F ''[true,]'' = Some (Inr (variant_of (AList [variant_of (ABool True)])))"
    "parse F ''[true true]'' = Some (Inr (variant_of (AList [variant_of (ABool True), variant_of (ABool True)])))"
    by (simp_all add: parse_def parse_fuel_def eval_nat_numeral parseArray.simps arrayLoop_Suc arrayEntry_def
        Let_def isspace_def is_defs)
  show "parse F ''[{]'' = Some (Inr (variant_of (AList [variant_of (AMap [])])))"
    by (simp add: parse_def parse_fuel_def eval_nat_numeral parseArray.simps arrayLoop_Suc arrayEntry_def
        parseValue.simps parseObject.simps Let_def isspace_def isdigit_def char_le_nat is_defs)
qed

lemma exponent_plus_invalid: "parse F ''[1e+2]'' = Some (Inr default_variant)"
  by (simp add: parse_def parse_fuel_def eval_nat_numeral parseArray.simps arrayLoop_Suc arrayEntry_def
      parseValue.simps parseNumber_def parseIntegerPart_def parseInt_def parseNumber_rest_def parseFraction_def
      parseExponent_def parseLiteral_def isalpha_def isupper_def islower_def
      Let_def isspace_def isdigit_def char_le_nat is_defs)

end
