(* ===== verification/JsonGenerator.thy ===== *)
theory JsonGenerator
  imports Variant
begin

text \<open>
  \<^verbatim>\<open>src/brutils/json_generator.cpp\<close>.  Reading a map or a list out of a variant can fail
  (\<open>value_as\<close>), so a generator function returns a text or a fault; for coherent variants
  it never fails.  The formatting of \<^verbatim>\<open>float\<close> and \<^verbatim>\<open>double\<close> by \<^verbatim>\<open>std::ostringstream\<close> is a
  parameter.  The message printed for an empty value is not modelled.
\<close>

record ('f, 'd) fp_show =
  show_float :: "'f \<Rightarrow> string"
  show_double :: "'d \<Rightarrow> string"
  float_0 :: "'f"
  double_0 :: "'d"

subsection \<open>White space\<close>

definition genLineFeed :: string where
  "genLineFeed = [cr, lf]"

fun genTab :: "nat \<Rightarrow> string" where
  "genTab 0 = []"
| "genTab (Suc tabCount) = ''    '' @ genTab tabCount"

definition getWhiteSpace :: "bool \<Rightarrow> nat \<Rightarrow> string" where
  "getWhiteSpace compact depth = (if compact then [] else genLineFeed @ genTab depth)"

subsection \<open>Scalars\<close>

definition genString :: "('f, 'd) variant \<Rightarrow> string res" where
  "genString v =
     (if \<not> isString v then Inr []
      else bindR (toString v) (\<lambda>s. Inr ([quote] @ s @ [quote])))"

definition genNumber :: "('f, 'd) fp_show \<Rightarrow> ('f, 'd) variant \<Rightarrow> string res" where
  "genNumber S number =
     (if isInt number then bindR (toInt number) (\<lambda>i. Inr (show_int (sint i)))
      else if isFloat number then bindR (toFloat (float_0 S) number) (\<lambda>x. Inr (show_float S x))
      else if isDouble number then bindR (toDouble (double_0 S) number) (\<lambda>x. Inr (show_double S x))
      else Inr [])"

definition genLiteral :: "('f, 'd) variant \<Rightarrow> string res" where
  "genLiteral literal =
     (if \<not> isValid literal then Inr []
      else if isNull literal then Inr ''null''
      else if isBool literal then
        bindR (toBool literal) (\<lambda>b. if b then Inr ''true'' else Inr ''false'')
      else Inr [])"

subsection \<open>Objects, arrays and values\<close>

lemma toMap_size: "toMap v = Inr m \<Longrightarrow> size_list (\<lambda>p. size (snd p)) m < size v"
  by (cases v)
     (auto simp: toMap_def value_as_def split: option.splits if_splits elim!: as_map.elims
       intro!: le_imp_less_Suc le_SucI size_list_pointwise)

lemma toList_size: "toList v = Inr l \<Longrightarrow> size_list size l < size v"
  by (cases v)
     (auto simp: toList_def value_as_def split: option.splits if_splits elim!: as_list.elims)

text \<open>
  The range-for loops append to \<open>output\<close>; \<open>strip_comma\<close> is the \<^verbatim>\<open>erase\<close> behind them, which cuts
  the last two characters when anything was appended to the opening bracket.
\<close>

definition strip_comma :: "string \<Rightarrow> string" where
  "strip_comma output = (if length output > 1 then take (length output - 2) output else output)"

function genValue :: "('f, 'd) fp_show \<Rightarrow> ('f, 'd) variant \<Rightarrow> bool \<Rightarrow> nat \<Rightarrow> string res"
  and genObject_loop :: "('f, 'd) fp_show \<Rightarrow> ('f, 'd) variant_map \<Rightarrow> bool \<Rightarrow> nat \<Rightarrow> string \<Rightarrow> string res"
  and genArray_loop :: "('f, 'd) fp_show \<Rightarrow> ('f, 'd) variant_list \<Rightarrow> bool \<Rightarrow> nat \<Rightarrow> string \<Rightarrow> string res"
where
  "genValue S value compact depth =
     (if isValid value \<and> isNull value then genLiteral value
      else if isBool value then genLiteral value
      else if isInt value \<or> isFloat value \<or> isDouble value then genNumber S value
      else if isString value then genString value
      else if isMap value then
        bindR (toMap value) (\<lambda>object.
        bindR (genObject_loop S object compact depth ''{'') (\<lambda>output.
          Inr (strip_comma output @ getWhiteSpace compact depth @ ''}'')))
      else if isList value then
        bindR (toList value) (\<lambda>list.
        bindR (genArray_loop S list compact depth ''['') (\<lambda>output.
          Inr (strip_comma output @ getWhiteSpace compact depth @ '']'')))
      else Inr [])"
| "genObject_loop S [] compact depth output = Inr output"
| "genObject_loop S (item # object) compact depth output =
     bindR (genString (variant_of (AString (fst item)) :: ('f, 'd) variant)) (\<lambda>key.
     bindR (genValue S (snd item) compact (depth + 1)) (\<lambda>val.
       genObject_loop S object compact depth
         (output @ getWhiteSpace compact (depth + 1) @ key @ '': '' @ val @ '', '')))"
| "genArray_loop S [] compact depth output = Inr output"
| "genArray_loop S (element # list) compact depth output =
     bindR (genValue S element compact (depth + 1)) (\<lambda>val.
       genArray_loop S list compact depth
         (output @ getWhiteSpace compact (depth + 1) @ val @ '', ''))"
  by pat_completeness auto
termination
  by (relation "measure (\<lambda>x. case x of
        Inl (S, v, c, d) \<Rightarrow> size v
      | Inr (Inl (S, m, c, d, s)) \<Rightarrow> size_list (\<lambda>p. size (snd p)) m
      | Inr (Inr (S, l, c, d, s)) \<Rightarrow> size_list size l)")
     (auto dest: toMap_size toList_size)

declare genValue.simps [simp del]

definition genObject :: "('f, 'd) fp_show \<Rightarrow> ('f, 'd) variant_map \<Rightarrow> bool \<Rightarrow> nat \<Rightarrow> string res" where
  "genObject S object compact depth =
     bindR (genObject_loop S object compact depth ''{'') (\<lambda>output.
       Inr (strip_comma output @ getWhiteSpace compact depth @ ''}''))"

definition genArray :: "('f, 'd) fp_show \<Rightarrow> ('f, 'd) variant_list \<Rightarrow> bool \<Rightarrow> nat \<Rightarrow> string res" where
  "genArray S list compact depth =
     bindR (genArray_loop S list compact depth ''['') (\<lambda>output.
       Inr (strip_comma output @ getWhiteSpace compact depth @ '']''))"

definition generate :: "('f, 'd) fp_show \<Rightarrow> ('f, 'd) variant \<Rightarrow> bool \<Rightarrow> string res" where
  "generate S json compact = genValue S json compact 0"

end
