(* ===== verification/JsonRoundTrip.thy ===== *)
theory JsonRoundTrip
  imports JsonGrammar JsonGenerator
begin

text \<open>
  The generator and the parser together.  \<open>jsonable\<close> describes the documents that survive
  printing and parsing, \<open>reread\<close> what they come back as: booleans, strings, lists and maps
  as themselves, an \<^verbatim>\<open>int\<close> as a \<^verbatim>\<open>float\<close> computed from the digits of its absolute value.
\<close>

subsection \<open>Documents that survive\<close>

fun jsonable :: "bool \<Rightarrow> ('f, 'd) variant \<Rightarrow> bool"
  and jsonable_any :: "bool \<Rightarrow> ('f, 'd) any \<Rightarrow> bool" where
  "jsonable c (Variant b t x) =
     (case x of
        None \<Rightarrow> False
      | Some y \<Rightarrow> b \<and> t = Some (typeid y) \<and> jsonable_any c y)"
| "jsonable_any c ANull = False"
| "jsonable_any c (ABool _) = True"
| "jsonable_any c (AInt _) = True"
| "jsonable_any c (AFloat _) = False"
| "jsonable_any c (ADouble _) = False"
| "jsonable_any c (AString s) = json_text s"
| "jsonable_any c (AList l) = ((c \<or> l \<noteq> []) \<and> (\<forall>v \<in> set l. jsonable c v))"
| "jsonable_any c (AMap m) =
     (sorted_keys m \<and> (\<forall>p \<in> set m. json_text (fst p) \<and> jsonable c (snd p)))"

definition reread_int :: "('f, 'd) fp_ops \<Rightarrow> int \<Rightarrow> 'f" where
  "reread_int F i = (if i = 0 then f_of_int F 0 else digits_float F (show_nat (nat \<bar>i\<bar>)))"

fun reread :: "('f, 'd) fp_ops \<Rightarrow> ('f, 'd) variant \<Rightarrow> ('f, 'd) variant"
  and reread_any :: "('f, 'd) fp_ops \<Rightarrow> ('f, 'd) any \<Rightarrow> ('f, 'd) any" where
  "reread F (Variant b t x) =
     (case x of None \<Rightarrow> Variant b t None | Some y \<Rightarrow> variant_of (reread_any F y))"
| "reread_any F (AInt i) = AFloat (reread_int F (sint i))"
| "reread_any F (AList l) = AList (map (reread F) l)"
| "reread_any F (AMap m) = AMap (map (\<lambda>p. (fst p, reread F (snd p))) m)"
| "reread_any F x = x"

lemma jsonable_cases:
  assumes "jsonable c v"
  obtains t where "v = variant_of t" "jsonable_any c t"
  using assms
  by (cases v) (auto simp: variant_of_def setValue_def default_variant_def split: option.splits)

lemma jsonable_variant_of [simp]: "jsonable c (variant_of t) \<longleftrightarrow> jsonable_any c t"
  by (simp add: variant_of_def setValue_def default_variant_def)

lemma reread_variant_of [simp]: "reread F (variant_of t) = variant_of (reread_any F t)"
  by (simp add: variant_of_def setValue_def default_variant_def)

lemma reread_container:
  "isMap (variant_of (reread_any F t)) = isMap (variant_of t)"
  "isList (variant_of (reread_any F t)) = isList (variant_of t)"
  by (cases t; simp add: is_defs)+

subsection \<open>Scalars\<close>

lemma show_nat_digits: "\<forall>c \<in> set (show_nat n). isdigit c"
proof (induction n rule: show_nat.induct)
  case (1 n)
  have d: "isdigit (digit_char m)" if "m < 10" for m
    using that by (simp add: isdigit_def digit_char_def char_le_nat)
  show ?case
    by (subst show_nat.simps) (use "1.IH" d in auto)
qed

lemma show_nat_nonempty [simp]: "show_nat n \<noteq> []"
  by (subst show_nat.simps) simp

lemma hd_show_nat: "0 < n \<Longrightarrow> hd (show_nat n) \<noteq> CHR ''0''"
proof (induction n rule: show_nat.induct)
  case (1 n)
  have "digit_char m \<noteq> CHR ''0''" if "0 < m" "m < 10" for m
  proof
    assume "digit_char m = CHR ''0''"
    then have "(of_char (digit_char m) :: nat) = of_char (CHR ''0'')" by simp
    with that show False by (simp add: digit_char_def)
  qed
  with 1 show ?case by (subst show_nat.simps) auto
qed

lemma show_nat_0: "show_nat 0 = ''0''"
  by (simp add: show_nat.simps digit_char_def char_of_eq_iff)

subsection \<open>The text of a list and of a map\<close>

definition val_text :: "('f, 'd) fp_show \<Rightarrow> bool \<Rightarrow> nat \<Rightarrow> ('f, 'd) variant \<Rightarrow> string" where
  "val_text S c d v = (case genValue S v c d of Inr t \<Rightarrow> t | Inl _ \<Rightarrow> [])"

definition entry_text ::
  "('f, 'd) fp_show \<Rightarrow> bool \<Rightarrow> nat \<Rightarrow> string \<times> ('f, 'd) variant \<Rightarrow> string" where
  "entry_text S c d p =
     [quote] @ fst p @ [quote] @ '': '' @ val_text S c (d + 1) (snd p)"

text \<open>The elements \<open>f x\<close> separated by commas, then the closing bracket.\<close>

fun sep_text :: "bool \<Rightarrow> nat \<Rightarrow> string \<Rightarrow> ('a \<Rightarrow> string) \<Rightarrow> 'a list \<Rightarrow> string" where
  "sep_text c d close f [] = getWhiteSpace c d @ close"
| "sep_text c d close f [x] = getWhiteSpace c (d + 1) @ f x @ getWhiteSpace c d @ close"
| "sep_text c d close f (x # y # xs) =
     getWhiteSpace c (d + 1) @ f x @ '', '' @ sep_text c d close f (y # xs)"

lemma sep_text_concat:
  "xs \<noteq> [] \<Longrightarrow> \<exists>b. concat (map (\<lambda>x. getWhiteSpace c (d + 1) @ f x @ '', '') xs) = b @ '', '' \<and>
      sep_text c d close f xs = b @ getWhiteSpace c d @ close"
proof (induction c d close f xs rule: sep_text.induct)
  case (3 c d close f x y xs)
  then obtain b where "concat (map (\<lambda>x. getWhiteSpace c (d + 1) @ f x @ '', '') (y # xs)) = b @ '', ''"
    "sep_text c d close f (y # xs) = b @ getWhiteSpace c d @ close" by auto
  then show ?case
    by (intro exI [of _ "getWhiteSpace c (d + 1) @ f x @ '', '' @ b"]) simp
qed auto

lemma strip_sep_text:
  "strip_comma ([o'] @ concat (map (\<lambda>x. getWhiteSpace c (d + 1) @ f x @ '', '') xs))
     @ getWhiteSpace c d @ close = [o'] @ sep_text c d close f xs"
proof (cases "xs = []")
  case False
  from sep_text_concat [OF this, of c d f close] show ?thesis
    by (auto simp: strip_comma_def)
qed (simp add: strip_comma_def)

lemma genObject_loop_text:
  "\<forall>p \<in> set m. genValue S (snd p) c (d + 1) = Inr (val_text S c (d + 1) (snd p)) \<Longrightarrow>
   genObject_loop S m c d out =
     Inr (out @ concat (map (\<lambda>p. getWhiteSpace c (d + 1) @ entry_text S c d p @ '', '') m))"
  by (induction m arbitrary: out) (simp_all add: genString_def isString_def entry_text_def)

lemma genArray_loop_text:
  "\<forall>v \<in> set l. genValue S v c (d + 1) = Inr (val_text S c (d + 1) v) \<Longrightarrow>
   genArray_loop S l c d out =
     Inr (out @ concat (map (\<lambda>v. getWhiteSpace c (d + 1) @ val_text S c (d + 1) v @ '', '') l))"
  by (induction l arbitrary: out) simp_all

lemma genObject_text:
  "\<forall>p \<in> set m. genValue S (snd p) c (d + 1) = Inr (val_text S c (d + 1) (snd p)) \<Longrightarrow>
   genObject S m c d = Inr ([CHR ''{''] @ sep_text c d ''}'' (entry_text S c d) m)"
  using strip_sep_text [of "CHR ''{''" c d "entry_text S c d" m "''}''"]
  by (simp add: genObject_def genObject_loop_text)

lemma genArray_text:
  "\<forall>v \<in> set l. genValue S v c (d + 1) = Inr (val_text S c (d + 1) v) \<Longrightarrow>
   genArray S l c d = Inr ([CHR ''[''] @ sep_text c d '']'' (val_text S c (d + 1)) l)"
  using strip_sep_text [of "CHR ''[''" c d "val_text S c (d + 1)" l "'']''"]
  by (simp add: genArray_def genArray_loop_text)

lemma genValue_AMap [simp]: "genValue S (variant_of (AMap m)) c d = genObject S m c d"
  by (simp add: genValue.simps genObject_def is_defs)

lemma genValue_AList [simp]: "genValue S (variant_of (AList l)) c d = genArray S l c d"
  by (simp add: genValue.simps genArray_def is_defs)

lemma genValue_scalars [simp]:
  "genValue S (variant_of (ABool b)) c d = Inr (if b then ''true'' else ''false'')"
  "genValue S (variant_of (AInt i)) c d = Inr (show_int (sint i))"
  "genValue S (variant_of (AString s)) c d = Inr ([quote] @ s @ [quote])"
  by (simp_all add: genValue.simps is_defs genLiteral_def genNumber_def genString_def to_defs)

subsection \<open>Printed texts in the dialect\<close>

lemma genTab_space: "\<forall>c \<in> set (genTab n). isspace c"
  by (induction n) auto

lemma getWhiteSpace_space: "\<forall>x \<in> set (getWhiteSpace c d). isspace x"
  using genTab_space by (auto simp: getWhiteSpace_def genLineFeed_def)

text \<open>The entries as they come back.\<close>

definition reread_entries ::
  "('f, 'd) fp_ops \<Rightarrow> ('f, 'd) variant_map \<Rightarrow> ('f, 'd) variant_map" where
  "reread_entries F m = map (\<lambda>p. (fst p, reread F (snd p))) m"

lemma reread_entries_simps [simp]:
  "reread_entries F [] = []"
  "reread_entries F (p # m) = (fst p, reread F (snd p)) # reread_entries F m"
  by (simp_all add: reread_entries_def)

lemma sorted_reread_entries [simp]: "sorted_keys (reread_entries F m) \<longleftrightarrow> sorted_keys m"
  by (induction m) (auto simp: reread_entries_def)

lemma size_list_element:
  "v \<in> set l \<Longrightarrow> size v < size (variant_of (AList l))"
  by (auto simp: variant_of_def setValue_def default_variant_def dest: size_list_estimation' [where f = size])

lemma size_map_element:
  "p \<in> set m \<Longrightarrow> size (snd p) < size (variant_of (AMap m))"
proof -
  assume "p \<in> set m"
  then have "size (snd p) \<le> size_list (\<lambda>p. size (snd p)) m"
    by (rule size_list_estimation') simp
  also have "\<dots> < size (variant_of (AMap m))"
    by (rule toMap_size) simp
  finally show ?thesis .
qed

lemma jsonable_induct [consumes 1, case_names map list scalar]:
  assumes "jsonable c v"
    and "\<And>m. jsonable c (variant_of (AMap m)) \<Longrightarrow> (\<And>p. p \<in> set m \<Longrightarrow> Q (snd p)) \<Longrightarrow> Q (variant_of (AMap m))"
    and "\<And>l. jsonable c (variant_of (AList l)) \<Longrightarrow> (\<And>w. w \<in> set l \<Longrightarrow> Q w) \<Longrightarrow> Q (variant_of (AList l))"
    and "\<And>t. jsonable c (variant_of t) \<Longrightarrow> \<not> isMap (variant_of t) \<Longrightarrow> \<not> isList (variant_of t) \<Longrightarrow> Q (variant_of t)"
  shows "Q v"
  using assms(1)
proof (induction v rule: measure_induct_rule [where f = size])
  case (less v)
  from less.prems obtain t where t: "v = variant_of t" "jsonable_any c t" by (rule jsonable_cases)
  show ?case
  proof (cases t)
    case (AMap m)
    with t less.IH size_map_element [of _ m] show ?thesis by (auto intro!: assms(2))
  next
    case (AList l)
    with t less.IH size_list_element [of _ l] show ?thesis by (auto intro!: assms(3))
  qed (use t in \<open>auto intro!: assms(4) simp: is_defs\<close>)
qed

definition printed ::
  "('f, 'd) fp_ops \<Rightarrow> ('f, 'd) fp_show \<Rightarrow> bool \<Rightarrow> nat \<Rightarrow> ('f, 'd) variant \<Rightarrow> bool" where
  "printed F S c d v \<longleftrightarrow>
     genValue S v c d = Inr (val_text S c d v) \<and> json_value F (val_text S c d v) (reread F v)"

lemma printedI: "genValue S v c d = Inr t \<Longrightarrow> json_value F t (reread F v) \<Longrightarrow> printed F S c d v"
  by (simp add: printed_def val_text_def)

lemma elements_blank: "json_elements F t l \<Longrightarrow> blank w \<Longrightarrow> json_elements F (w @ t) l"
proof (erule json_elements.cases)
  fix w1 t' v w2
  assume "blank w" "t = w1 @ t' @ w2" "l = [v]" "blank w1" "json_value F t' v" "blank w2"
  then show "json_elements F (w @ t) l" using one_element [of "w @ w1" F t' v w2] by (simp add: ball_Un)
next
  fix w1 t' v w2 u l'
  assume "blank w" "t = w1 @ t' @ w2 @ CHR '','' # u" "l = v # l'" "blank w1" "json_value F t' v" "blank w2"
    "json_elements F u l'"
  then show "json_elements F (w @ t) l" using element [of "w @ w1" F t' v w2 u l'] by (simp add: ball_Un)
qed

lemma members_blank: "json_members F t m \<Longrightarrow> blank w \<Longrightarrow> json_members F (w @ t) m"
proof (erule json_members.cases)
  fix w1 k w2 w3 t' v w4
  assume "blank w" "t = w1 @ quote # k @ quote # w2 @ CHR '':'' # w3 @ t' @ w4" "m = [(k, v)]" "blank w1"
    "json_text k" "blank w2" "blank w3" "json_value F t' v" "blank w4"
  then show "json_members F (w @ t) m" using one_member [of "w @ w1" k w2 w3 F t' v w4] by (simp add: ball_Un)
next
  fix w1 k w2 w3 t' v w4 u m'
  assume "blank w" "t = w1 @ quote # k @ quote # w2 @ CHR '':'' # w3 @ t' @ w4 @ CHR '','' # u" "m = (k, v) # m'"
    "blank w1" "json_text k" "blank w2" "blank w3" "json_value F t' v" "blank w4" "json_members F u m'"
  then show "json_members F (w @ t) m" using member [of "w @ w1" k w2 w3 F t' v w4 u m'] by (simp add: ball_Un)
qed

lemma printed_elements:
  assumes "l \<noteq> []" "\<forall>v \<in> set l. printed F S c (d + 1) v"
  shows "\<exists>t. sep_text c d '']'' (val_text S c (d + 1)) l = t @ '']'' \<and> json_elements F t (map (reread F) l)"
  using assms
proof (induction c d "'']''" "val_text S c (d + 1)" l rule: sep_text.induct)
  case (2 c d v)
  then show ?case
    using one_element [OF getWhiteSpace_space, of F "val_text S c (d + 1) v" "reread F v" "getWhiteSpace c d" c "d + 1"]
      getWhiteSpace_space [of c d]
    by (auto simp: printed_def)
next
  case (3 c d v w l)
  then obtain t where t: "sep_text c d '']'' (val_text S c (d + 1)) (w # l) = t @ '']''"
    "json_elements F t (map (reread F) (w # l))" by auto
  have "json_elements F ('' '' @ t) (map (reread F) (w # l))" using t(2) by (rule elements_blank) simp
  then have "json_elements F (getWhiteSpace c (d + 1) @ val_text S c (d + 1) v @ [] @ CHR '','' # '' '' @ t)
      (reread F v # map (reread F) (w # l))"
    using 3 by (intro element getWhiteSpace_space) (simp_all add: printed_def)
  with t(1) show ?case by (intro exI [of _ "getWhiteSpace c (d + 1) @ val_text S c (d + 1) v @ '', '' @ t"]) simp
qed simp

lemma printed_members:
  assumes "m \<noteq> []" "\<forall>p \<in> set m. printed F S c (d + 1) (snd p) \<and> json_text (fst p)"
  shows "\<exists>t. sep_text c d ''}'' (entry_text S c d) m = t @ ''}'' \<and> json_members F t (reread_entries F m)"
  using assms
proof (induction c d "''}''" "entry_text S c d" m rule: sep_text.induct)
  case (2 c d p)
  then have "json_members F (getWhiteSpace c (d + 1) @ quote # fst p @ quote # [] @ CHR '':'' #
      '' '' @ val_text S c (d + 1) (snd p) @ getWhiteSpace c d) [(fst p, reread F (snd p))]"
    by (intro one_member getWhiteSpace_space) (simp_all add: printed_def)
  then show ?case
    by (intro exI [of _ "getWhiteSpace c (d + 1) @ entry_text S c d p @ getWhiteSpace c d"]) (simp add: entry_text_def)
next
  case (3 c d p q m)
  then obtain t where t: "sep_text c d ''}'' (entry_text S c d) (q # m) = t @ ''}''"
    "json_members F t (reread_entries F (q # m))" by auto
  have "json_members F ('' '' @ t) (reread_entries F (q # m))" using t(2) by (rule members_blank) simp
  then have "json_members F (getWhiteSpace c (d + 1) @ quote # fst p @ quote # [] @ CHR '':'' #
      '' '' @ val_text S c (d + 1) (snd p) @ [] @ CHR '','' # '' '' @ t)
      ((fst p, reread F (snd p)) # reread_entries F (q # m))"
    using 3 by (intro member getWhiteSpace_space) (simp_all add: printed_def)
  with t(1) show ?case
    by (intro exI [of _ "getWhiteSpace c (d + 1) @ entry_text S c d p @ '', '' @ t"]) (simp add: entry_text_def)
qed simp

lemma printed_object:
  assumes "\<forall>p \<in> set m. printed F S c (d + 1) (snd p) \<and> json_text (fst p)" "genObject S m c d = Inr t"
  shows "json_value F t (variant_of (AMap (assign_all [] (reread_entries F m))))"
proof -
  have t: "t = CHR ''{'' # sep_text c d ''}'' (entry_text S c d) m"
    using genObject_text [of m S c d] assms by (simp add: printed_def)
  show ?thesis
  proof (cases "m = []")
    case True
    with t no_members [OF getWhiteSpace_space] show ?thesis by simp
  next
    case False
    from printed_members [OF this assms(1)] t object show ?thesis by fastforce
  qed
qed

lemma show_int_parts:
  obtains s where "show_int i = s @ show_nat (nat \<bar>i\<bar>)" "s = [] \<or> s = ''-''" "int_text (show_nat (nat \<bar>i\<bar>))"
    "int_value F (show_nat (nat \<bar>i\<bar>)) = reread_int F i"
proof -
  let ?ds = "show_nat (nat \<bar>i\<bar>)"
  have "int_text ?ds"
    using show_nat_digits hd_show_nat [of "nat \<bar>i\<bar>"] by (cases "i = 0") (auto simp: int_text_def show_nat_0)
  moreover have "?ds = ''0'' \<longleftrightarrow> i = 0"
    using hd_show_nat [of "nat \<bar>i\<bar>"] by (cases "i = 0") (auto simp: show_nat_0)
  moreover have "show_int i = (if i < 0 then ''-'' else []) @ ?ds" by (simp add: show_int_def)
  ultimately show thesis
    using that [of "if i < 0 then ''-'' else []"] by (simp add: int_value_def reread_int_def)
qed

lemma show_int_text: "json_number F (show_int i) (reread_int F i)"
proof -
  obtain s where "show_int i = s @ show_nat (nat \<bar>i\<bar>)" "s = [] \<or> s = ''-''" "int_text (show_nat (nat \<bar>i\<bar>))"
    "int_value F (show_nat (nat \<bar>i\<bar>)) = reread_int F i" by (rule show_int_parts)
  with plain [of "show_nat (nat \<bar>i\<bar>)" s F] show ?thesis by simp
qed

lemma parseNumber_show:
  assumes "ends_value rest"
  shows "parseNumber F (show_int i @ rest) = pret (variant_of (AFloat (reread_int F i))) (removeWhitespace rest)"
proof -
  obtain s where "show_int i = s @ show_nat (nat \<bar>i\<bar>)" "s = [] \<or> s = ''-''" "int_text (show_nat (nat \<bar>i\<bar>))"
    "int_value F (show_nat (nat \<bar>i\<bar>)) = reread_int F i" by (rule show_int_parts)
  with parseNumber_plain [OF _ _ assms, of "show_nat (nat \<bar>i\<bar>)" s F] show ?thesis by simp
qed

lemma jsonable_printed: "jsonable c v \<Longrightarrow> printed F S c d v"
proof (induction arbitrary: d rule: jsonable_induct)
  case (map m)
  obtain t where t: "genObject S m c d = Inr t"
    using genObject_text [of m S c d] map(2) by (auto simp: printed_def)
  have "assign_all [] (reread_entries F m) = reread_entries F m" using map(1) by (simp add: assign_all_sorted)
  with printed_object [OF _ t, of F] map t show ?case
    by (intro printedI [of _ _ _ _ t]) (auto simp: reread_entries_def)
next
  case (list l)
  have t: "genValue S (variant_of (AList l)) c d = Inr (CHR ''['' # sep_text c d '']'' (val_text S c (d + 1)) l)"
    using genArray_text [of l S c d] list(2) by (simp add: printed_def)
  show ?case
  proof (cases "l = []")
    case True
    with list(1) t no_elements [of F] show ?thesis by (intro printedI [OF t]) (simp add: getWhiteSpace_def)
  next
    case False
    have "\<forall>w \<in> set l. printed F S c (d + 1) w" using list(2) by blast
    from printed_elements [OF False this] array show ?thesis by (intro printedI [OF t]) fastforce
  qed
next
  case (scalar t)
  then show ?case
    by (cases t) (auto intro!: printedI intro: true false number [OF show_int_text] string [simplified] simp: is_defs)
qed

text \<open>The text of a document and of an object with repeated keys.\<close>

lemma generated_text:
  assumes "jsonable c v"
  shows "\<exists>t. generate S v c = Inr t \<and> json_value F t (reread F v)"
  using jsonable_printed [OF assms, of F S 0] by (auto simp: printed_def generate_def)

fun no_ints :: "('f, 'd) variant \<Rightarrow> bool"
  and no_ints_any :: "('f, 'd) any \<Rightarrow> bool" where
  "no_ints (Variant b t x) = (case x of None \<Rightarrow> True | Some y \<Rightarrow> no_ints_any y)"
| "no_ints_any (AInt _) = False"
| "no_ints_any (AList l) = (\<forall>v \<in> set l. no_ints v)"
| "no_ints_any (AMap m) = (\<forall>p \<in> set m. no_ints (snd p))"
| "no_ints_any _ = True"

lemma no_ints_variant_of [simp]: "no_ints (variant_of t) = no_ints_any t"
  by (simp add: variant_of_def setValue_def default_variant_def)

lemma reread_id: "jsonable c v \<Longrightarrow> no_ints v \<Longrightarrow> reread F v = v"
proof (induction rule: jsonable_induct)
  case (map m)
  then have "map (\<lambda>p. (fst p, reread F (snd p))) m = map id m" by (intro map_cong) auto
  then show ?case by simp
next
  case (list l)
  then have "map (reread F) l = map id l" by (intro map_cong) auto
  then show ?case by simp
next
  case (scalar t)
  then show ?case by (cases t) (simp_all add: is_defs)
qed

end
