(* ===== verification/JsonSyntax.thy ===== *)
theory JsonSyntax
  imports JsonRoundTrip Complex_Main
begin

text \<open>
  JSON as RFC 8259 defines it, without reference to the program: the concrete syntax trees with
  their white space, escapes and signs (\<open>json_tree\<close>), the text of a tree (\<open>unparse\<close>), the trees the
  grammar of the RFC allows (\<open>wf_tree\<close>), and what a tree means (\<open>tree_value\<close>, with numbers as the
  rationals \<open>numeral_value\<close> and strings with their escapes decoded).  A byte above 127 stands for
  itself in a string: that the bytes form UTF-8 is not asked.

  Two results tie the program to it.  \<open>tree_text_parsed\<close>: the text of a tree in the part of the grammar
  the parser knows (\<open>known\<close>) is read as the tree that \<open>as_read\<close> makes of it.  \<open>document_printed\<close>: what
  the generator prints is the text of a tree that means the document.
\<close>

subsection \<open>Concrete syntax\<close>

datatype exp_sign = NoSign | PlusSign | MinusSign

datatype json_numeral = Numeral
  (negative: bool) (int_digits: string) (frac_digits: "string option")
  (exponent: "(char \<times> exp_sign \<times> string) option")

datatype json_char =
    Plain char
  | Escape char        \<comment> \<open>a backslash and the character\<close>
  | Unicode string     \<comment> \<open>a backslash, \<^verbatim>\<open>u\<close> and four digits\<close>

datatype json_tree =
    JNull
  | JBool bool
  | JNumber json_numeral
  | JString "json_char list"
  | JArray string "json_element list"   \<comment> \<open>white space behind the bracket, the elements\<close>
  | JObject string "json_member list"
and json_element = Element string json_tree string
and json_member = Member string "json_char list" string string json_tree string

subsection \<open>The text of a tree\<close>

fun sign_text :: "exp_sign \<Rightarrow> string" where
  "sign_text NoSign = []"
| "sign_text PlusSign = ''+''"
| "sign_text MinusSign = ''-''"

definition frac_text :: "json_numeral \<Rightarrow> string" where
  "frac_text n = (case frac_digits n of None \<Rightarrow> [] | Some ds \<Rightarrow> CHR ''.'' # ds)"

definition exp_text :: "json_numeral \<Rightarrow> string" where
  "exp_text n = (case exponent n of None \<Rightarrow> [] | Some (c, s, ds) \<Rightarrow> c # sign_text s @ ds)"

definition numeral_text :: "json_numeral \<Rightarrow> string" where
  "numeral_text n = (if negative n then ''-'' else []) @ int_digits n @ frac_text n @ exp_text n"

fun char_text :: "json_char \<Rightarrow> string" where
  "char_text (Plain c) = [c]"
| "char_text (Escape c) = [backslash, c]"
| "char_text (Unicode h) = backslash # CHR ''u'' # h"

definition string_text :: "json_char list \<Rightarrow> string" where
  "string_text cs = concat (map char_text cs)"

fun commas :: "string list \<Rightarrow> string" where
  "commas [] = []"
| "commas [x] = x"
| "commas (x # y # xs) = x @ CHR '','' # commas (y # xs)"

fun unparse :: "json_tree \<Rightarrow> string"
  and element_text :: "json_element \<Rightarrow> string"
  and member_text :: "json_member \<Rightarrow> string" where
  "unparse JNull = ''null''"
| "unparse (JBool b) = (if b then ''true'' else ''false'')"
| "unparse (JNumber n) = numeral_text n"
| "unparse (JString cs) = quote # string_text cs @ [quote]"
| "unparse (JArray w es) = CHR ''['' # w @ commas (map element_text es) @ '']''"
| "unparse (JObject w ms) = CHR ''{'' # w @ commas (map member_text ms) @ ''}''"
| "element_text (Element w1 t w2) = w1 @ unparse t @ w2"
| "member_text (Member w1 k w2 w3 t w4) =
     w1 @ quote # string_text k @ quote # w2 @ CHR '':'' # w3 @ unparse t @ w4"

subsection \<open>The grammar\<close>

definition ws :: "string \<Rightarrow> bool" where
  "ws w \<longleftrightarrow> (\<forall>c \<in> set w. c = CHR '' '' \<or> c = CHR 0x09 \<or> c = lf \<or> c = cr)"

definition dec_digit :: "char \<Rightarrow> bool" where
  "dec_digit c \<longleftrightarrow> CHR ''0'' \<le> c \<and> c \<le> CHR ''9''"

definition hex_char :: "char \<Rightarrow> bool" where
  "hex_char c \<longleftrightarrow> dec_digit c \<or> (CHR ''a'' \<le> c \<and> c \<le> CHR ''f'') \<or> (CHR ''A'' \<le> c \<and> c \<le> CHR ''F'')"

definition dec_digits :: "string \<Rightarrow> bool" where
  "dec_digits ds \<longleftrightarrow> ds \<noteq> [] \<and> (\<forall>c \<in> set ds. dec_digit c)"

definition wf_numeral :: "json_numeral \<Rightarrow> bool" where
  "wf_numeral n \<longleftrightarrow> dec_digits (int_digits n) \<and> (hd (int_digits n) = CHR ''0'' \<longrightarrow> int_digits n = ''0'') \<and>
     (case frac_digits n of None \<Rightarrow> True | Some ds \<Rightarrow> dec_digits ds) \<and>
     (case exponent n of None \<Rightarrow> True | Some (c, s, ds) \<Rightarrow> (c = CHR ''e'' \<or> c = CHR ''E'') \<and> dec_digits ds)"

fun wf_char :: "json_char \<Rightarrow> bool" where
  "wf_char (Plain c) = ((of_char c :: nat) \<ge> 32 \<and> c \<noteq> quote \<and> c \<noteq> backslash)"
| "wf_char (Escape c) = (c \<in> {quote, backslash, CHR ''/'', CHR ''b'', CHR ''f'', CHR ''n'', CHR ''r'', CHR ''t''})"
| "wf_char (Unicode h) = (length h = 4 \<and> (\<forall>c \<in> set h. hex_char c))"

fun wf_tree :: "json_tree \<Rightarrow> bool"
  and wf_element :: "json_element \<Rightarrow> bool"
  and wf_member :: "json_member \<Rightarrow> bool" where
  "wf_tree JNull = True"
| "wf_tree (JBool b) = True"
| "wf_tree (JNumber n) = wf_numeral n"
| "wf_tree (JString cs) = (\<forall>c \<in> set cs. wf_char c)"
| "wf_tree (JArray w es) = (ws w \<and> (\<forall>e \<in> set es. wf_element e))"
| "wf_tree (JObject w ms) = (ws w \<and> (\<forall>m \<in> set ms. wf_member m))"
| "wf_element (Element w1 t w2) = (ws w1 \<and> wf_tree t \<and> ws w2)"
| "wf_member (Member w1 k w2 w3 t w4) =
     (ws w1 \<and> (\<forall>c \<in> set k. wf_char c) \<and> ws w2 \<and> ws w3 \<and> wf_tree t \<and> ws w4)"

subsection \<open>The meaning of a tree\<close>

fun decimal :: "string \<Rightarrow> nat" where
  "decimal [] = 0"
| "decimal (c # ds) = (of_char c - 48) * 10 ^ length ds + decimal ds"

definition numeral_value :: "json_numeral \<Rightarrow> rat" where
  "numeral_value n =
     (if negative n then - 1 else 1) *
     (of_nat (decimal (int_digits n)) +
       (case frac_digits n of None \<Rightarrow> 0 | Some ds \<Rightarrow> of_nat (decimal ds) / 10 ^ length ds)) *
     (case exponent n of None \<Rightarrow> 1
      | Some (c, s, ds) \<Rightarrow> if s = MinusSign then 1 / 10 ^ decimal ds else 10 ^ decimal ds)"

text \<open>The bytes of a code point, and the strings with their escapes decoded.\<close>

definition utf8 :: "nat \<Rightarrow> string" where
  "utf8 n = map char_of
     (if n < 128 then [n]
      else if n < 2048 then [192 + n div 64, 128 + n mod 64]
      else if n < 65536 then [224 + n div 4096, 128 + n div 64 mod 64, 128 + n mod 64]
      else [240 + n div 262144, 128 + n div 4096 mod 64, 128 + n div 64 mod 64, 128 + n mod 64])"

definition hex_digit :: "char \<Rightarrow> nat" where
  "hex_digit c = (let n = of_char c in if n < 58 then n - 48 else if n < 71 then n - 55 else n - 87)"

definition code_unit :: "string \<Rightarrow> nat" where
  "code_unit h = foldl (\<lambda>n c. 16 * n + hex_digit c) 0 h"

fun escaped_char :: "char \<Rightarrow> char" where
  "escaped_char c =
     (if c = CHR ''b'' then CHR 0x08 else if c = CHR ''f'' then CHR 0x0C else if c = CHR ''n'' then lf
      else if c = CHR ''r'' then cr else if c = CHR ''t'' then CHR 0x09 else c)"

definition high_surrogate :: "nat \<Rightarrow> bool" where
  "high_surrogate n \<longleftrightarrow> 55296 \<le> n \<and> n < 56320"

definition low_surrogate :: "nat \<Rightarrow> bool" where
  "low_surrogate n \<longleftrightarrow> 56320 \<le> n \<and> n < 57344"

fun string_value :: "json_char list \<Rightarrow> string" where
  "string_value [] = []"
| "string_value (Plain c # cs) = c # string_value cs"
| "string_value (Escape c # cs) = escaped_char c # string_value cs"
| "string_value (Unicode g # Unicode h # cs) =
     (if high_surrogate (code_unit g) \<and> low_surrogate (code_unit h)
      then utf8 (65536 + 1024 * (code_unit g - 55296) + (code_unit h - 56320)) @ string_value cs
      else utf8 (code_unit g) @ string_value (Unicode h # cs))"
| "string_value (Unicode g # cs) = utf8 (code_unit g) @ string_value cs"

text \<open>
  The document of a tree, with the value of its numbers as a parameter.  Of the members of an
  object with the same name the last one counts.
\<close>

fun tree_value :: "(json_numeral \<Rightarrow> 'f) \<Rightarrow> json_tree \<Rightarrow> ('f, 'd) variant"
  and element_value :: "(json_numeral \<Rightarrow> 'f) \<Rightarrow> json_element \<Rightarrow> ('f, 'd) variant"
  and member_value :: "(json_numeral \<Rightarrow> 'f) \<Rightarrow> json_member \<Rightarrow> string \<times> ('f, 'd) variant" where
  "tree_value f JNull = variant_of ANull"
| "tree_value f (JBool b) = variant_of (ABool b)"
| "tree_value f (JNumber n) = variant_of (AFloat (f n))"
| "tree_value f (JString cs) = variant_of (AString (string_value cs))"
| "tree_value f (JArray w es) = variant_of (AList (map (element_value f) es))"
| "tree_value f (JObject w ms) = variant_of (AMap (assign_all [] (map (member_value f) ms)))"
| "element_value f (Element w1 t w2) = tree_value f t"
| "member_value f (Member w1 k w2 w3 t w4) = (string_value k, tree_value f t)"

subsection \<open>What the parser reads\<close>

text \<open>
  The part of the grammar the parser knows: no plus sign in an exponent, no escaped quote and no
  backslash escaped at the end of a string, no white space in an empty array.
\<close>

definition known_numeral :: "json_numeral \<Rightarrow> bool" where
  "known_numeral n \<longleftrightarrow> (case exponent n of None \<Rightarrow> True | Some (c, s, ds) \<Rightarrow> s \<noteq> PlusSign)"

definition known_string :: "json_char list \<Rightarrow> bool" where
  "known_string cs \<longleftrightarrow> Escape quote \<notin> set cs \<and> (cs = [] \<or> last cs \<noteq> Escape backslash)"

fun known :: "json_tree \<Rightarrow> bool"
  and known_element :: "json_element \<Rightarrow> bool"
  and known_member :: "json_member \<Rightarrow> bool" where
  "known JNull = True"
| "known (JBool b) = True"
| "known (JNumber n) = known_numeral n"
| "known (JString cs) = known_string cs"
| "known (JArray w es) = ((es = [] \<longrightarrow> w = []) \<and> (\<forall>e \<in> set es. known_element e))"
| "known (JObject w ms) = (\<forall>m \<in> set ms. known_member m)"
| "known_element (Element w1 t w2) = known t"
| "known_member (Member w1 k w2 w3 t w4) = (known_string k \<and> known t)"

text \<open>
  The tree the parser takes a tree for: no escape is decoded, so that a string is the characters
  between its quotes, and a number without fraction and exponent loses its minus sign.
\<close>

definition plain_integer :: "json_numeral \<Rightarrow> bool" where
  "plain_integer n \<longleftrightarrow> frac_digits n = None \<and> exponent n = None"

definition numeral_as_read :: "json_numeral \<Rightarrow> json_numeral" where
  "numeral_as_read n = (if plain_integer n then Numeral False (int_digits n) None None else n)"

definition string_as_read :: "json_char list \<Rightarrow> json_char list" where
  "string_as_read cs = map Plain (string_text cs)"

fun as_read :: "json_tree \<Rightarrow> json_tree"
  and element_as_read :: "json_element \<Rightarrow> json_element"
  and member_as_read :: "json_member \<Rightarrow> json_member" where
  "as_read JNull = JNull"
| "as_read (JBool b) = JBool b"
| "as_read (JNumber n) = JNumber (numeral_as_read n)"
| "as_read (JString cs) = JString (string_as_read cs)"
| "as_read (JArray w es) = JArray w (map element_as_read es)"
| "as_read (JObject w ms) = JObject w (map member_as_read ms)"
| "element_as_read (Element w1 t w2) = Element w1 (as_read t) w2"
| "member_as_read (Member w1 k w2 w3 t w4) = Member w1 (string_as_read k) w2 w3 (as_read t) w4"

text \<open>The value of a number in floating-point arithmetic: the sums and products of the parser.\<close>

definition float_numeral :: "('f, 'd) fp_ops \<Rightarrow> json_numeral \<Rightarrow> 'f" where
  "float_numeral F n =
     (if plain_integer n then int_value F (int_digits n)
      else f_mul F (apply_exponent F (add_fraction_text F (int_value F (int_digits n)) (frac_text n)) (exp_text n))
        (f_of_int F (if negative n then - 1 else 1)))"

lemma ws_blank: "ws w \<Longrightarrow> blank w"
  unfolding ws_def isspace_def by blast

lemma dec_digits_isdigit: "dec_digits ds \<Longrightarrow> digits ds"
  by (simp add: dec_digits_def dec_digit_def isdigit_def)

lemma hex_char_plain: "hex_char c \<Longrightarrow> c \<noteq> quote \<and> c \<noteq> backslash"
  by (auto simp: hex_char_def dec_digit_def char_le_nat)

lemma char_text_quote: "wf_char c \<Longrightarrow> c \<noteq> Escape quote \<Longrightarrow> quote \<notin> set (char_text c)"
  using hex_char_plain by (cases c) fastforce+

lemma char_text_last: "wf_char c \<Longrightarrow> c \<noteq> Escape backslash \<Longrightarrow> char_text c \<noteq> [] \<and> last (char_text c) \<noteq> backslash"
proof (cases c)
  case (Unicode h)
  assume "wf_char c"
  with Unicode have "length h = 4" "\<forall>c \<in> set h. hex_char c" by simp_all
  moreover from this have "h \<noteq> []" by auto
  moreover from this have "last h \<in> set h" by (rule last_in_set)
  ultimately show ?thesis using Unicode hex_char_plain by auto
qed auto

lemma string_text_read: "\<forall>c \<in> set cs. wf_char c \<Longrightarrow> known_string cs \<Longrightarrow> json_text (string_text cs)"
proof -
  assume wf: "\<forall>c \<in> set cs. wf_char c" and k: "known_string cs"
  have "quote \<notin> set (char_text c)" if "c \<in> set cs" for c
  proof (rule char_text_quote)
    show "wf_char c" using wf that by blast
    show "c \<noteq> Escape quote" using k that unfolding known_string_def by blast
  qed
  then have "quote \<notin> set (string_text cs)" unfolding string_text_def set_concat set_map by blast
  moreover have "last (string_text cs) \<noteq> backslash" if "cs \<noteq> []"
  proof -
    obtain ds d where "cs = ds @ [d]" using \<open>cs \<noteq> []\<close> by (cases cs rule: rev_cases) simp_all
    with wf k have "wf_char d" "d \<noteq> Escape backslash" unfolding known_string_def by simp_all
    with char_text_last [OF this] \<open>cs = ds @ [d]\<close> show ?thesis by (simp add: string_text_def)
  qed
  moreover have "string_text [] = []" by (simp add: string_text_def)
  ultimately show ?thesis unfolding json_text_def by blast
qed

lemma string_value_plain [simp]: "string_value (map Plain s) = s"
  by (induction s) auto

lemma numeral_text_read:
  assumes "wf_numeral n" "known_numeral n"
  shows "json_number F (numeral_text n) (float_numeral F n)"
proof -
  let ?s = "if negative n then ''-'' else []" and ?ds = "int_digits n"
  have i: "int_text ?ds"
    using assms(1) dec_digits_isdigit [of ?ds] by (auto simp: wf_numeral_def int_text_def dec_digits_def)
  have s: "?s = [] \<or> ?s = ''-''" by simp
  show ?thesis
  proof (cases "plain_integer n")
    case True
    with json_number.plain [OF i s, of F] show ?thesis
      by (simp add: numeral_text_def float_numeral_def plain_integer_def frac_text_def exp_text_def)
  next
    case False
    have f: "fraction_text (frac_text n)"
      using assms(1) dec_digits_isdigit
      by (auto simp: wf_numeral_def frac_text_def fraction_text_def dec_digits_def split: option.splits)
    have e: "exponent_text (exp_text n)"
    proof (cases "exponent n")
      case (Some x)
      obtain c sg ds where x: "x = (c, sg, ds)" by (cases x)
      with assms Some have "c = CHR ''e'' \<or> c = CHR ''E''" "dec_digits ds" "sg = NoSign \<or> sg = MinusSign"
        by (cases sg; auto simp: wf_numeral_def known_numeral_def)+
      with Some x dec_digits_isdigit [of ds] show ?thesis
        by (auto simp: exp_text_def exponent_text_def dec_digits_def)
    qed (simp add: exp_text_def exponent_text_def)
    have "frac_text n @ exp_text n \<noteq> []"
      using False by (auto simp: plain_integer_def frac_text_def exp_text_def split: option.splits)
    from json_number.long [OF i s f e this, of F] False show ?thesis
      by (cases "negative n") (simp_all add: numeral_text_def float_numeral_def)
  qed
qed

lemma float_numeral_as_read [simp]: "float_numeral F (numeral_as_read n) = float_numeral F n"
  by (simp add: numeral_as_read_def float_numeral_def plain_integer_def)

text \<open>The text of a known tree is a text of the parser's grammar.\<close>

definition element_reads :: "('f, 'd) fp_ops \<Rightarrow> json_element \<Rightarrow> bool" where
  "element_reads F e \<longleftrightarrow> (\<exists>w1 t w2. element_text e = w1 @ t @ w2 \<and> blank w1 \<and> blank w2 \<and>
     json_value F t (element_value (float_numeral F) (element_as_read e)))"

definition member_reads :: "('f, 'd) fp_ops \<Rightarrow> json_member \<Rightarrow> bool" where
  "member_reads F m \<longleftrightarrow> (\<exists>w1 k w2 w3 t w4 v.
     member_text m = w1 @ quote # k @ quote # w2 @ CHR '':'' # w3 @ t @ w4 \<and>
     json_text k \<and> blank w1 \<and> blank w2 \<and> blank w3 \<and> blank w4 \<and> json_value F t v \<and>
     member_value (float_numeral F) (member_as_read m) = (k, v))"

lemma element_readsI:
  "element_text e = w1 @ t @ w2 \<Longrightarrow> blank w1 \<Longrightarrow> blank w2 \<Longrightarrow>
    json_value F t (element_value (float_numeral F) (element_as_read e)) \<Longrightarrow> element_reads F e"
  unfolding element_reads_def by blast

lemma member_readsI:
  "member_text m = w1 @ quote # k @ quote # w2 @ CHR '':'' # w3 @ t @ w4 \<Longrightarrow> json_text k \<Longrightarrow>
    blank w1 \<Longrightarrow> blank w2 \<Longrightarrow> blank w3 \<Longrightarrow> blank w4 \<Longrightarrow> json_value F t v \<Longrightarrow>
    member_value (float_numeral F) (member_as_read m) = (k, v) \<Longrightarrow> member_reads F m"
  unfolding member_reads_def by blast

lemma commas_Cons: "xs \<noteq> [] \<Longrightarrow> commas (x # xs) = x @ CHR '','' # commas xs"
  by (cases xs) simp_all

lemma elements_read:
  assumes "es \<noteq> []" "\<forall>e \<in> set es. element_reads F e"
  shows "json_elements F (commas (map element_text es))
    (map (\<lambda>e. element_value (float_numeral F) (element_as_read e)) es)"
  using assms
proof (induction es rule: list_nonempty_induct)
  case (single e)
  then obtain w1 t w2 where "element_text e = w1 @ t @ w2" "blank w1" "blank w2"
    "json_value F t (element_value (float_numeral F) (element_as_read e))" by (auto simp: element_reads_def)
  with one_element [of w1 F t _ w2] show ?case by simp
next
  case (cons e es)
  then obtain w1 t w2 where w: "element_text e = w1 @ t @ w2" "blank w1" "blank w2"
    "json_value F t (element_value (float_numeral F) (element_as_read e))" unfolding element_reads_def by auto
  from element [OF w(2,4,3) cons.IH] cons show ?case by (simp add: w(1) commas_Cons)
qed

lemma members_read:
  assumes "ms \<noteq> []" "\<forall>m \<in> set ms. member_reads F m"
  shows "json_members F (commas (map member_text ms))
    (map (\<lambda>m. member_value (float_numeral F) (member_as_read m)) ms)"
  using assms
proof (induction ms rule: list_nonempty_induct)
  case (single m)
  then obtain w1 k w2 w3 t w4 v where "member_text m = w1 @ quote # k @ quote # w2 @ CHR '':'' # w3 @ t @ w4"
    "json_text k" "blank w1" "blank w2" "blank w3" "blank w4" "json_value F t v"
    "member_value (float_numeral F) (member_as_read m) = (k, v)" unfolding member_reads_def by auto
  with one_member [of w1 k w2 w3 F t v w4] show ?case by simp
next
  case (cons m ms)
  from cons.prems obtain w1 k w2 w3 t w4 v where
    w: "member_text m = w1 @ quote # k @ quote # w2 @ CHR '':'' # w3 @ t @ w4"
    "json_text k" "blank w1" "blank w2" "blank w3" "blank w4" "json_value F t v"
    "member_value (float_numeral F) (member_as_read m) = (k, v)" unfolding member_reads_def by auto
  from member [OF w(3,2,4,5,7,6) cons.IH] cons.prems cons.hyps show ?case by (simp add: w(1,8) commas_Cons)
qed

lemma known_tree_read:
  fixes F :: "('f, 'd) fp_ops"
  shows "wf_tree t \<Longrightarrow> known t \<Longrightarrow> json_value F (unparse t) (tree_value (float_numeral F) (as_read t))"
    and "wf_element e \<Longrightarrow> known_element e \<Longrightarrow> element_reads F e"
    and "wf_member m \<Longrightarrow> known_member m \<Longrightarrow> member_reads F m"
proof (induction t and e and m)
  case JNull
  show ?case by (simp add: null)
next
  case (JBool b)
  show ?case by (cases b) (simp_all add: true false)
next
  case (JNumber n)
  then show ?case by (simp add: number numeral_text_read)
next
  case (JString cs)
  with json_value_json_elements_json_members.string [OF string_text_read, of cs F] show ?case
    by (simp add: string_as_read_def)
next
  case (JArray w es)
  show ?case
  proof (cases "es = []")
    case True
    with JArray(3) no_elements [of F] show ?thesis by simp
  next
    case False
    have "\<forall>e \<in> set es. element_reads F e" using JArray by auto
    from array [OF elements_blank [OF elements_read [OF False this] ws_blank, of w]] JArray(2) show ?thesis
      by (simp add: comp_def)
  qed
next
  case (JObject w ms)
  show ?case
  proof (cases "ms = []")
    case True
    with JObject(2) no_members [OF ws_blank, of w F] show ?thesis by simp
  next
    case False
    have "\<forall>m \<in> set ms. member_reads F m" using JObject by auto
    from object [OF members_blank [OF members_read [OF False this] ws_blank, of w]] JObject(2) show ?thesis
      by (simp add: comp_def)
  qed
next
  case (Element w1 t w2)
  then show ?case using ws_blank [of w1] ws_blank [of w2]
    by (intro element_readsI [of _ w1 "unparse t" w2]) simp_all
next
  case (Member w1 k w2 w3 t w4)
  then have "json_text (string_text k)" by (intro string_text_read) simp_all
  with Member ws_blank [of w1] ws_blank [of w2] ws_blank [of w3] ws_blank [of w4] show ?case
    by (intro member_readsI [of _ w1 "string_text k" w2 w3 "unparse t" w4]) (simp_all add: string_as_read_def)
qed

subsection \<open>Numbers in exact arithmetic\<close>

text \<open>The parser's sums and products, computed without rounding, are the value of the number.\<close>

definition rat_ops :: "(rat, rat) fp_ops" where
  "rat_ops = \<lparr>f_of_int = rat_of_int, f_add = (+), f_mul = (*), f_div = (/), f_of_d = id,
     d_of_f = id, d_of_int = rat_of_int, d_add = (+), d_mul = (*), d_div = (/),
     d_pow10 = (\<lambda>x. if 0 \<le> x then 10 ^ nat \<lfloor>x\<rfloor> else 1 / 10 ^ nat \<lfloor>- x\<rfloor>)\<rparr>"

definition rat_show :: "(rat, rat) fp_show" where
  "rat_show = \<lparr>show_float = (\<lambda>x. show_int \<lfloor>x\<rfloor>), show_double = (\<lambda>x. show_int \<lfloor>x\<rfloor>),
     float_0 = 0, double_0 = 0\<rparr>"

lemma digit_rat: "isdigit c \<Longrightarrow> rat_of_int (digit_val c) = of_nat (of_char c - 48)"
  by (simp add: isdigit_def digit_val_def char_le_nat of_nat_diff)

lemma digits_loop_rat:
  "digits ds \<Longrightarrow> i + length ds = L \<Longrightarrow> digits_loop rat_ops L i v ds = v + of_nat (decimal ds)"
proof (induction ds arbitrary: i v)
  case (Cons c cs)
  have e: "int L - int i - 1 = int (length cs)" using Cons.prems(2) by simp
  have "add_digit rat_ops (int L - int i - 1) v c = v + of_nat ((of_char c - 48) * 10 ^ length cs)"
    unfolding e using digit_rat [of c] Cons.prems(1) by (simp add: add_digit_def rat_ops_def)
  with Cons.IH [of "Suc i"] Cons.prems show ?case by simp
qed simp

lemma int_value_rat: "digits ds \<Longrightarrow> int_value rat_ops ds = of_nat (decimal ds)"
  using digits_loop_rat [of ds 0 "length ds" 0]
  by (simp add: int_value_def digits_float_def) (simp add: rat_ops_def)

lemma fraction_loop_rat:
  "digits ds \<Longrightarrow> fraction_loop rat_ops i v ds = v + of_nat (decimal ds) / 10 ^ (i + length ds)"
proof (induction ds arbitrary: i v)
  case (Cons c cs)
  have "nat (int i + 1) = Suc i" by simp
  with Cons.prems digit_rat [of c] have "add_fraction rat_ops (int i + 1) v c = v + of_nat (of_char c - 48) / 10 ^ Suc i"
    by (simp add: add_fraction_def rat_ops_def)
  with Cons.IH [of "Suc i"] Cons.prems show ?case
    by (simp add: add_divide_distrib power_add)
qed simp

lemma float_numeral_rat:
  assumes "wf_numeral n" "known_numeral n"
  shows "float_numeral rat_ops n = numeral_value (numeral_as_read n)"
proof -
  have i: "int_value rat_ops (int_digits n) = of_nat (decimal (int_digits n))"
    using assms(1) by (intro int_value_rat dec_digits_isdigit) (simp add: wf_numeral_def)
  have f: "add_fraction_text rat_ops x (frac_text n) =
      x + (case frac_digits n of None \<Rightarrow> 0 | Some ds \<Rightarrow> of_nat (decimal ds) / 10 ^ length ds)" for x
  proof (cases "frac_digits n")
    case (Some ds)
    with assms(1) dec_digits_isdigit [of ds] have "digits ds" by (simp add: wf_numeral_def)
    from fraction_loop_rat [OF this, of 0] Some show ?thesis
      by (simp add: frac_text_def add_fraction_text_def) (simp add: rat_ops_def)
  qed (simp add: frac_text_def add_fraction_text_def)
  have e: "apply_exponent rat_ops x (exp_text n) = x * (case exponent n of None \<Rightarrow> 1
      | Some (c, s, ds) \<Rightarrow> if s = MinusSign then 1 / 10 ^ decimal ds else 10 ^ decimal ds)" for x
  proof (cases "exponent n")
    case (Some y)
    obtain c s ds where y: "y = (c, s, ds)" by (cases y)
    with assms Some dec_digits_isdigit [of ds] have ds: "digits ds" "ds \<noteq> []" "s = NoSign \<or> s = MinusSign"
      by (cases s; simp add: wf_numeral_def known_numeral_def dec_digits_def)+
    then have h: "hd ds \<noteq> CHR ''-''" by (cases ds) auto
    have v: "digits_float rat_ops ds = of_nat (decimal ds)"
      using digits_loop_rat [OF ds(1), of 0 "length ds" 0] by (simp add: digits_float_def) (simp add: rat_ops_def)
    from ds(3) Some y h v show ?thesis
      by (auto simp: exp_text_def apply_exponent_def) (simp_all add: rat_ops_def)
  qed (simp add: exp_text_def apply_exponent_def)
  show ?thesis
  proof (cases "plain_integer n")
    case True
    then show ?thesis
      by (simp add: float_numeral_def i numeral_as_read_def numeral_value_def plain_integer_def)
  next
    case False
    then show ?thesis
      unfolding float_numeral_def numeral_as_read_def by (simp add: i f e numeral_value_def) (simp add: rat_ops_def algebra_simps)
  qed
qed

lemma tree_value_rat:
  "wf_tree t \<Longrightarrow> known t \<Longrightarrow>
    (tree_value (float_numeral rat_ops) (as_read t) :: (rat, rat) variant) = tree_value numeral_value (as_read t)"
  "wf_element e \<Longrightarrow> known_element e \<Longrightarrow>
    (element_value (float_numeral rat_ops) (element_as_read e) :: (rat, rat) variant) =
      element_value numeral_value (element_as_read e)"
  "wf_member m \<Longrightarrow> known_member m \<Longrightarrow>
    (member_value (float_numeral rat_ops) (member_as_read m) :: string \<times> (rat, rat) variant) =
      member_value numeral_value (member_as_read m)"
proof (induction t and e and m)
  case (JNumber n)
  then show ?case by (simp add: float_numeral_rat)
next
  case (JObject w ms)
  then show ?case by (simp add: comp_def cong: map_cong)
qed simp_all

subsection \<open>What the generator prints\<close>

text \<open>
  The documents whose text is JSON: without null and floating-point values, with strings and keys
  of characters that need no escape.  \<open>numbers\<close> is such a document with its \<^verbatim>\<open>int\<close>s as rationals.
\<close>

definition plain_string :: "string \<Rightarrow> bool" where
  "plain_string s \<longleftrightarrow> (\<forall>c \<in> set s. wf_char (Plain c))"

fun json_document :: "('f, 'd) variant \<Rightarrow> bool"
  and json_document_any :: "('f, 'd) any \<Rightarrow> bool" where
  "json_document (Variant b t x) =
     (case x of
        None \<Rightarrow> False
      | Some y \<Rightarrow> b \<and> t = Some (typeid y) \<and> json_document_any y)"
| "json_document_any ANull = False"
| "json_document_any (ABool _) = True"
| "json_document_any (AInt _) = True"
| "json_document_any (AFloat _) = False"
| "json_document_any (ADouble _) = False"
| "json_document_any (AString s) = plain_string s"
| "json_document_any (AList l) = (\<forall>v \<in> set l. json_document v)"
| "json_document_any (AMap m) =
     (sorted_keys m \<and> (\<forall>p \<in> set m. plain_string (fst p) \<and> json_document (snd p)))"

fun numbers :: "('f, 'd) variant \<Rightarrow> (rat, rat) variant"
  and numbers_any :: "('f, 'd) any \<Rightarrow> (rat, rat) any" where
  "numbers (Variant b t x) =
     (case x of None \<Rightarrow> default_variant | Some y \<Rightarrow> variant_of (numbers_any y))"
| "numbers_any ANull = ANull"
| "numbers_any (ABool b) = ABool b"
| "numbers_any (AInt i) = AFloat (of_int (sint i))"
| "numbers_any (AFloat _) = ANull"
| "numbers_any (ADouble _) = ANull"
| "numbers_any (AString s) = AString s"
| "numbers_any (AList l) = AList (map numbers l)"
| "numbers_any (AMap m) = AMap (map (\<lambda>p. (fst p, numbers (snd p))) m)"

lemma json_document_variant_of [simp]: "json_document (variant_of t) \<longleftrightarrow> json_document_any t"
  by (simp add: variant_of_def setValue_def default_variant_def)

lemma numbers_variant_of [simp]: "numbers (variant_of t) = variant_of (numbers_any t)"
  by (simp add: variant_of_def setValue_def default_variant_def)

lemma json_document_cases:
  assumes "json_document v"
  obtains t where "v = variant_of t" "json_document_any t"
  using assms
  by (cases v) (auto simp: variant_of_def setValue_def default_variant_def split: option.splits)

lemma json_document_induct [consumes 1, case_names map list scalar]:
  assumes "json_document v"
    and "\<And>m. json_document (variant_of (AMap m)) \<Longrightarrow> (\<And>p. p \<in> set m \<Longrightarrow> Q (snd p)) \<Longrightarrow> Q (variant_of (AMap m))"
    and "\<And>l. json_document (variant_of (AList l)) \<Longrightarrow> (\<And>w. w \<in> set l \<Longrightarrow> Q w) \<Longrightarrow> Q (variant_of (AList l))"
    and "\<And>t. json_document (variant_of t) \<Longrightarrow> \<not> isMap (variant_of t) \<Longrightarrow> \<not> isList (variant_of t) \<Longrightarrow> Q (variant_of t)"
  shows "Q v"
  using assms(1)
proof (induction v rule: measure_induct_rule [where f = size])
  case (less v)
  from less.prems obtain t where t: "v = variant_of t" "json_document_any t" by (rule json_document_cases)
  show ?case
  proof (cases t)
    case (AMap m)
    with t less.IH size_map_element [of _ m] show ?thesis by (auto intro!: assms(2))
  next
    case (AList l)
    with t less.IH size_list_element [of _ l] show ?thesis by (auto intro!: assms(3))
  qed (use t in \<open>auto intro!: assms(4) simp: is_defs\<close>)
qed

text \<open>The tree of a document in the layout of the generator.\<close>

definition int_numeral :: "int \<Rightarrow> json_numeral" where
  "int_numeral i = Numeral (i < 0) (show_nat (nat \<bar>i\<bar>)) None None"

lemma decimal_append: "decimal (xs @ ys) = decimal xs * 10 ^ length ys + decimal ys"
  by (induction xs) (simp_all add: algebra_simps power_add)

lemma decimal_show: "decimal (show_nat n) = n"
proof (induction n rule: show_nat.induct)
  case (1 n)
  then show ?case
    by (subst show_nat.simps) (simp add: decimal_append digit_char_def)
qed

lemma int_numeral_show:
  "numeral_text (int_numeral i) = show_int i" "wf_numeral (int_numeral i)"
  "numeral_value (int_numeral i) = of_int i"
proof -
  show "numeral_text (int_numeral i) = show_int i"
    by (simp add: numeral_text_def int_numeral_def show_int_def frac_text_def exp_text_def)
  show "wf_numeral (int_numeral i)"
    using show_nat_digits [of "nat \<bar>i\<bar>"] hd_show_nat [of "nat \<bar>i\<bar>"]
    by (cases "i = 0") (simp_all add: wf_numeral_def int_numeral_def dec_digits_def dec_digit_def isdigit_def show_nat_0)
  show "numeral_value (int_numeral i) = of_int i"
    by (simp add: numeral_value_def int_numeral_def decimal_show)
qed

lemma getWhiteSpace_ws: "ws (getWhiteSpace c d)"
proof -
  have "ws (genTab d)" by (induction d) (simp_all add: ws_def)
  then show ?thesis by (simp add: ws_def getWhiteSpace_def genLineFeed_def ball_Un)
qed

lemma string_text_plain: "string_text (map Plain s) = s"
  by (induction s) (simp_all add: string_text_def)

lemma plain_string_wf: "plain_string s \<Longrightarrow> \<forall>c \<in> set (map Plain s). wf_char c"
  by (simp add: plain_string_def)

text \<open>The elements of a list or a map with the white space before and behind each of them.\<close>

fun items :: "bool \<Rightarrow> nat \<Rightarrow> string \<Rightarrow> 'a list \<Rightarrow> (string \<times> 'a \<times> string) list" where
  "items c d pre [] = []"
| "items c d pre [x] = [(pre @ getWhiteSpace c (d + 1), x, getWhiteSpace c d)]"
| "items c d pre (x # y # xs) = (pre @ getWhiteSpace c (d + 1), x, []) # items c d '' '' (y # xs)"

lemma items_text:
  "xs \<noteq> [] \<Longrightarrow> pre @ sep_text c d close f xs =
     commas (map (\<lambda>i. fst i @ f (fst (snd i)) @ snd (snd i)) (items c d pre xs)) @ close"
proof (induction c d pre xs rule: items.induct)
  case (3 c d pre x y xs)
  have "items c d '' '' (y # xs) \<noteq> []" by (cases xs) simp_all
  with 3 show ?case by (simp add: commas_Cons)
qed simp_all

lemma items_elements: "map (\<lambda>i. fst (snd i)) (items c d pre xs) = xs"
  by (induction c d pre xs rule: items.induct) simp_all

lemma items_set: "i \<in> set (items c d pre xs) \<Longrightarrow> fst (snd i) \<in> set xs"
  using items_elements [of c d pre xs] by (metis (no_types, lifting) image_eqI set_map)

lemma items_ws: "ws pre \<Longrightarrow> \<forall>i \<in> set (items c d pre xs). ws (fst i) \<and> ws (snd (snd i))"
proof (induction c d pre xs rule: items.induct)
  case (2 c d pre x)
  then show ?case
    using getWhiteSpace_ws [of c "d + 1"] getWhiteSpace_ws [of c d] by (simp add: ws_def ball_Un)
next
  case (3 c d pre x y xs)
  then show ?case
    using getWhiteSpace_ws [of c "d + 1"] by (simp add: ws_def ball_Un)
qed simp

definition printed_tree :: "('f, 'd) fp_show \<Rightarrow> bool \<Rightarrow> nat \<Rightarrow> ('f, 'd) variant \<Rightarrow> json_tree \<Rightarrow> bool" where
  "printed_tree S c d v t \<longleftrightarrow>
     genValue S v c d = Inr (unparse t) \<and> wf_tree t \<and> tree_value numeral_value t = numbers v"

lemma printed_tree_val: "printed_tree S c d v t \<Longrightarrow> val_text S c d v = unparse t"
  by (simp add: printed_tree_def val_text_def)

lemma printed_array:
  assumes "\<forall>v \<in> set l. \<exists>t. printed_tree S c (d + 1) v t"
  shows "\<exists>t. printed_tree S c d (variant_of (AList l)) t"
proof -
  obtain tree_of where tr: "\<forall>v \<in> set l. printed_tree S c (d + 1) v (tree_of v)" using bchoice [OF assms] by blast
  then have "genValue S v c (d + 1) = Inr (val_text S c (d + 1) v)" if "v \<in> set l" for v
    using that by (simp add: printed_tree_def val_text_def)
  then have txt_eq: "genValue S (variant_of (AList l)) c d = Inr (CHR ''['' # sep_text c d '']'' (val_text S c (d + 1)) l)"
    using genArray_text [of l S c d] by simp
  let ?el = "\<lambda>i. Element (fst i) (tree_of (fst (snd i))) (snd (snd i))"
  let ?t = "JArray (if l = [] then getWhiteSpace c d else []) (map ?el (items c d [] l))"
  have in_l: "printed_tree S c (d + 1) (fst (snd i)) (tree_of (fst (snd i)))" if "i \<in> set (items c d [] l)" for i
    using tr items_set [OF that] by blast
  have "sep_text c d '']'' (val_text S c (d + 1)) l =
      (if l = [] then getWhiteSpace c d else []) @ commas (map element_text (map ?el (items c d [] l))) @ '']''"
  proof (cases "l = []")
    case False
    have eq: "map (\<lambda>i. fst i @ val_text S c (d + 1) (fst (snd i)) @ snd (snd i)) (items c d [] l) =
        map element_text (map ?el (items c d [] l))"
      using printed_tree_val [OF in_l] by simp
    from items_text [OF False, of "[]" c d "'']''" "val_text S c (d + 1)"] False show ?thesis
      unfolding eq by simp
  qed simp
  with txt_eq have "genValue S (variant_of (AList l)) c d = Inr (unparse ?t)" by simp
  moreover have "wf_tree ?t"
    using items_ws [of "[]" c d l] in_l getWhiteSpace_ws [of c d] by (simp add: ws_def printed_tree_def)
  moreover have "map (element_value numeral_value) (map ?el (items c d [] l)) = map numbers l"
  proof -
    have "map (element_value numeral_value) (map ?el (items c d [] l)) =
        map (\<lambda>i. numbers (fst (snd i))) (items c d [] l)"
      using in_l by (simp add: printed_tree_def)
    also have "\<dots> = map numbers (map (\<lambda>i. fst (snd i)) (items c d [] l))" by simp
    finally show ?thesis by (simp only: items_elements)
  qed
  ultimately show ?thesis unfolding printed_tree_def by (intro exI [of _ ?t]) simp
qed

lemma printed_map:
  assumes "\<forall>p \<in> set m. plain_string (fst p) \<and> (\<exists>t. printed_tree S c (d + 1) (snd p) t)" and "sorted_keys m"
  shows "\<exists>t. printed_tree S c d (variant_of (AMap m)) t"
proof -
  obtain tree_of where tr: "\<forall>p \<in> set m. printed_tree S c (d + 1) (snd p) (tree_of p)"
    using bchoice [of "set m" "\<lambda>p t. printed_tree S c (d + 1) (snd p) t"] assms by blast
  then have "genValue S (snd p) c (d + 1) = Inr (val_text S c (d + 1) (snd p))" if "p \<in> set m" for p
    using that by (simp add: printed_tree_def val_text_def)
  then have txt_eq: "genValue S (variant_of (AMap m)) c d = Inr (CHR ''{'' # sep_text c d ''}'' (entry_text S c d) m)"
    using genObject_text [of m S c d] by simp
  let ?mem = "\<lambda>i. Member (fst i) (map Plain (fst (fst (snd i)))) [] '' '' (tree_of (fst (snd i))) (snd (snd i))"
  let ?t = "JObject (if m = [] then getWhiteSpace c d else []) (map ?mem (items c d [] m))"
  have in_m: "printed_tree S c (d + 1) (snd (fst (snd i))) (tree_of (fst (snd i)))" "plain_string (fst (fst (snd i)))"
    if "i \<in> set (items c d [] m)" for i
    using tr assms(1) items_set [OF that] by blast+
  have "sep_text c d ''}'' (entry_text S c d) m =
      (if m = [] then getWhiteSpace c d else []) @ commas (map member_text (map ?mem (items c d [] m))) @ ''}''"
  proof (cases "m = []")
    case False
    have "map (\<lambda>i. fst i @ entry_text S c d (fst (snd i)) @ snd (snd i)) (items c d [] m) =
        map member_text (map ?mem (items c d [] m))"
      using printed_tree_val [OF in_m(1)] by (simp add: entry_text_def string_text_plain)
    with items_text [OF False, of "[]" c d "''}''" "entry_text S c d"] False show ?thesis by simp
  qed simp
  with txt_eq have "genValue S (variant_of (AMap m)) c d = Inr (unparse ?t)" by simp
  moreover have "wf_tree ?t"
    using items_ws [of "[]" c d m] in_m plain_string_wf getWhiteSpace_ws [of c d]
    by (simp add: ws_def printed_tree_def plain_string_def)
  moreover have "map (member_value numeral_value) (map ?mem (items c d [] m)) = map (\<lambda>p. (fst p, numbers (snd p))) m"
  proof -
    have "map (member_value numeral_value) (map ?mem (items c d [] m)) =
        map (\<lambda>i. (fst (fst (snd i)), numbers (snd (fst (snd i))))) (items c d [] m)"
      using in_m(1) by (simp add: printed_tree_def)
    also have "\<dots> = map (\<lambda>p. (fst p, numbers (snd p))) (map (\<lambda>i. fst (snd i)) (items c d [] m))" by simp
    finally show ?thesis by (simp only: items_elements)
  qed
  moreover have "sorted_keys (map (\<lambda>p. (fst p, numbers (snd p))) m)"
    using assms(2) by (induction m) auto
  ultimately show ?thesis unfolding printed_tree_def
    by (intro exI [of _ ?t]) (simp add: assign_all_sorted)
qed

lemma printed_scalars:
  "printed_tree S c d (variant_of (ABool b)) (JBool b)"
  "printed_tree S c d (variant_of (AInt i)) (JNumber (int_numeral (sint i)))"
  "plain_string s \<Longrightarrow> printed_tree S c d (variant_of (AString s)) (JString (map Plain s))"
  by (simp_all add: printed_tree_def int_numeral_show string_text_plain plain_string_def)

lemma document_printed:
  "json_document v \<Longrightarrow> \<exists>t. printed_tree S c d v t"
proof (induction arbitrary: d rule: json_document_induct)
  case (map m)
  then show ?case by (intro printed_map) simp_all
next
  case (list l)
  then show ?case by (intro printed_array) simp
next
  case (scalar t)
  then show ?case by (cases t) (auto intro: printed_scalars simp: is_defs)
qed

fun container :: "json_tree \<Rightarrow> bool" where
  "container (JArray _ _) = True"
| "container (JObject _ _) = True"
| "container _ = False"

lemma tree_text_parsed:
  assumes "wf_tree t" "known t" "container t" "ws w" "ws w'" "length (unparse t @ w') < 2147483648"
  shows "parse F (w @ unparse t @ w') = Some (Inr (tree_value (float_numeral F) (as_read t)))"
proof -
  have "isMap (tree_value (float_numeral F) (as_read t)) \<or> isList (tree_value (float_numeral F) (as_read t))"
    using assms(3) by (cases t) (simp_all add: is_defs)
  from json_value_parsed [OF known_tree_read(1) [OF assms(1,2)] this ws_blank [OF assms(4)] ws_blank [OF assms(5)] assms(6)]
  show ?thesis .
qed

end
