(* ===== verification/JsonProperties.thy ===== *)
theory JsonProperties
  imports JsonSyntax
begin

text \<open>
  The properties of \<^verbatim>\<open>json_parser\<close> and \<^verbatim>\<open>json_generator\<close>: printing and parsing against the JSON
  of \<open>JsonSyntax\<close> and against each other, termination and divergence, the shape and the invariant of
  results, the only exception thrown, signs, and what is printed for null and for an empty list.
\<close>

subsection \<open>Printing and parsing\<close>

lemma reread_int_rat: "reread_int rat_ops i = of_int \<bar>i\<bar>"
  using digits_loop_rat [OF show_nat_digits, of 0 "nat \<bar>i\<bar>" "length (show_nat (nat \<bar>i\<bar>))" 0]
  by (simp add: reread_int_def digits_float_def decimal_show) (simp add: rat_ops_def)

lemma printed_text_parsed:
  assumes "jsonable c v" and "isMap v \<or> isList v"
  shows "\<exists>t. generate S v c = Inr t \<and>
    (length t < 2147483648 \<longrightarrow> parse F t = Some (Inr (reread F v))) \<and>
    (no_ints v \<longrightarrow> reread F v = v)"
proof -
  obtain t where t: "generate S v c = Inr t" "json_value F t (reread F v)"
    using generated_text [OF assms(1)] by blast
  have "isMap (reread F v) \<or> isList (reread F v)"
    using assms by (elim jsonable_cases) (simp add: reread_container)
  from json_value_parsed [OF t(2) this, of "[]" "[]"] t(1) reread_id [OF assms(1)] show ?thesis by auto
qed

text \<open>
  C2. What the generator prints, compact or indented, for a document without null and floating-point
  values whose strings and keys hold no quote, backslash or control character, is the text of a tree
  of the RFC grammar, and that tree means the document: the same keys, strings, booleans, lists and
  maps, and every \<^verbatim>\<open>int\<close> as the number with its value and sign.
\<close>

theorem generated_text_is_json:
  assumes "json_document v"
  shows "\<exists>t. generate S v c = Inr (unparse t) \<and> wf_tree t \<and> tree_value numeral_value t = numbers v"
  using document_printed [OF assms, of S c 0] by (simp add: printed_tree_def generate_def)

theorem generated_text_is_json_witness:
  "\<exists>t. generate rat_show (variant_of (AList [variant_of (AInt (- 5)), variant_of (AList []), variant_of (AString ''a'')])) False
       = Inr (unparse t) \<and> wf_tree t \<and>
     tree_value numeral_value t =
       (variant_of (AList [variant_of (AFloat (- 5)), variant_of (AList []), variant_of (AString ''a'')]) :: (rat, rat) variant)"
proof -
  have "json_document (variant_of (AList [variant_of (AInt (- 5)), variant_of (AList []), variant_of (AString ''a'')])
      :: (rat, rat) variant)"
    by (simp add: plain_string_def)
  from generated_text_is_json [OF this, of rat_show False] show ?thesis by simp
qed

text \<open>
  C3. Printing a map or a list and parsing the text gives the document back, in the compact form and
  in the indented one, with the same keys, strings, booleans, lists and maps, except that every
  \<^verbatim>\<open>int\<close> comes back as a \<^verbatim>\<open>float\<close> of its absolute value: its sign is lost, and in exact arithmetic
  nothing else is.  Without integers the result is equal to the document.  The documents
  (\<open>jsonable\<close>) hold no null and no floating-point values, their strings and keys hold no quote and do
  not end in a backslash, and when indented they hold no empty list.
\<close>

theorem parse_generate:
  assumes "jsonable c v" and "isMap v \<or> isList v"
  shows "\<exists>t. generate S v c = Inr t \<and>
    (length t < 2147483648 \<longrightarrow> parse F t = Some (Inr (reread F v))) \<and>
    (no_ints v \<longrightarrow> reread F v = v) \<and> (\<forall>i. reread_int rat_ops i = of_int \<bar>i\<bar>)"
  using printed_text_parsed [OF assms] reread_int_rat by blast

theorem parse_generate_witness:
  "generate rat_show (variant_of (AMap [(''a'', variant_of (AList [variant_of (ABool True)]))])) True
     = Inr (CHR ''{'' # quote # ''a'' @ quote # '': [true]}'') \<and>
   parse rat_ops (CHR ''{'' # quote # ''a'' @ quote # '': [true]}'')
     = Some (Inr (variant_of (AMap [(''a'', variant_of (AList [variant_of (ABool True)]))])))"
proof -
  let ?v = "variant_of (AMap [(''a'', variant_of (AList [variant_of (ABool True)]))]) :: (rat, rat) variant"
  let ?t = "CHR ''{'' # quote # ''a'' @ quote # '': [true]}''"
  have "jsonable True ?v" "isMap ?v \<or> isList ?v" "no_ints ?v"
    by (simp_all add: json_text_def is_defs)
  moreover have "generate rat_show ?v True = Inr ?t"
    by (simp add: generate_def genString_def genValue.simps genLiteral_def getWhiteSpace_def
        strip_comma_def is_defs toBool_def value_as_variant_of)
  ultimately show ?thesis
    using parse_generate [of True ?v rat_show rat_ops] by simp
qed

text \<open>
  When the text of an object repeats a key, the parsed map holds the value of its
  last occurrence, and its keys are strictly sorted: the members \<open>m\<close> of the printed object
  are any list of pairs, sorted or not, with or without repeated keys.
\<close>

theorem parse_last_key_wins:
  assumes "\<forall>p \<in> set m. json_text (fst p) \<and> jsonable c (snd p)"
    and "genObject S m c 0 = Inr t" and "length t < 2147483648"
  shows "\<exists>o'. parse F t = Some (Inr (variant_of (AMap o'))) \<and> sorted_keys o' \<and>
    (\<forall>k. map_of o' k = map_option (reread F) (map_of (rev m) k))"
proof -
  have "\<forall>p \<in> set m. printed F S c (0 + 1) (snd p) \<and> json_text (fst p)"
    using assms(1) jsonable_printed by blast
  from json_value_parsed [OF printed_object [OF this assms(2)], of "[]" "[]"] assms(3)
  have "parse F t = Some (Inr (variant_of (AMap (assign_all [] (reread_entries F m)))))"
    by (simp add: is_defs)
  moreover have "map_of (assign_all [] (reread_entries F m)) k = map_option (reread F) (map_of (rev m) k)" for k
  proof -
    have "map_of (assign_all [] (reread_entries F m)) k = map_of (rev (reread_entries F m)) k"
      unfolding assign_all_def by (rule assign.lookup_last) simp
    also have "rev (reread_entries F m) = map (\<lambda>(k, v). (k, reread F v)) (rev m)"
      by (simp add: reread_entries_def rev_map case_prod_unfold)
    finally show ?thesis by (simp only: map_of_map comp_def)
  qed
  moreover have "sorted_keys (assign_all [] (reread_entries F m))"
    unfolding assign_all_def by (rule assign.good_foldl) simp
  ultimately show ?thesis by blast
qed

theorem parse_last_key_wins_witness:
  "\<exists>o'. parse rat_ops (CHR ''{'' # quote # ''a'' @ quote # '': true, '' @ quote # ''a'' @ quote # '': false}'')
     = Some (Inr (variant_of (AMap o'))) \<and> map_of o' ''a'' = Some (variant_of (ABool False))"
proof -
  let ?m = "[(''a'', variant_of (ABool True)), (''a'', variant_of (ABool False))]"
  let ?t = "CHR ''{'' # quote # ''a'' @ quote # '': true, '' @ quote # ''a'' @ quote # '': false}''"
  have "\<forall>p \<in> set ?m. json_text (fst p) \<and> jsonable True (snd p)"
    by (simp add: json_text_def)
  moreover have "genObject rat_show ?m True 0 = Inr ?t"
    by (simp add: genObject_def genString_def genValue.simps genLiteral_def getWhiteSpace_def
        strip_comma_def is_defs toBool_def value_as_variant_of)
  moreover have "length ?t < 2147483648" by simp
  ultimately show ?thesis
    using parse_last_key_wins [of ?m True rat_show ?t rat_ops] by auto
qed

subsection \<open>Termination\<close>

text \<open>
  C16. \<^verbatim>\<open>json_parser::parse\<close> returns or throws on every text without an escaped quote.
\<close>

theorem parse_terminates:
  assumes "\<not> escaped s" and "length s < 2147483648"
  shows "\<exists>r. parse F s = Some r"
proof -
  let ?w = "removeWhitespace s"
  have "\<not> escaped ?w" using assms(1) escaped_suffix suffix_removeWhitespace by blast
  moreover have "length ?w < 2147483648" using assms(2) length_removeWhitespace [of s] by simp
  ultimately have "parseObject F (parse_fuel ?w) ?w \<noteq> None" "parseArray F (parse_fuel ?w) ?w \<noteq> None"
    using parse_returns_fuel(1) [of ?w "parse_fuel ?w" F] parse_returns_fuel(3) [of ?w "parse_fuel ?w" F]
    by (simp_all add: parse_fuel_def del: not_None_eq)
  then have "parse F s \<noteq> None"
    by (auto simp: parse_def Let_def presult_def pbind_None_iff at0_None_iff
        simp del: not_None_eq split: if_splits)
  then show ?thesis by auto
qed

theorem parse_terminates_witness:
  "\<exists>r. parse rat_ops ''[1, true]'' = Some r"
proof -
  have "\<not> escaped ''[1, true]''" by (simp add: sublist_code)
  moreover have "length ''[1, true]'' < 2147483648" by simp
  ultimately show ?thesis by (rule parse_terminates)
qed

text \<open>
  The fuel of the model is enough on every text: more fuel changes no result of the
  three recursive functions, so a missing result is a loop of the code.
\<close>

theorem parse_fuel_enough:
  "parseObject F (parse_fuel s + k) s = parseObject F (parse_fuel s) s \<and>
   parseArray F (parse_fuel s + k) s = parseArray F (parse_fuel s) s \<and>
   parseValue F (parse_fuel s + k) s = parseValue F (parse_fuel s) s"
  by (simp add: fuel_stable parse_fuel_def)

text \<open>
  C40. A key with an escaped quote keeps \<^verbatim>\<open>parseString\<close> searching at the same place for
  ever: the parser does not return, with any amount of fuel.
\<close>

theorem parse_escaped_quote_diverges:
  fixes F :: "('f, 'd) fp_ops"
  assumes "quote \<notin> set xs" and "length (xs @ backslash # quote # ys) < 2147483648"
  shows "parse F (CHR ''{'' # quote # xs @ backslash # quote # ys) = None \<and>
    (\<forall>n. parseObject F n (CHR ''{'' # quote # xs @ backslash # quote # ys) = None)"
proof -
  have "(parseString (quote # xs @ backslash # quote # ys) :: ('f, 'd) variant pres) = None"
    by (rule parseString_stuck [OF assms])
  then have loop: "objectLoop F n [] (quote # xs @ backslash # quote # ys) = None" for n
    by (cases n) (simp_all add: objectLoop_Suc objectLoop.simps)
  have "parseObject F n (CHR ''{'' # quote # xs @ backslash # quote # ys) = None" for n
    by (cases n) (simp_all add: parseObject.simps loop)
  then show ?thesis
    by (simp add: parse_def Let_def)
qed

theorem parse_escaped_quote_diverges_witness:
  "parse rat_ops (CHR ''{'' # quote # ''a'' @ backslash # quote # ''b'') = None"
  using parse_escaped_quote_diverges [of "''a''" "''b''" rat_ops] by simp

subsection \<open>Results\<close>

lemma parseString_coherent:
  "wpp (parseString s :: ('f, 'd) variant pres)
     (\<lambda>v t. v = default_variant \<or> (\<exists>k. v = variant_of (AString k)))"
  by (cases "removeWhitespace s")
     (auto simp: parseString_def Let_def split: option.splits sum.splits if_splits)

lemma parseNumber_coherent: "wpp (parseNumber F s) (\<lambda>v t. coherent v)"
proof -
  have rest: "wpp (parseNumber_rest F k x t) (\<lambda>v t. coherent v)" for k x t
    by (simp add: parseNumber_rest_def wpp_at0) (auto simp: wpp_def)
  have "wpp (pbind (parseIntegerPart F w) (\<lambda>r input.
      case r of None \<Rightarrow> pret default_variant input
      | Some number \<Rightarrow> parseNumber_rest F k number input)) (\<lambda>v t. coherent v)" for w k
    unfolding wpp_bind using rest by (auto simp: wpp_def [of "parseIntegerPart F w"] split: option.splits)
  then show ?thesis
    by (simp add: parseNumber_def Let_def wpp_at0 del: wpp_bind)
qed

lemma parseLiteral_coherent: "wpp (parseLiteral s) (\<lambda>v t. coherent v)"
  by (cases "removeWhitespace s") (auto simp: parseLiteral_def Let_def split: sum.splits)

lemma parse_coherent_fuel:
  fixes F :: "('f, 'd) fp_ops"
  shows "wpp (parseObject F n s) (\<lambda>m t. coherent_any (AMap m))"
    and "coherent_any (AMap m) \<Longrightarrow> wpp (objectLoop F n m s) (\<lambda>m t. coherent_any (AMap m))"
    and "wpp (parseArray F n s) (\<lambda>l t. coherent_any (AList l))"
    and "coherent_any (AList l) \<Longrightarrow> wpp (arrayLoop F n l s) (\<lambda>l t. coherent_any (AList l))"
    and "wpp (parseValue F n s) (\<lambda>v t. coherent v)"
proof (induction n arbitrary: s m l)
  case 0
  { case 1 show ?case by (simp add: parseObject.simps) next
    case 2 show ?case by (simp add: objectLoop.simps) next
    case 3 show ?case by (simp add: parseArray.simps) next
    case 4 show ?case by (simp add: arrayLoop.simps) next
    case 5 show ?case by (simp add: parseValue.simps) }
next
  case (Suc n)
  {
    case 1
    have "wpp (objectLoop F n [] t) (\<lambda>m t. coherent_any (AMap m))" for t
      by (rule Suc.IH(2)) simp
    then show ?case
      by (simp add: parseObject.simps Let_def wpp_at0)
  next
    case 2
    have set: "coherent_any (AMap (map_set m k v))" if "coherent v" for k v
      using 2 that set_map_set [of m k v] by auto
    have "wpp (objectEntry F n m key t) (\<lambda>m t. coherent_any (AMap m))" for key t
    proof -
      have "wpp (parseValue F n w) (\<lambda>v t. wpp (case toString key of Inl e \<Rightarrow> pthrow e
          | Inr k \<Rightarrow> objectLoop F n (map_set m k v) (removeWhitespace t))
          (\<lambda>m t. coherent_any (AMap m)))" for w
        by (rule wpp_mono [OF Suc.IH(5)])
           (auto split: sum.splits intro!: Suc.IH(2) set simp del: coherent_any.simps)
      then show ?thesis
        by (simp add: objectEntry_def wpp_at0)
    qed
    then have "wpp (parseString s :: ('f, 'd) variant pres)
        (\<lambda>key t. wpp (objectEntry F n m key t) (\<lambda>m t. coherent_any (AMap m)))"
      by (simp add: wpp_def [of "parseString s"])
    with Suc.IH(2) 2 show ?case
      by (simp add: objectLoop_Suc wpp_at0 del: coherent_any.simps) simp
  next
    case 3
    have "wpp (arrayLoop F n [] t) (\<lambda>l t. coherent_any (AList l))" for t
      by (rule Suc.IH(4)) simp
    then show ?case
      by (simp add: parseArray.simps Let_def wpp_at0)
  next
    case 4
    have "wpp (arrayEntry F n l v t) (\<lambda>l t. coherent_any (AList l))" if "coherent v" for v t
    proof -
      have "coherent_any (AList (l @ [v]))" if "isValid v"
        using 4 \<open>coherent v\<close> that by (simp add: isValid_def)
      then show ?thesis
        using Suc.IH(4) by (simp add: arrayEntry_def wpp_at0)
    qed
    then have "wpp (parseValue F n (removeWhitespace s))
        (\<lambda>v t. wpp (arrayEntry F n l v t) (\<lambda>l t. coherent_any (AList l)))"
      by (intro wpp_mono [OF Suc.IH(5)])
    with 4 show ?case
      by (simp add: arrayLoop_Suc wpp_at0)
  next
    case 5
    have "wpp (parseString w) (\<lambda>v t. coherent (v :: ('f, 'd) variant))" for w
      by (rule wpp_mono [OF parseString_coherent]) auto
    moreover have "wpp (parseObject F n w) (\<lambda>m t. coherent (variant_of (AMap m)))" for w
      using Suc.IH(1) by simp
    moreover have "wpp (parseArray F n w) (\<lambda>l t. coherent (variant_of (AList l)))" for w
      using Suc.IH(3) by simp
    ultimately show ?case
      by (simp add: parseValue.simps Let_def wpp_at0 parseNumber_coherent parseLiteral_coherent)
  }
qed

text \<open>
  C14. Whatever \<^verbatim>\<open>parse\<close> returns satisfies the class invariant of \<^verbatim>\<open>variant\<close> throughout (flag,
  type pointer and value agree, lists hold valid elements, maps are sorted by key), and it
  is either a default variant or a map or a list.
\<close>

theorem parse_result_coherent:
  assumes "parse F s = Some (Inr v)"
  shows "coherent v \<and> (v = default_variant \<or> isMap v \<or> isList v)"
proof -
  let ?w = "removeWhitespace s"
  have fin: "coherent v \<and> (v = default_variant \<or> isMap v \<or> isList v)"
    if "presult (if removeWhitespace t \<noteq> [] then pret default_variant t else pret w t) = Some (Inr v)"
      "coherent w" "isMap w \<or> isList w" for t w
    using that by (auto split: if_splits)
  have shape: "isMap (variant_of (AMap m))" "isList (variant_of (AList l))" for m :: "('a, 'b) variant_map" and l :: "('a, 'b) variant_list"
    by (simp_all add: isMap_def isList_def)
  from assms obtain c u where cu: "?w = c # u"
    by (cases ?w) (auto simp: parse_def)
  show ?thesis
  proof (cases "c = CHR ''{''")
    case True
    with assms cu show ?thesis
      using wppD [OF parse_coherent_fuel(1), of F "parse_fuel ?w" ?w] fin shape
      by (cases "parseObject F (parse_fuel ?w) ?w" rule: pres_cases)
         (auto simp: parse_def Let_def simp del: coherent_any.simps)
  next
    case False
    with assms cu show ?thesis
      using wppD [OF parse_coherent_fuel(3), of F "parse_fuel ?w" ?w] fin shape
      by (cases "parseArray F (parse_fuel ?w) ?w" rule: pres_cases)
         (auto simp: parse_def Let_def simp del: coherent_any.simps split: if_splits)
  qed
qed

theorem parse_result_coherent_witness:
  "coherent (variant_of (AList []) :: (rat, rat) variant)"
  using parse_result_coherent [of rat_ops "''[]''" "variant_of (AList [])"]
  by (simp add: parse_def parse_fuel_def parseArray.simps arrayLoop.simps numeral_eq_Suc)

subsection \<open>Signs\<close>

lemma parseAfterInt_digits:
  "\<forall>c \<in> set fs. isdigit c \<Longrightarrow> \<not> isdigit d \<Longrightarrow>
   \<exists>x. parseAfterInt_loop F i v (fs @ d # rest) = pret x (d # rest)"
  by (induction fs arbitrary: i v) auto

lemma parseIntegerPart_digits:
  assumes "ds \<noteq> []" and "\<forall>x \<in> set ds. isdigit x" and "hd ds \<noteq> CHR ''0'' \<or> length ds = 1"
    and "\<not> isdigit d"
  obtains x where "parseIntegerPart F (ds @ d # rest) = pret (Some x) (d # rest)"
proof (cases "hd ds = CHR ''0''")
  case True
  with assms(1,3) have "ds = [CHR ''0'']" by (cases ds) auto
  with that show ?thesis by (simp add: parseIntegerPart_def)
next
  case False
  obtain c cs where "ds = c # cs" using assms(1) by (cases ds) auto
  with False assms(2) parseInt_digits [OF assms(2,4), of F rest] that show ?thesis
    by (simp add: parseIntegerPart_def)
qed

text \<open>
  The minus sign of a number is applied only behind a fraction or an exponent: a
  number of digits alone is read as if the sign were not there, a number with a fraction
  is multiplied by \<open>-1\<close>.
\<close>

theorem parseNumber_minus:
  assumes "ds \<noteq> []" and "\<forall>x \<in> set ds. isdigit x" and "hd ds \<noteq> CHR ''0'' \<or> length ds = 1"
    and "\<forall>x \<in> set fs. isdigit x" and "ends_value rest"
  shows "parseNumber F (CHR ''-'' # ds @ rest) = parseNumber F (ds @ rest) \<and>
    (\<exists>x. parseNumber F (ds @ ''.'' @ fs @ rest) = pret (variant_of (AFloat (f_mul F x (f_of_int F 1)))) rest \<and>
      parseNumber F (CHR ''-'' # ds @ ''.'' @ fs @ rest) =
        pret (variant_of (AFloat (f_mul F x (f_of_int F (- 1))))) rest)"
proof
  from assms(5) obtain d u where d: "rest = d # u" "\<not> isdigit d" "d \<noteq> CHR ''.''"
    "d \<noteq> CHR ''e''" "d \<noteq> CHR ''E''" by (rule ends_value_cases)
  obtain x where x: "parseIntegerPart F (ds @ d # u) = pret (Some x) (d # u)"
    using assms(1-3) d(2) by (rule parseIntegerPart_digits)
  show "parseNumber F (CHR ''-'' # ds @ rest) = parseNumber F (ds @ rest)"
    using parseNumber_sign [OF assms(1,2) x] d by (simp add: parseNumber_rest_def)
  obtain y where y: "parseIntegerPart F (ds @ CHR ''.'' # fs @ rest) = pret (Some y) (CHR ''.'' # fs @ rest)"
    using assms(1-3) isdigit_chars(12) by (rule parseIntegerPart_digits)
  obtain z where "parseAfterInt F (fs @ rest) = pret z rest"
    using parseAfterInt_digits [OF assms(4) d(2), of F 0 "f_of_int F 0" u] d
    by (auto simp: parseAfterInt_def)
  then have "parseNumber_rest F k y (CHR ''.'' # fs @ rest) =
      pret (variant_of (AFloat (f_mul F (f_add F y z) (f_of_int F k)))) rest" for k
    using d by (simp add: parseNumber_rest_def parseFraction_def parseExponent_def)
  then show "\<exists>x. parseNumber F (ds @ ''.'' @ fs @ rest) = pret (variant_of (AFloat (f_mul F x (f_of_int F 1)))) rest \<and>
      parseNumber F (CHR ''-'' # ds @ ''.'' @ fs @ rest) =
        pret (variant_of (AFloat (f_mul F x (f_of_int F (- 1))))) rest"
    using parseNumber_sign [OF assms(1,2) y] by auto
qed

theorem parseNumber_minus_witness:
  "parseNumber rat_ops ''-12]'' = parseNumber rat_ops ''12]''"
  using parseNumber_minus [of "''12''" "''5''" "'']''" rat_ops]
  by (simp add: isdigit_def char_le_nat)

subsection \<open>Exceptions\<close>

definition safe :: "'a pres \<Rightarrow> bool" where
  "safe m \<longleftrightarrow> (\<forall>e. m = pthrow e \<longrightarrow> e = OutOfRange)"

lemma safe_simps [simp]:
  "safe (pret v t)" "safe (pthrow e) \<longleftrightarrow> e = OutOfRange" "safe None"
  "safe (pbind m f) \<longleftrightarrow> safe m \<and> wpp m (\<lambda>v t. safe (f v t))"
  by (simp_all add: safe_def) (cases m rule: pres_cases; simp add: safe_def)

lemma safe_at0: "safe (at0 s k) \<longleftrightarrow> (\<forall>c u. s = c # u \<longrightarrow> safe (k c))"
  by (cases s) simp_all

lemma scanQuote_range:
  assumes "scanQuote s c = Some r"
  shows "length s < 2147483648 \<longrightarrow> (\<exists>sz. r = Inr sz \<and> (sz = - 1 \<or> 0 \<le> sz \<and> sz < int (length s)))"
proof (rule scanQuote.raw_induct
    [where P = "\<lambda>s c r. length s < 2147483648 \<longrightarrow> (\<exists>sz. r = Inr sz \<and> (sz = - 1 \<or> 0 \<le> sz \<and> sz < int (length s)))", OF _ assms])
  fix scan t c r
  assume IH: "\<And>t c r. scan t c = Some r \<Longrightarrow>
      length t < 2147483648 \<longrightarrow> (\<exists>sz. r = Inr sz \<and> (sz = - 1 \<or> 0 \<le> sz \<and> sz < int (length t)))"
    and eq: "(let sz = (case find_char t quote (size_of_int c) of
                    None \<Rightarrow> -1 | Some i \<Rightarrow> int_of_size i)
      in if sz \<noteq> -1 then
           (if sz = 0 then Some (Inr sz)
            else (case sv_at t (size_of_int (sz - 1)) of
                    Inl e \<Rightarrow> Some (Inl e)
                  | Inr c \<Rightarrow> if c = backslash then scan t sz else Some (Inr sz)))
         else Some (Inr sz)) = Some r"
  show "length t < 2147483648 \<longrightarrow> (\<exists>sz. r = Inr sz \<and> (sz = - 1 \<or> 0 \<le> sz \<and> sz < int (length t)))"
  proof
    assume len: "length t < 2147483648"
    show "\<exists>sz. r = Inr sz \<and> (sz = - 1 \<or> 0 \<le> sz \<and> sz < int (length t))"
    proof (cases "find_char t quote (size_of_int c)")
      case None
      with eq show ?thesis by auto
    next
      case (Some i)
      then have i: "i < length t" using find_char_SomeD by blast
      with len have "int_of_size i = int i" "0 < i \<Longrightarrow> size_of_int (int i - 1) = i - 1"
        "sv_at t (i - 1) = Inr (t ! (i - 1))"
        by (simp_all add: nat_diff_distrib sv_at_def)
      with eq Some i IH [of t "int i" r] len show ?thesis
        by (auto simp: Let_def split: if_splits)
    qed
  qed
qed

lemma parseString_safe: "length s < 2147483648 \<Longrightarrow> safe (parseString s :: ('f, 'd) variant pres)"
proof (cases "removeWhitespace s")
  case (Cons c u)
  assume "length s < 2147483648"
  then have u: "length u < 2147483648 \<and> length u < 2147483647"
    using length_removeWhitespace [of s] Cons by simp
  show ?thesis
  proof (cases "scanQuote u 0")
    case None
    with Cons show ?thesis by (simp add: parseString_def Let_def)
  next
    case (Some r)
    from scanQuote_range [OF this] u obtain sz where "r = Inr sz" "sz = - 1 \<or> 0 \<le> sz \<and> sz < int (length u)"
      by auto
    with Cons Some u show ?thesis
      by (auto simp: parseString_def Let_def int_succ_def remove_prefix_def)
  qed
qed (simp add: parseString_def)

lemma parseInt_loop_safe: "safe (parseInt_loop F L i v s)"
  by (induction F L i v s rule: parseInt_loop.induct) auto

lemma parseAfterInt_loop_safe: "safe (parseAfterInt_loop F i v s)"
  by (induction F i v s rule: parseAfterInt_loop.induct) auto

lemma wpp_True [simp]: "wpp m (\<lambda>v t. True)"
  by (simp add: wpp_def)

lemma parseInt_safe [simp]: "safe (parseInt F s)"
  by (auto simp: parseInt_def parseInt_loop_safe dest: scan_while_InlD split: sum.splits)

lemma parseNumber_safe: "safe (parseNumber F s)"
proof -
  have "safe (parseExponent F x t)" "safe (parseFraction F x t)" "safe (parseIntegerPart F t)" for x t
    by (simp_all add: parseExponent_def parseFraction_def parseIntegerPart_def parseAfterInt_def
        safe_at0 Let_def parseAfterInt_loop_safe)
  moreover from this have "safe (parseNumber_rest F k x t)" for k x t
    by (simp add: parseNumber_rest_def safe_at0)
  ultimately show ?thesis
    by (simp add: parseNumber_def safe_at0 Let_def wpp_def split: option.splits)
qed

lemma parseLiteral_safe: "safe (parseLiteral s)"
  by (auto simp: parseLiteral_def safe_at0 Let_def dest: scan_while_InlD split: sum.splits)

lemma toString_key:
  "parseString s = pret key t \<Longrightarrow> isValid key \<Longrightarrow> \<exists>k. toString key = Inr k"
  using wppD [OF parseString_coherent] by fastforce


lemma safe_presult: "safe m \<Longrightarrow> presult m = Some (Inl e) \<Longrightarrow> e = OutOfRange"
  by (cases m rule: pres_cases) auto

lemma length_rw_lt: "length s < k \<Longrightarrow> length (removeWhitespace s) < k"
  using length_removeWhitespace [of s] by simp

lemma wpp_length:
  assumes "wpp m (\<lambda>v t. suffix t s)" and "length s < k"
    and "\<And>v t. m = pret v t \<Longrightarrow> length t < k \<Longrightarrow> Q v t"
  shows "wpp m Q"
  using assms length_suffix by (fastforce simp: wpp_def)

lemma parse_safe:
  fixes F :: "('f, 'd) fp_ops"
  shows "length s < 2147483648 \<Longrightarrow> safe (parseObject F n s)"
    and "length s < 2147483648 \<Longrightarrow> safe (objectLoop F n m s)"
    and "length s < 2147483648 \<Longrightarrow> safe (parseArray F n s)"
    and "length s < 2147483648 \<Longrightarrow> safe (arrayLoop F n l s)"
    and "length s < 2147483648 \<Longrightarrow> safe (parseValue F n s)"
proof (induction n arbitrary: s m l)
  case 0
  { case 1 show ?case by (simp add: loop_unfold) next
    case 2 show ?case by (simp add: loop_unfold) next
    case 3 show ?case by (simp add: loop_unfold) next
    case 4 show ?case by (simp add: loop_unfold) next
    case 5 show ?case by (simp add: loop_unfold) }
next
  case (Suc n)
  have val: "wpp (parseValue F n t) (\<lambda>v u. suffix u t)" for t
    by (rule wpp_mono [OF parse_shrinks(5)]) (simp add: shrinks_def)
  have rw: "length u < 2147483648" if "removeWhitespace t = c # u" "length t < 2147483648" for c u t
    using length_rw_lt [OF that(2)] that(1) by simp
  {
    case 1
    then show ?case
      by (auto simp: parseObject.simps Let_def safe_at0 intro!: Suc.IH(2)
          length_rw_lt dest: rw simp del: removeWhitespace.simps)
  next
    case 2
    have entry: "safe (objectEntry F n m key t)"
      if key: "parseString s = pret key t" and t: "length t < 2147483648" for key :: "('f, 'd) variant" and t
    proof -
      have "safe (case toString key of Inl e \<Rightarrow> pthrow e
          | Inr k \<Rightarrow> objectLoop F n (map_set m k v) (removeWhitespace u))"
        if "isValid key" "length u < 2147483648" for v u
        using toString_key [OF key that(1)] Suc.IH(2) length_rw_lt [OF that(2)] by auto
      then have "safe (pbind (parseValue F n (removeWhitespace u)) (\<lambda>v t. case toString key of
          Inl e \<Rightarrow> pthrow e | Inr k \<Rightarrow> objectLoop F n (map_set m k v) (removeWhitespace t)))"
        if "isValid key" "length u < 2147483648" for u
        using that Suc.IH(5) length_rw_lt [OF that(2)]
        by (auto intro!: wpp_length [OF val])
      with rw [OF _ t] show ?thesis
        by (auto simp: objectEntry_def safe_at0 simp del: safe_simps(4))
    qed
    have "wpp (parseString s :: ('f, 'd) variant pres) (\<lambda>key t. safe (objectEntry F n m key t))"
      using 2 entry by (intro wpp_length [of "parseString s" s, OF wpp_mono [OF parseString_shrinks]])
        (simp add: shrinks_def)
    moreover have "safe (objectLoop F n m (removeWhitespace (drop 1 s)))"
      using 2 by (intro Suc.IH(2) length_rw_lt) simp
    ultimately show ?case
      using 2 by (auto simp: objectLoop_Suc safe_at0 parseString_safe)
  next
    case 3
    then show ?case
      by (auto simp: parseArray.simps Let_def safe_at0 intro!: Suc.IH(4) dest: rw)
  next
    case 4
    have "safe (arrayEntry F n l v t)" if "length t < 2147483648" for v t
      using that by (auto simp: arrayEntry_def safe_at0 intro!: Suc.IH(4) length_rw_lt
          simp del: removeWhitespace.simps)
    with 4 Suc.IH(5) show ?case
      by (auto simp: arrayLoop_Suc safe_at0 intro!: wpp_length [OF val] length_rw_lt
          simp del: removeWhitespace.simps)
  next
    case 5
    show ?case
    proof (cases "removeWhitespace s")
      case (Cons c u)
      with length_rw_lt [OF 5] have "length (c # u) < 2147483648" by simp
      with Cons Suc.IH(1,3) show ?thesis
        by (simp add: parseValue.simps Let_def parseString_safe parseNumber_safe parseLiteral_safe)
    qed (simp add: parseValue.simps)
  }
qed

text \<open>
  C15. The only exception \<^verbatim>\<open>parse\<close> lets out is the \<^verbatim>\<open>std::out_of_range\<close> of a checked access behind the
  end of the text: on a text of bytes below 128 (the character tests of \<^verbatim>\<open><cctype>\<close> have a defined
  result on those) that is shorter than \<open>2 ^ 31\<close>, no index, narrowing or cast in it is undefined.
\<close>

theorem parse_throws_only_out_of_range:
  assumes "\<forall>c \<in> set s. (of_char c :: nat) < 128" and "length s < 2147483648" and "parse F s = Some (Inl e)"
  shows "e = OutOfRange"
proof -
  let ?w = "removeWhitespace s"
  have "safe (parseObject F (parse_fuel ?w) ?w)" "safe (parseArray F (parse_fuel ?w) ?w)"
    using parse_safe(1,3) length_rw_lt [OF assms(2)] by blast+
  then show ?thesis
    by (intro safe_presult [OF _ assms(3) [unfolded parse_def Let_def]])
      (auto simp: safe_at0 if_distrib [of safe])
qed

theorem parse_throws_only_out_of_range_witness:
  "parse rat_ops ''[1'' = Some (Inl OutOfRange)"
proof -
  have "presult (parseArray rat_ops (parse_fuel ''[1'') ''[1'') = Some (Inl OutOfRange)"
    by (simp add: parse_fuel_def parseArray.simps arrayLoop.simps parseValue.simps numeral_eq_Suc
       parseNumber_def parseIntegerPart_def parseInt_def isdigit_def char_le_nat)
  then obtain e where "parse rat_ops ''[1'' = Some (Inl e)"
    by (cases "parseArray rat_ops (parse_fuel ''[1'') ''[1''" rule: pres_cases)
      (simp_all add: parse_def isspace_def)
  with parse_throws_only_out_of_range [of "''[1''" rat_ops e] show ?thesis by simp
qed

subsection \<open>Texts that are accepted, and documents that are lost\<close>

lemma scanQuote_none: "quote \<notin> set s \<Longrightarrow> scanQuote s 0 = Some (Inr (- 1))"
  by (simp add: scanQuote.simps [of s 0] index_of_None [symmetric])

text \<open>
  An object cut off in its first key, with no closing quote and no brace, is not an
  error: the opening quote is consumed, and when only white space follows it the result
  is a valid empty map.
\<close>

theorem parse_unterminated_key:
  assumes "quote \<notin> set xs"
  shows "parse F (CHR ''{'' # quote # xs) =
    Some (Inr (if \<forall>c \<in> set xs. isspace c then variant_of (AMap []) else default_variant))"
proof -
  have ps: "(parseString (quote # xs) :: ('a, 'b) variant pres) = pret default_variant xs"
    using scanQuote_none [OF assms] by (simp add: parseString_def)
  have "objectLoop F (Suc n) [] (quote # xs) = pret [] xs" for n
    by (simp add: objectLoop.simps ps)
  then have "parseObject F (Suc (Suc n)) (CHR ''{'' # quote # xs) = pret [] xs" for n
    by (simp add: parseObject.simps)
  moreover have "parse_fuel (CHR ''{'' # quote # xs) = Suc (Suc (3 * length xs + 8))"
    by (simp add: parse_fuel_def)
  ultimately have "parseObject F (parse_fuel (CHR ''{'' # quote # xs)) (CHR ''{'' # quote # xs) = pret [] xs"
    by (simp only:)
  moreover have "removeWhitespace xs = [] \<longleftrightarrow> (\<forall>c \<in> set xs. isspace c)"
    by (simp add: removeWhitespace_dropWhile dropWhile_eq_Nil_conv)
  ultimately show ?thesis
    by (simp add: parse_def Let_def)
qed

theorem parse_unterminated_key_witness:
  "parse rat_ops (CHR ''{'' # quote # '' '') = Some (Inr (variant_of (AMap [])))"
  using parse_unterminated_key [of "'' ''" rat_ops] by simp

lemma null_text:
  fixes F :: "('f, 'd) fp_ops" and S :: "('f, 'd) fp_show"
  shows "parse F ''[null]'' = Some (Inr (variant_of (AList [variant_of ANull]))) \<and>
   generate S (variant_of (AList [variant_of ANull, variant_of (ABool True)]) ) True = Inr ''[, true]'' \<and>
   parse F ''[, true]'' = Some (Inr default_variant)"
proof (intro conjI)
  have "scan_while isalpha ''null]'' = Inr 4"
    by (simp add: isalpha_def isupper_def islower_def char_le_nat)
  then have "(parseLiteral ''null]'' :: ('f, 'd) variant pres) = pret (variant_of ANull) '']''"
    by (simp add: parseLiteral_def isspace_def isalpha_def islower_def char_le_nat)
  then show "parse F ''[null]'' = Some (Inr (variant_of (AList [variant_of ANull])))"
    by (simp add: parse_def parse_fuel_def parseArray.simps arrayLoop.simps parseValue.simps
        numeral_eq_Suc isspace_def isdigit_def char_le_nat)
  show "generate S (variant_of (AList [variant_of ANull, variant_of (ABool True)]) ) True = Inr ''[, true]''"
    by (simp add: generate_def genArray_def genValue.simps genLiteral_def getWhiteSpace_def
        strip_comma_def is_defs toBool_def value_as_variant_of)
  show "parse F ''[, true]'' = Some (Inr default_variant)"
    by (simp add: parse_def parse_fuel_def parseArray.simps arrayLoop.simps parseValue.simps
        parseLiteral_def numeral_eq_Suc)
qed

lemma empty_list_text:
  fixes F :: "('f, 'd) fp_ops" and S :: "('f, 'd) fp_show"
  shows "generate S (variant_of (AList [])) False = Inr [CHR ''['', cr, lf, CHR '']''] \<and>
   parse F [CHR ''['', cr, lf, CHR '']''] = Some (Inr default_variant) \<and>
   generate S (variant_of (AList [])) True = Inr ''[]'' \<and>
   parse F ''[]'' = Some (Inr (variant_of (AList [])))"
proof (intro conjI)
  show "generate S (variant_of (AList [])) False = Inr [CHR ''['', cr, lf, CHR '']'']"
    "generate S (variant_of (AList [])) True = Inr ''[]''"
    by (simp_all add: generate_def genArray_def strip_comma_def getWhiteSpace_def genLineFeed_def)
  show "parse F [CHR ''['', cr, lf, CHR '']''] = Some (Inr default_variant)"
    "parse F ''[]'' = Some (Inr (variant_of (AList [])))"
    by (simp_all add: parse_def parse_fuel_def parseArray.simps arrayLoop.simps parseValue.simps
        parseLiteral_def numeral_eq_Suc)
qed

text \<open>
  Two documents are lost.  \<^verbatim>\<open>null\<close> is read as a valid value but printed as nothing at
  all, and the text of a list that holds it is not read back; an empty list is printed
  over two lines in the indented form, and that text is rejected, while its compact form
  is read back.
\<close>

theorem lost_documents:
  fixes F :: "('f, 'd) fp_ops" and S :: "('f, 'd) fp_show"
  defines "nulls \<equiv> variant_of (AList [variant_of ANull, variant_of (ABool True)]) :: ('f, 'd) variant"
    and "hollow \<equiv> variant_of (AList []) :: ('f, 'd) variant"
  shows "parse F ''[null]'' = Some (Inr (variant_of (AList [variant_of ANull]))) \<and>
    (\<exists>t. generate S nulls True = Inr t \<and> parse F t = Some (Inr default_variant)) \<and>
    (\<exists>t. generate S hollow False = Inr t \<and> parse F t = Some (Inr default_variant)) \<and>
    (\<exists>t. generate S hollow True = Inr t \<and> parse F t = Some (Inr hollow))"
  unfolding nulls_def hollow_def using null_text empty_list_text by blast

subsection \<open>The generator never fails\<close>

lemma genValue_coherent: "coherent v \<Longrightarrow> \<exists>t. genValue S v c d = Inr t"
proof (induction v arbitrary: d rule: measure_induct_rule [where f = size])
  case (less v)
  from less.prems show ?case
  proof (cases rule: coherent_cases)
    case (2 t)
    show ?thesis
    proof (cases t)
      case (AMap m)
      have "\<forall>p \<in> set m. genValue S (snd p) c (d + 1) = Inr (val_text S c (d + 1) (snd p))"
      proof
        fix p assume p: "p \<in> set m"
        with 2 AMap have "size (snd p) < size v" "coherent (snd p)"
          using size_map_element [OF p] by auto
        from less.IH [OF this, of "d + 1"]
        show "genValue S (snd p) c (d + 1) = Inr (val_text S c (d + 1) (snd p))"
          by (auto simp: val_text_def)
      qed
      from genObject_text [OF this] 2 AMap show ?thesis by simp
    next
      case (AList l)
      have "\<forall>w \<in> set l. genValue S w c (d + 1) = Inr (val_text S c (d + 1) w)"
      proof
        fix w assume w: "w \<in> set l"
        with 2 AList have "size w < size v" "coherent w"
          using size_list_element [OF w] by auto
        from less.IH [OF this, of "d + 1"]
        show "genValue S w c (d + 1) = Inr (val_text S c (d + 1) w)"
          by (auto simp: val_text_def)
      qed
      from genArray_text [OF this] 2 AList show ?thesis by simp
    qed (use 2 in \<open>simp_all add: genValue.simps is_defs genLiteral_def genNumber_def genString_def
        toBool_def toInt_def toFloat_def toDouble_def value_as_variant_of\<close>)
  qed (simp add: genValue.simps genLiteral_def is_defs holds_def)
qed

text \<open>
  The generator returns a text for every variant that satisfies the class invariant,
  in both forms: no getter it calls fails or throws.
\<close>

theorem generate_total:
  assumes "coherent v"
  shows "\<exists>t. generate S v c = Inr t"
  using genValue_coherent [OF assms] by (simp add: generate_def)

theorem generate_total_witness:
  "\<exists>t. generate rat_show (variant_of (AMap [(''k'', variant_of (AList [variant_of ANull]))])) False = Inr t"
  by (rule generate_total) simp

text \<open>
  C1. The parser against the grammar of RFC 8259.  Take any array or object of the grammar that the
  parser knows: no plus sign in an exponent, no white space in an empty array, no escaped quote and no
  string that ends in an escaped backslash.  Its text, with any white space the RFC allows inside and
  around it, is read as the meaning of the tree, but for two deviations (\<open>as_read\<close>): escapes stay as
  they are written, and a number without fraction and exponent loses its minus sign.  The numbers are
  the parser's sums of powers of ten in the arithmetic \<open>F\<close>; in exact arithmetic they are the values
  of the RFC.  A repeated key keeps its last value.
\<close>

theorem json_text_read:
  assumes "wf_tree t" "known t" "container t" "ws w" "ws w'" "length (unparse t @ w') < 2147483648"
  shows "parse F (w @ unparse t @ w') = Some (Inr (tree_value (float_numeral F) (as_read t))) \<and>
    parse rat_ops (w @ unparse t @ w') = Some (Inr (tree_value numeral_value (as_read t)))"
  using tree_text_parsed [OF assms, of F] tree_text_parsed [OF assms, of rat_ops] tree_value_rat(1) [OF assms(1,2)]
  by simp

theorem json_text_read_witness:
  "parse rat_ops (lf # CHR ''{'' # lf # quote # ''a'' @ quote # '' : [ -1.5e-1 , -7,null ] }'' @ [lf]) =
     Some (Inr (variant_of (AMap [(''a'', variant_of (AList
       [variant_of (AFloat (- 3 / 20)), variant_of (AFloat 7), variant_of ANull]))])))"
proof -
  let ?n = "Numeral True ''1'' (Some ''5'') (Some (CHR ''e'', MinusSign, ''1''))"
  let ?t = "JObject [lf] [Member [] [Plain (CHR ''a'')] '' '' '' '' (JArray []
    [Element '' '' (JNumber ?n) '' '', Element '' '' (JNumber (Numeral True ''7'' None None)) [], Element [] JNull '' '']) '' '']"
  have n: "wf_numeral ?n" "wf_numeral (Numeral True ''7'' None None)"
    by (simp_all add: wf_numeral_def dec_digits_def dec_digit_def char_le_nat)
  have "wf_tree ?t" using n by (simp add: ws_def)
  moreover have "known ?t" "container ?t" "ws [lf]" "length (unparse ?t @ [lf]) < 2147483648"
    by (simp_all add: known_numeral_def known_string_def ws_def string_text_def numeral_text_def frac_text_def exp_text_def)
  ultimately have p: "parse rat_ops ([lf] @ unparse ?t @ [lf]) = Some (Inr (tree_value numeral_value (as_read ?t)))"
    using json_text_read [of ?t "[lf]" "[lf]" rat_ops] by blast
  have u: "[lf] @ unparse ?t @ [lf] = lf # CHR ''{'' # lf # quote # ''a'' @ quote # '' : [ -1.5e-1 , -7,null ] }'' @ [lf]"
    by (simp add: string_text_def numeral_text_def frac_text_def exp_text_def)
  have v: "(tree_value numeral_value (as_read ?t) :: (rat, rat) variant) = variant_of (AMap [(''a'', variant_of (AList
       [variant_of (AFloat (- 3 / 20)), variant_of (AFloat 7), variant_of ANull]))])"
    by (simp add: string_text_def string_as_read_def numeral_as_read_def plain_integer_def numeral_value_def)
  show ?thesis using p unfolding u v .
qed

end
