(* ===== verification/StringUtils.thy ===== *)
theory StringUtils
  imports Prelude
begin

text \<open>
  \<^verbatim>\<open>include/brutils/string_utils.h\<close>: the two \<^verbatim>\<open>split_string\<close> templates, the substring tests
  and the case conversions.  The container a split pushes into is the returned list of
  tokens, in the order of the pushes.  The record \<open>string_ops\<close> names the two string
  builders that the HTTP classes call through, each class with its own \<open>copy\<close>.
\<close>

subsection \<open>Splitting at a character\<close>

text \<open>
  \<^verbatim>\<open>std::getline(ss, token, delim)\<close> fails when no character is left and otherwise takes the
  characters before the next delimiter, dropping the delimiter.
\<close>

function split_string_char :: "string \<Rightarrow> char \<Rightarrow> string list" where
  "split_string_char s delim =
     (if s = [] then []
      else case index_of delim s of
             None \<Rightarrow> [s]
           | Some i \<Rightarrow> take i s # split_string_char (drop (Suc i) s) delim)"
  by pat_completeness auto
termination
  by (relation "measure (\<lambda>(s, d). length s)") auto

declare split_string_char.simps [simp del]

text \<open>What the loop means: the tokens joined again, with a final delimiter if there was one.\<close>

fun join :: "char \<Rightarrow> string list \<Rightarrow> string" where
  "join d [] = []"
| "join d [t] = t"
| "join d (t # ts) = t @ d # join d ts"

lemma join_Cons: "ts \<noteq> [] \<Longrightarrow> join d (t # ts) = t @ d # join d ts"
  by (cases ts) auto

lemma index_of_split:
  "index_of d s = Some i \<Longrightarrow> s = take i s @ d # drop (Suc i) s"
  by (metis index_of_SomeD id_take_nth_drop)

lemma split_string_char_Nil [simp]: "split_string_char [] d = []"
  by (simp add: split_string_char.simps)

lemma split_string_char_eq_Nil [simp]: "split_string_char s d = [] \<longleftrightarrow> s = []"
  by (subst split_string_char.simps) (simp split: option.splits)

lemma split_string_char_tokens: "\<forall>t \<in> set (split_string_char s d). d \<notin> set t"
proof (induction s d rule: split_string_char.induct)
  case (1 s d)
  show ?case
  proof (cases "s = []")
    case False
    show ?thesis
    proof (cases "index_of d s")
      case None
      with False show ?thesis
        by (subst split_string_char.simps) (simp add: index_of_None [symmetric])
    next
      case (Some i)
      have "\<forall>t \<in> set (split_string_char (drop (Suc i) s) d). d \<notin> set t"
        using "1.IH" [OF False Some] .
      with False Some show ?thesis
        by (subst split_string_char.simps) (auto dest!: index_of_SomeD)
    qed
  qed simp
qed

text \<open>
  \<^verbatim>\<open>split_string(str, cont, char)\<close> loses nothing but a final delimiter: no token holds
  the delimiter, and joining the tokens with it gives the text back, up to one delimiter
  at its end.
\<close>

theorem split_string_char_join:
  "(\<forall>t \<in> set (split_string_char s d). d \<notin> set t) \<and>
   (join d (split_string_char s d) = s \<or> join d (split_string_char s d) @ [d] = s)"
proof (intro conjI split_string_char_tokens)
  show "join d (split_string_char s d) = s \<or> join d (split_string_char s d) @ [d] = s"
  proof (induction s d rule: split_string_char.induct)
    case (1 s d)
    show ?case
    proof (cases "s = []")
      case False
      show ?thesis
      proof (cases "index_of d s")
        case None
        with False show ?thesis by (subst (1 2) split_string_char.simps) simp
      next
        case (Some i)
        let ?r = "drop (Suc i) s"
        have IH: "join d (split_string_char ?r d) = ?r \<or> join d (split_string_char ?r d) @ [d] = ?r"
          using "1.IH" [OF False Some] .
        have eq: "split_string_char s d = take i s # split_string_char ?r d"
          using False Some by (subst split_string_char.simps) simp
        have s: "take i s @ d # ?r = s"
          using index_of_split [OF Some] by simp
        show ?thesis
        proof (cases "?r = []")
          case True
          with eq s show ?thesis by simp
        next
          case False
          with eq have "join d (split_string_char s d) = take i s @ d # join d (split_string_char ?r d)"
            by (simp add: join_Cons)
          with IH s show ?thesis by auto
        qed
      qed
    qed simp
  qed
qed

theorem split_string_char_join_witness:
  "join (CHR '','') (split_string_char ''a,b'' (CHR '','')) = ''a,b''"
proof -
  have "split_string_char ''a,b'' (CHR '','') = [''a'', ''b'']"
    by (simp add: split_string_char.simps)
  with split_string_char_join [of "''a,b''" "CHR '',''"] show ?thesis by simp
qed

subsection \<open>Splitting at a string\<close>

text \<open>
  The \<^verbatim>\<open>for\<close> loop over \<open>i\<close>; \<open>None\<close> is a loop that does not end.  The token pushed when no
  delimiter is left is \<^verbatim>\<open>str.substr(i, str.size() - 1)\<close>.
\<close>

partial_function (option) split_loop ::
  "string \<Rightarrow> string \<Rightarrow> nat \<Rightarrow> string list \<Rightarrow> string list option" where
  "split_loop s delim i cont =
     (if i < length s then
        (case find_sub s delim i of
           None \<Rightarrow> Some (cont @ [take (length s - 1) (drop i s)])
         | Some index \<Rightarrow>
             split_loop s delim (index + length delim) (cont @ [take (index - i) (drop i s)]))
      else Some cont)"

definition split_string_str :: "string \<Rightarrow> string \<Rightarrow> string list option" where
  "split_string_str s delim = split_loop s delim 0 []"

lemma find_sub_SomeD:
  "find_sub s sub p = Some i \<Longrightarrow> p \<le> i \<and> i + length sub \<le> length s"
  by (auto simp: find_sub_def dest!: index_of_sub_SomeD split: if_splits)

lemma split_loop_returns: "delim \<noteq> [] \<Longrightarrow> \<exists>r. split_loop s delim i cont = Some r"
proof (induction "length s - i" arbitrary: i cont rule: less_induct)
  case less
  show ?case
  proof (cases "i < length s")
    case False
    then show ?thesis by (simp add: split_loop.simps)
  next
    case True
    show ?thesis
    proof (cases "find_sub s delim i")
      case None
      with True show ?thesis by (simp add: split_loop.simps)
    next
      case (Some j)
      then have "i \<le> j" using find_sub_SomeD by blast
      with True less.prems have "length s - (j + length delim) < length s - i"
        by (cases delim) auto
      from less.hyps [OF this less.prems] Some True show ?thesis
        by (simp add: split_loop.simps [of s delim i])
    qed
  qed
qed

text \<open>
  \<^verbatim>\<open>split_string(str, cont, string)\<close> returns for every non-empty delimiter, and when the
  delimiter does not occur in a non-empty text its only token is the text without its
  last character.
\<close>

theorem split_string_str_no_delim:
  assumes "delim \<noteq> []" and "s \<noteq> []" and "\<not> sublist delim s"
  shows "split_string_str s delim = Some [butlast s] \<and>
    (\<forall>t. \<exists>r. split_string_str t delim = Some r)"
proof
  have "find_sub s delim 0 = None"
    using assms(3) by (simp add: index_of_sub_None)
  with assms(2) show "split_string_str s delim = Some [butlast s]"
    by (simp add: split_string_str_def split_loop.simps [of s delim 0] butlast_conv_take)
  show "\<forall>t. \<exists>r. split_string_str t delim = Some r"
    using split_loop_returns [OF assms(1)] by (simp add: split_string_str_def)
qed

theorem split_string_str_no_delim_witness:
  "split_string_str ''abc'' '','' = Some [''ab'']"
  using split_string_str_no_delim [of "'',''" "''abc''"] by (simp add: sublist_code)

subsection \<open>Substring tests\<close>

definition str_startsWith :: "string \<Rightarrow> string \<Rightarrow> bool" where
  "str_startsWith baseStr subStr =
     (if length subStr \<ge> length baseStr then index_of_sub subStr baseStr = Some 0 else False)"

definition str_startsWithMatch :: "string \<Rightarrow> string \<Rightarrow> int" where
  "str_startsWithMatch baseStr subStr =
     (if length subStr \<ge> length baseStr then
        (if index_of_sub subStr baseStr = Some 0 then int_of_size (length baseStr) else 0)
      else 0)"

definition str_contains :: "string \<Rightarrow> string \<Rightarrow> bool" where
  "str_contains baseStr subStr \<longleftrightarrow> index_of_sub subStr baseStr \<noteq> None"

text \<open>
  \<^verbatim>\<open>str_contains\<close> decides whether the second text occurs in the first, but
  \<^verbatim>\<open>str_startsWith\<close>, whose length test is the wrong way round, holds only when the two
  texts are equal, and \<^verbatim>\<open>str_startsWithMatch\<close> then returns the whole length.
\<close>

theorem string_tests_meaning:
  "(str_contains b s \<longleftrightarrow> sublist s b) \<and>
   (str_startsWith b s \<longleftrightarrow> b = s) \<and>
   str_startsWithMatch b s = (if b = s then int_of_size (length b) else 0)"
proof -
  have "length b \<le> length s \<and> prefix s b \<longleftrightarrow> b = s"
    by (auto simp: prefix_def)
  then show ?thesis
    by (auto simp: str_contains_def str_startsWith_def str_startsWithMatch_def
        index_of_sub_None index_of_sub_0)
qed

subsection \<open>Case conversion\<close>

text \<open>
  \<^verbatim>\<open>lower.reserve(n)\<close> leaves the size of \<^verbatim>\<open>lower\<close> at 0, so the transform writes through
  \<^verbatim>\<open>begin()\<close> of an empty string.
\<close>

definition toLower :: "string \<Rightarrow> string res" where
  "toLower input = transform_into [] 0 tolower input"

definition toUpper :: "string \<Rightarrow> string res" where
  "toUpper input = transform_into [] 0 toupper input"

lemma case_conversion:
  "toLower s = (if s = [] then Inr [] else Inl Undefined) \<and>
   toUpper s = (if s = [] then Inr [] else Inl Undefined)"
  by (simp add: toLower_def toUpper_def)

text \<open>
  The builders the HTTP classes use: \<open>lower\<close> is \<^verbatim>\<open>toLower\<close>; \<open>copy\<close> copies a range of bytes
  or characters into a fresh container, as \<^verbatim>\<open>RequestParser_v1x::getString\<close> and
  \<^verbatim>\<open>HttpResponse::convertStringToBytes\<close> do.
\<close>

record string_ops =
  lower :: "string \<Rightarrow> string res"
  copy :: "string \<Rightarrow> string res"

end
