(* ===== verification/HttpRequest.thy ===== *)
theory HttpRequest
  imports JsonParser StdMap StringUtils
begin

text \<open>
  \<^verbatim>\<open>include/brutils/HttpServer/HttpRequest.h\<close> and \<^verbatim>\<open>src/brutils/HttpServer/HttpRequest.cpp\<close>:
  a request with the getters of \<^verbatim>\<open>HttpRequest\<close> and the setters of \<^verbatim>\<open>HttpRequest_private\<close>.
  Bytes (\<^verbatim>\<open>std::byte\<close>) are characters.  The lower-casing of keys and values goes through a
  \<open>string_ops\<close>; \<open>source_ops\<close> has the two builders as the sources implement them.
\<close>

subsection \<open>Data\<close>

datatype HttpMethod =
  GET | HEAD | POST | PUT | PATCH | DELETE | CONNECT | OPTIONS | TRACE | UNKNOWN_METHOD

datatype HttpVersion = HTTP_10 | HTTP_11 | HTTP_20 | HTTP_30 | UNKNOWN_VERSION

text \<open>\<^verbatim>\<open>HttpVersion\<close> is the key of a \<^verbatim>\<open>std::map\<close>: its order is that of its enumerators.\<close>

primrec version_rank :: "HttpVersion \<Rightarrow> nat" where
  "version_rank HTTP_10 = 0"
| "version_rank HTTP_11 = 1"
| "version_rank HTTP_20 = 2"
| "version_rank HTTP_30 = 3"
| "version_rank UNKNOWN_VERSION = 4"

lemma version_rank_inject: "version_rank v = version_rank w \<Longrightarrow> v = w"
  by (cases v; cases w) simp_all

instantiation HttpVersion :: linorder
begin

definition less_eq_HttpVersion :: "HttpVersion \<Rightarrow> HttpVersion \<Rightarrow> bool" where
  "less_eq_HttpVersion v w \<longleftrightarrow> version_rank v \<le> version_rank w"

definition less_HttpVersion :: "HttpVersion \<Rightarrow> HttpVersion \<Rightarrow> bool" where
  "less_HttpVersion v w \<longleftrightarrow> version_rank v < version_rank w"

instance
  by intro_classes
    (auto simp: less_eq_HttpVersion_def less_HttpVersion_def intro: version_rank_inject)

end

record http_request =
  r_method :: HttpMethod
  r_version :: HttpVersion
  r_path :: string
  r_query :: "(string \<times> string) list"
  r_rawBody :: string
  r_headers :: "(string \<times> string) list"

definition new_request :: http_request where
  "new_request = \<lparr>r_method = UNKNOWN_METHOD, r_version = UNKNOWN_VERSION, r_path = [],
     r_query = [], r_rawBody = [], r_headers = []\<rparr>"

subsection \<open>Getters\<close>

definition request_method :: "http_request \<Rightarrow> HttpMethod" where "request_method r = r_method r"
definition connectionVersion :: "http_request \<Rightarrow> HttpVersion" where "connectionVersion r = r_version r"
definition path :: "http_request \<Rightarrow> string" where "path r = r_path r"
definition queryMap :: "http_request \<Rightarrow> (string \<times> string) list" where "queryMap r = r_query r"
definition rawBody :: "http_request \<Rightarrow> string" where "rawBody r = r_rawBody r"
definition headerMap :: "http_request \<Rightarrow> (string \<times> string) list" where "headerMap r = r_headers r"

definition query :: "string_ops \<Rightarrow> http_request \<Rightarrow> string \<Rightarrow> string res" where
  "query O' r key = bindR (lower O' key) (\<lambda>k. map_at (r_query r) k)"

definition header :: "string_ops \<Rightarrow> http_request \<Rightarrow> string \<Rightarrow> string res" where
  "header O' r key = bindR (lower O' key) (\<lambda>k. map_at (r_headers r) k)"

definition bodyJson :: "('f, 'd) fp_ops \<Rightarrow> http_request \<Rightarrow> ('f, 'd) variant res option" where
  "bodyJson F r = parse F (r_rawBody r)"

definition bodyXml :: "http_request \<Rightarrow> ('f, 'd) variant" where
  "bodyXml r = default_variant"

subsection \<open>Setters\<close>

definition setMethod :: "HttpMethod \<Rightarrow> http_request \<Rightarrow> http_request" where
  "setMethod m r = r\<lparr>r_method := m\<rparr>"

definition setVersion :: "HttpVersion \<Rightarrow> http_request \<Rightarrow> http_request" where
  "setVersion v r = r\<lparr>r_version := v\<rparr>"

definition setPath :: "string \<Rightarrow> http_request \<Rightarrow> http_request" where
  "setPath p r = r\<lparr>r_path := p\<rparr>"

definition setQuery :: "(string \<times> string) list \<Rightarrow> http_request \<Rightarrow> http_request" where
  "setQuery q r = r\<lparr>r_query := q\<rparr>"

definition setRawBody :: "string \<Rightarrow> http_request \<Rightarrow> http_request" where
  "setRawBody b r = r\<lparr>r_rawBody := b\<rparr>"

definition insertHeader :: "string_ops \<Rightarrow> string \<Rightarrow> string \<Rightarrow> http_request \<Rightarrow> http_request res" where
  "insertHeader O' key value r =
     bindR (lower O' key) (\<lambda>k. bindR (lower O' value) (\<lambda>v.
       Inr (r\<lparr>r_headers := map_insert (r_headers r) k v\<rparr>)))"

lemmas request_defs = new_request_def request_method_def connectionVersion_def path_def queryMap_def
  rawBody_def headerMap_def setMethod_def setVersion_def setPath_def setQuery_def setRawBody_def

subsection \<open>The string builders\<close>

text \<open>
  \<^verbatim>\<open>RequestParser_v1x::getString\<close> writes through \<^verbatim>\<open>result.end()\<close> of a fresh string.
\<close>

definition getString :: "string \<Rightarrow> string res" where
  "getString bytes = transform_into [] 0 (\<lambda>el. el) bytes"

definition source_ops :: string_ops where
  "source_ops = \<lparr>lower = toLower, copy = getString\<rparr>"

lemma source_ops_simps [simp]:
  "lower source_ops s = (if s = [] then Inr [] else Inl Undefined)"
  "copy source_ops s = (if s = [] then Inr [] else Inl Undefined)"
  by (simp_all add: source_ops_def toLower_def getString_def)

text \<open>
  What the HTTP classes meet in their builders: nothing is reserved in the target but capacity, so
  that a builder returns for an empty argument only and otherwise writes past the end.  Every
  reading or writing of a header, and every look-up in the query, goes through one of them.
\<close>

locale unsized_builders =
  fixes O' :: string_ops
  assumes copy_eq: "copy O' s = (if s = [] then Inr [] else Inl Undefined)"
    and lower_eq: "lower O' s = (if s = [] then Inr [] else Inl Undefined)"
begin

lemma header_outcome:
  "header O' r key = (if key = [] then map_at (r_headers r) [] else Inl Undefined)"
  by (simp add: header_def lower_eq)

lemma query_outcome:
  "query O' r key = (if key = [] then map_at (r_query r) [] else Inl Undefined)"
  by (simp add: query_def lower_eq)

lemma insertHeader_outcome:
  "insertHeader O' k v r =
     (if k = [] \<and> v = [] then Inr (r\<lparr>r_headers := map_insert (r_headers r) [] []\<rparr>) else Inl Undefined)"
  by (simp add: insertHeader_def lower_eq)

end

interpretation source: unsized_builders source_ops
  by unfold_locales simp_all

text \<open>The class invariant: both maps are maps.\<close>

definition request_ok :: "http_request \<Rightarrow> bool" where
  "request_ok r \<longleftrightarrow> sorted_keys (r_query r) \<and> sorted_keys (r_headers r)"

lemma request_ok_new [simp]: "request_ok new_request"
  by (simp add: request_ok_def new_request_def)

lemma request_ok_set [simp]:
  "request_ok (setMethod m r) = request_ok r" "request_ok (setVersion v r) = request_ok r"
  "request_ok (setPath p r) = request_ok r" "request_ok (setRawBody b r) = request_ok r"
  by (simp_all add: request_ok_def request_defs)

text \<open>
  With the builders as they are, no header is ever found under a name and none is stored: the
  getter that the parser calls for the body, \<^verbatim>\<open>header("content-size")\<close>, is undefined behaviour
  for every request, and so is \<^verbatim>\<open>insertHeader\<close> of any header line with a name or a value.
\<close>

lemma source_headers:
  "header source_ops r ''content-size'' = Inl Undefined"
  "k \<noteq> [] \<or> v \<noteq> [] \<Longrightarrow> insertHeader source_ops k v r = Inl Undefined"
  "k \<noteq> [] \<Longrightarrow> query source_ops r k = Inl Undefined"
  by (auto simp: source.header_outcome source.insertHeader_outcome source.query_outcome)

end
