(* ===== verification/RequestParser.thy ===== *)
theory RequestParser
  imports HttpRequest
begin

text \<open>
  \<^verbatim>\<open>src/brutils/HttpServer/RequestParser.cpp\<close>, class \<^verbatim>\<open>RequestParser_v1x\<close>.  Iterators into
  \<^verbatim>\<open>_buffer\<close> are positions; \<open>advance\<close> is \<^verbatim>\<open>std::advance\<close>, undefined past the end.  The
  parser is a record of its members, with the errors and the requests it has emitted
  through its signals as logs.  The first and second level functions return the success
  flag, the new position and the request they were filling in; their only fault is
  undefined behaviour.  \<open>O'\<close> gives the string builders.
\<close>

subsection \<open>Data\<close>

datatype ParseErrorCode = NoError | MethodError | URIError | VersionError

record parse_error =
  errorCode :: ParseErrorCode
  errorStr :: string

datatype ParsingStatus = REQUEST_LINE | HEADER_LINES | BODY | FINISHED | ERROR

record request_parser =
  buffer :: string
  production :: "http_request option"
  parsingStatus :: ParsingStatus
  errorOccured :: "parse_error list"
  newRequestReady :: "http_request list"

definition methodMap :: "(string \<times> HttpMethod) list" where
  "methodMap = [(''GET'', GET), (''HEAD'', HEAD), (''POST'', POST), (''PUT'', PUT),
     (''PATCH'', PATCH), (''DELETE'', DELETE), (''CONNECT'', CONNECT), (''OPTIONS'', OPTIONS),
     (''TRACE'', TRACE)]"

definition versionMap :: "(string \<times> HttpVersion) list" where
  "versionMap = [(''HTTP/1.0'', HTTP_10), (''HTTP/1.1'', HTTP_11)]"

definition new_parser :: request_parser where
  "new_parser = \<lparr>buffer = [], production = None, parsingStatus = REQUEST_LINE,
     errorOccured = [], newRequestReady = []\<rparr>"

subsection \<open>Positions\<close>

text \<open>\<open>find_pos P b p e\<close> is \<^verbatim>\<open>std::find_if\<close> on the range from \<open>p\<close> to \<open>e\<close>: \<open>e\<close> if there is none.\<close>

definition subrange :: "string \<Rightarrow> nat \<Rightarrow> nat \<Rightarrow> string" where
  "subrange b p e = take (e - p) (drop p b)"

definition find_pos :: "(char \<Rightarrow> bool) \<Rightarrow> string \<Rightarrow> nat \<Rightarrow> nat \<Rightarrow> nat" where
  "find_pos P b p e = p + length (takeWhile (\<lambda>c. \<not> P c) (subrange b p e))"

definition advance :: "string \<Rightarrow> nat \<Rightarrow> nat \<Rightarrow> nat res" where
  "advance b p n = (if p + n \<le> length b then Inr (p + n) else Inl Undefined)"

definition newline :: "char \<Rightarrow> bool" where
  "newline c \<longleftrightarrow> c = cr \<or> c = lf"

lemma advance_InrD: "advance b p n = Inr q \<Longrightarrow> q = p + n \<and> q \<le> length b"
  by (simp add: advance_def split: if_splits)

lemma find_pos_ge: "p \<le> find_pos P b p e"
  by (simp add: find_pos_def)

text \<open>\<^verbatim>\<open>std::stoll\<close> of the standard library, base 10.\<close>

definition stoll :: "string \<Rightarrow> int res" where
  "stoll s =
     (let w = dropWhile isspace s;
          ds = takeWhile isdigit (if w \<noteq> [] \<and> (hd w = CHR ''-'' \<or> hd w = CHR ''+'') then tl w else w);
          v = foldl (\<lambda>a c. 10 * a + digit_val c) 0 ds;
          v = (if w \<noteq> [] \<and> hd w = CHR ''-'' then - v else v)
      in if ds = [] then Inl InvalidArgument
         else if - (2 ^ 63) \<le> v \<and> v < 2 ^ 63 then Inr v else Inl OutOfRange)"

subsection \<open>Second and third level functions\<close>

type_synonym 'a step = "(bool \<times> nat \<times> 'a) res"

definition parseMethod :: "string \<Rightarrow> nat \<Rightarrow> nat \<Rightarrow> http_request \<Rightarrow> http_request step" where
  "parseMethod b pos e r =
     (let methodEndPos = find_pos (\<lambda>c. c = CHR 0x20) b pos e in
      if methodEndPos = e then Inr (False, pos, r)
      else
        let m = (case map_of methodMap (subrange b pos methodEndPos) of
                   None \<Rightarrow> UNKNOWN_METHOD | Some m \<Rightarrow> m) in
        if m = UNKNOWN_METHOD then Inr (False, pos, r)
        else bindR (advance b methodEndPos 1) (\<lambda>pos. Inr (True, pos, setMethod m r)))"

definition parseVersion :: "string \<Rightarrow> nat \<Rightarrow> nat \<Rightarrow> http_request \<Rightarrow> http_request step" where
  "parseVersion b pos e r =
     (let v = (case map_of versionMap (subrange b pos e) of
                 None \<Rightarrow> UNKNOWN_VERSION | Some v \<Rightarrow> v) in
      if v = UNKNOWN_VERSION then Inr (False, pos, r)
      else Inr (True, e, setVersion v r))"

definition parsePath :: "string_ops \<Rightarrow> string \<Rightarrow> nat \<Rightarrow> nat \<Rightarrow> http_request \<Rightarrow> http_request step" where
  "parsePath O' b pos e r =
     (if e \<le> pos then Inr (False, pos, r)
      else bindR (copy O' (subrange b pos e)) (\<lambda>p. Inr (True, e, setPath p r)))"

text \<open>One pair of the query, between two ampersands.\<close>

definition queryPair ::
  "string_ops \<Rightarrow> string \<Rightarrow> nat \<Rightarrow> nat \<Rightarrow> (string \<times> string) list \<Rightarrow> (string \<times> string) list res" where
  "queryPair O' b pos pairEndPos q =
     (let keyEndPos = find_pos (\<lambda>c. c = CHR ''='') b pos pairEndPos in
      if keyEndPos = pairEndPos then
        bindR (copy O' (subrange b pos pairEndPos)) (\<lambda>k. Inr (map_insert q k []))
      else
        bindR (advance b keyEndPos 1) (\<lambda>valueStartPos.
        bindR (copy O' (subrange b pos keyEndPos)) (\<lambda>k.
        bindR (copy O' (subrange b valueStartPos pairEndPos)) (\<lambda>v.
          Inr (map_insert q k v)))))"

function parseQuery_loop ::
  "string_ops \<Rightarrow> string \<Rightarrow> nat \<Rightarrow> nat \<Rightarrow> (string \<times> string) list \<Rightarrow> (nat \<times> (string \<times> string) list) res"
where
  "parseQuery_loop O' b pos e q =
     (if pos < e then
        (let pairEndPos = find_pos (\<lambda>c. c = CHR ''&'') b pos e in
         bindR (queryPair O' b pos pairEndPos q) (\<lambda>q.
         bindR (advance b pairEndPos 1) (\<lambda>pos.
           parseQuery_loop O' b pos e q)))
      else Inr (pos, q))"
  by pat_completeness auto
termination
  by (relation "measure (\<lambda>(O', b, pos, e, q). e - pos)")
     (auto dest!: advance_InrD intro!: diff_less_mono2 simp: less_Suc_eq_le find_pos_ge)

declare parseQuery_loop.simps [simp del]

definition parseQuery :: "string_ops \<Rightarrow> string \<Rightarrow> nat \<Rightarrow> nat \<Rightarrow> http_request \<Rightarrow> http_request step" where
  "parseQuery O' b pos e r =
     bindR (parseQuery_loop O' b pos e []) (\<lambda>(pos, q). Inr (True, pos, setQuery q r))"

definition parsePathAndQuery ::
  "string_ops \<Rightarrow> string \<Rightarrow> nat \<Rightarrow> nat \<Rightarrow> http_request \<Rightarrow> http_request step" where
  "parsePathAndQuery O' b pos e r =
     (let uriEndPos = find_pos (\<lambda>c. c = CHR 0x20) b pos e in
      if uriEndPos = e then Inr (False, pos, r)
      else
        let queryStartPos = find_pos (\<lambda>c. c = CHR ''?'') b pos uriEndPos in
        if queryStartPos = uriEndPos then
          bindR (parsePath O' b pos uriEndPos r) (\<lambda>(_, pos, r). Inr (True, pos, r))
        else
          bindR (parsePath O' b pos queryStartPos r) (\<lambda>(ok, pos, r).
            if \<not> ok then Inr (False, pos, r)
            else bindR (advance b pos 1) (\<lambda>pos. parseQuery O' b pos uriEndPos r)))"

subsection \<open>First level functions\<close>

text \<open>Only a failing method is reported: the other two errors are built and dropped.\<close>

definition parseRequestLine ::
  "string_ops \<Rightarrow> string \<Rightarrow> nat \<Rightarrow> nat \<Rightarrow> http_request \<Rightarrow> (http_request \<times> parse_error list) step" where
  "parseRequestLine O' b pos e r =
     (if pos = e then Inr (False, pos, r, [])
      else
        let lineEndPos = find_pos newline b pos e in
        bindR (parseMethod b pos lineEndPos r) (\<lambda>(ok, pos, r).
          if \<not> ok then
            Inr (False, pos, r, [\<lparr>errorCode = MethodError,
              errorStr = ''Cannot parse method in request line''\<rparr>])
          else
        bindR (parsePathAndQuery O' b pos lineEndPos r) (\<lambda>(ok, pos, r).
          if \<not> ok then Inr (False, pos, r, [])
          else
        bindR (parseVersion b pos lineEndPos r) (\<lambda>(ok, pos, r).
          if \<not> ok then Inr (False, pos, r, [])
          else bindR (advance b pos 2) (\<lambda>pos. Inr (True, pos, r, []))))))"

function parseHeader :: "string_ops \<Rightarrow> string \<Rightarrow> nat \<Rightarrow> nat \<Rightarrow> http_request \<Rightarrow> http_request step" where
  "parseHeader O' b pos e r =
     (if pos \<noteq> e then
        (let lineEndPos = find_pos newline b pos e in
         if lineEndPos = pos then
           bindR (advance b pos 2) (\<lambda>pos. Inr (True, pos, r))
         else
           let keyEndPos = find_pos (\<lambda>c. c = CHR '':'') b pos lineEndPos in
           if keyEndPos = lineEndPos then Inr (False, pos, r)
           else
             bindR (copy O' (subrange b pos keyEndPos)) (\<lambda>key.
             bindR (advance b keyEndPos 1) (\<lambda>valuePos.
             let valueStart = find_pos (\<lambda>c. c \<noteq> CHR 0x20) b valuePos lineEndPos in
             bindR (copy O' (subrange b valueStart lineEndPos)) (\<lambda>value.
             bindR (advance b lineEndPos 2) (\<lambda>pos'.
             bindR (insertHeader O' key value r) (\<lambda>r.
               parseHeader O' b pos' e r))))))
      else Inr (False, pos, r))"
  by pat_completeness auto
termination
proof (relation "measure (\<lambda>(O', b, pos, e, r). length b - pos)", goal_cases)
  case (2 O' b pos e r l k key vp vs v p r')
  then show ?case
    using find_pos_ge [of pos newline b e] by (auto dest!: advance_InrD)
qed simp

declare parseHeader.simps [simp del]

definition parseBody :: "string \<Rightarrow> nat \<Rightarrow> nat \<Rightarrow> nat \<Rightarrow> http_request \<Rightarrow> http_request step" where
  "parseBody b pos e contentSize r =
     (if contentSize > e - pos then Inr (False, pos, r)
      else Inr (True, e, setRawBody (subrange b pos e) r))"

subsection \<open>The loop\<close>

text \<open>
  A statement of the loop body changes the parser and either throws or goes on with the
  position; \<open>stepThen\<close> puts two of them in sequence.
\<close>

type_synonym 'a stepped = "request_parser \<times> 'a res"

definition stepThen :: "'a stepped \<Rightarrow> (request_parser \<Rightarrow> 'a \<Rightarrow> 'b stepped) \<Rightarrow> 'b stepped" where
  "stepThen m f = (case m of (p, Inl e) \<Rightarrow> (p, Inl e) | (p, Inr x) \<Rightarrow> f p x)"

lemma stepThen_simps [simp]:
  "stepThen (p, Inl e) f = (p, Inl e)"
  "stepThen (p, Inr x) f = f p x"
  by (simp_all add: stepThen_def)

definition in_production :: "request_parser \<Rightarrow> http_request" where
  "in_production p = (case production p of None \<Rightarrow> new_request | Some r \<Rightarrow> r)"

definition requestLineStep :: "string_ops \<Rightarrow> request_parser \<Rightarrow> nat \<Rightarrow> nat stepped" where
  "requestLineStep O' p pos =
     (if parsingStatus p = REQUEST_LINE then
        (case parseRequestLine O' (buffer p) pos (length (buffer p)) (in_production p) of
           Inl e \<Rightarrow> (p, Inl e)
         | Inr (ok, pos, r, errs) \<Rightarrow>
             (p\<lparr>production := Some r, errorOccured := errorOccured p @ errs,
                parsingStatus := (if ok then HEADER_LINES else ERROR)\<rparr>, Inr pos))
      else (p, Inr pos))"

definition headerStep :: "string_ops \<Rightarrow> request_parser \<Rightarrow> nat \<Rightarrow> nat stepped" where
  "headerStep O' p pos =
     (if parsingStatus p = HEADER_LINES then
        (case parseHeader O' (buffer p) pos (length (buffer p)) (in_production p) of
           Inl e \<Rightarrow> (p, Inl e)
         | Inr (ok, pos, r) \<Rightarrow>
             if \<not> ok then (p\<lparr>production := Some r, parsingStatus := ERROR\<rparr>, Inr pos)
             else
               let p = p\<lparr>production := Some r\<rparr> in
               (case header O' r ''content-size'' of
                  Inl e \<Rightarrow> (p, Inl e)
                | Inr contentSize \<Rightarrow>
                    (p\<lparr>parsingStatus := (if contentSize = [] then FINISHED else BODY)\<rparr>, Inr pos)))
      else (p, Inr pos))"

definition bodyStep :: "string_ops \<Rightarrow> request_parser \<Rightarrow> nat \<Rightarrow> nat stepped" where
  "bodyStep O' p pos =
     (if parsingStatus p = BODY then
        (case bindR (header O' (in_production p) ''content-size'') stoll of
           Inl e \<Rightarrow> (p, Inl e)
         | Inr size' \<Rightarrow>
             (case parseBody (buffer p) pos (length (buffer p)) (size_of_int size') (in_production p) of
                Inl e \<Rightarrow> (p, Inl e)
              | Inr (ok, pos, r) \<Rightarrow>
                  (p\<lparr>production := Some r, parsingStatus := (if ok then FINISHED else ERROR)\<rparr>, Inr pos)))
      else (p, Inr pos))"

text \<open>The end of the loop body: \<open>Some\<close> result returns from \<^verbatim>\<open>parse\<close>, \<open>None\<close> goes round again.\<close>

definition finishStep :: "request_parser \<Rightarrow> nat \<Rightarrow> (bool option \<times> nat) stepped" where
  "finishStep p pos =
     (if parsingStatus p = FINISHED then
        (p\<lparr>parsingStatus := REQUEST_LINE\<rparr>, Inr (Some True, pos))
      else if parsingStatus p = ERROR then
        (p\<lparr>errorOccured := errorOccured p @ [\<lparr>errorCode = NoError, errorStr = []\<rparr>]\<rparr>,
         Inr (Some False, pos))
      else (p, Inr (None, pos)))"

definition parse_iteration :: "string_ops \<Rightarrow> request_parser \<Rightarrow> nat \<Rightarrow> (bool option \<times> nat) stepped" where
  "parse_iteration O' p pos =
     stepThen (requestLineStep O' p pos) (\<lambda>p pos.
     stepThen (headerStep O' p pos) (\<lambda>p pos.
     stepThen (bodyStep O' p pos) finishStep))"

partial_function (option) parse_loop ::
  "string_ops \<Rightarrow> request_parser \<Rightarrow> nat \<Rightarrow> (request_parser \<times> bool res) option" where
  "parse_loop O' p pos =
     (if pos \<noteq> length (buffer p) then
        (case parse_iteration O' p pos of
           (p, Inl e) \<Rightarrow> Some (p, Inl e)
         | (p, Inr (Some b, pos)) \<Rightarrow> Some (p, Inr b)
         | (p, Inr (None, pos)) \<Rightarrow> parse_loop O' p pos)
      else Some (p, Inr False))"

definition parser_parse :: "string_ops \<Rightarrow> request_parser \<Rightarrow> (request_parser \<times> bool res) option" where
  "parser_parse O' p = parse_loop O' (p\<lparr>production := Some (in_production p)\<rparr>) 0"

subsection \<open>The two interfaces\<close>

definition newIncomingData ::
  "string_ops \<Rightarrow> string \<Rightarrow> request_parser \<Rightarrow> (request_parser \<times> http_request option res) option" where
  "newIncomingData O' data p =
     (case parser_parse O' (p\<lparr>buffer := buffer p @ data\<rparr>) of
        None \<Rightarrow> None
      | Some (p, Inl e) \<Rightarrow> Some (p, Inl e)
      | Some (p, Inr b) \<Rightarrow>
          if b then Some (p\<lparr>production := None\<rparr>, Inr (production p)) else Some (p, Inr None))"

partial_function (option) slot_loop ::
  "string_ops \<Rightarrow> request_parser \<Rightarrow> (request_parser \<times> unit res) option" where
  "slot_loop O' p =
     (case parser_parse O' p of
        None \<Rightarrow> None
      | Some (p, Inl e) \<Rightarrow> Some (p, Inl e)
      | Some (p, Inr requestAvailable) \<Rightarrow>
          if requestAvailable then
            slot_loop O' (p\<lparr>newRequestReady := newRequestReady p @ [in_production p],
                            production := None\<rparr>)
          else Some (p, Inr ()))"

definition newDataReceived_slot ::
  "string_ops \<Rightarrow> string \<Rightarrow> request_parser \<Rightarrow> (request_parser \<times> unit res) option" where
  "newDataReceived_slot O' data p = slot_loop O' (p\<lparr>buffer := buffer p @ data\<rparr>)"

end
