(* ===== verification/RequestParserFacts.thy ===== *)
theory RequestParserFacts
  imports RequestParser
begin

text \<open>
  What holds of \<^verbatim>\<open>RequestParser_v1x\<close>: the loop of \<^verbatim>\<open>parse\<close> ends in its first round, whatever the
  builders; and what the functions of the first line return with builders that are undefined on
  every non-empty range, which are the ones the sources have.
\<close>

subsection \<open>The loop ends in its first round\<close>

lemma status_requestLine:
  "requestLineStep O' p pos = (p', Inr pos') \<Longrightarrow> parsingStatus p' \<noteq> REQUEST_LINE"
  by (auto simp: requestLineStep_def split: if_splits sum.splits)

lemma status_header:
  "headerStep O' p pos = (p', Inr pos') \<Longrightarrow> parsingStatus p \<noteq> REQUEST_LINE \<Longrightarrow>
    parsingStatus p' \<noteq> REQUEST_LINE \<and> parsingStatus p' \<noteq> HEADER_LINES"
  by (auto simp: headerStep_def Let_def split: if_splits sum.splits prod.splits)

lemma status_body:
  "bodyStep O' p pos = (p', Inr pos') \<Longrightarrow> parsingStatus p \<noteq> REQUEST_LINE \<Longrightarrow>
    parsingStatus p \<noteq> HEADER_LINES \<Longrightarrow> parsingStatus p' = FINISHED \<or> parsingStatus p' = ERROR"
  by (cases "parsingStatus p")
     (auto simp: bodyStep_def Let_def split: if_splits sum.splits prod.splits)

lemma stepThen_InrD:
  "stepThen m f = (p', Inr y) \<Longrightarrow> \<exists>p x. m = (p, Inr x) \<and> f p x = (p', Inr y)"
  by (auto simp: stepThen_def split: sum.splits prod.splits)

lemma iteration_returns: "parse_iteration O' p pos \<noteq> (p', Inr (None, pos'))"
proof
  assume "parse_iteration O' p pos = (p', Inr (None, pos'))"
  then obtain p1 x1 p2 x2 p3 x3 where "requestLineStep O' p pos = (p1, Inr x1)"
    "headerStep O' p1 x1 = (p2, Inr x2)" "bodyStep O' p2 x2 = (p3, Inr x3)"
    and fin: "finishStep p3 x3 = (p', Inr (None, pos'))"
    unfolding parse_iteration_def by (blast dest: stepThen_InrD)
  with status_requestLine status_header status_body
  have "parsingStatus p3 = FINISHED \<or> parsingStatus p3 = ERROR" by meson
  with fin show False by (auto simp: finishStep_def)
qed

definition drop_position :: "(bool option \<times> nat) stepped \<Rightarrow> request_parser \<times> bool res" where
  "drop_position m = (fst m, bindR (snd m) (\<lambda>(r, pos). Inr (r = Some True)))"

lemma parser_parse_once:
  "parser_parse O' p = Some
     (let p = p\<lparr>production := Some (in_production p)\<rparr>
      in if buffer p = [] then (p, Inr False) else drop_position (parse_iteration O' p 0))"
proof -
  let ?p = "p\<lparr>production := Some (in_production p)\<rparr>"
  obtain p' r where it: "parse_iteration O' ?p 0 = (p', r)" by (cases "parse_iteration O' ?p 0")
  show ?thesis
  proof (cases r)
    case (Inr x)
    with it iteration_returns [of O' ?p 0 p'] obtain v pos where "r = Inr (Some v, pos)"
      by (cases x; cases "fst x") auto
    with it show ?thesis
      by (auto simp: parser_parse_def parse_loop.simps drop_position_def)
  qed (use it in \<open>auto simp: parser_parse_def parse_loop.simps drop_position_def\<close>)
qed

subsection \<open>The first line\<close>

lemma length_subrange: "e \<le> length b \<Longrightarrow> length (subrange b p e) = e - p"
  by (simp add: subrange_def)

lemma subrange_all [simp]: "subrange b 0 (length b) = b"
  by (simp add: subrange_def)

lemma methodMap_chars: "map_of methodMap m = Some k \<Longrightarrow>
    k \<noteq> UNKNOWN_METHOD \<and> CHR 0x20 \<notin> set m \<and> (\<forall>c \<in> set m. \<not> newline c)"
  by (auto simp: methodMap_def newline_def split: if_splits dest!: map_of_SomeD)

lemma versionMap_no_space: "map_of versionMap (CHR 0x20 # s) = None"
  by (simp add: versionMap_def)

text \<open>
  What the parser looks for at the start of the first line: a method and a space, behind them a
  URI that does not start with a question mark, and a space behind the URI.
\<close>

definition begins_with_method :: "string \<Rightarrow> bool" where
  "begins_with_method b =
     (let line = takeWhile (\<lambda>c. \<not> newline c) b;
          m = takeWhile (\<lambda>c. c \<noteq> CHR 0x20) line
      in length m < length line \<and> map_of methodMap m \<noteq> None)"

definition request_begins :: "string \<Rightarrow> bool" where
  "request_begins b =
     (let line = takeWhile (\<lambda>c. \<not> newline c) b;
          m = takeWhile (\<lambda>c. c \<noteq> CHR 0x20) line;
          behind = drop (Suc (length m)) line;
          uri = takeWhile (\<lambda>c. c \<noteq> CHR 0x20) behind
      in begins_with_method b \<and> length uri < length behind \<and> uri \<noteq> [] \<and> hd uri \<noteq> CHR ''?'')"

definition method_error :: parse_error where
  "method_error = \<lparr>errorCode = MethodError, errorStr = ''Cannot parse method in request line''\<rparr>"

lemma takeWhile_shorter:
  "length (takeWhile P xs) < length xs \<longleftrightarrow> (\<exists>x ys. xs = takeWhile P xs @ x # ys \<and> \<not> P x)"
proof
  assume "length (takeWhile P xs) < length xs"
  then have "dropWhile P xs \<noteq> []" using takeWhile_dropWhile_id [of P xs] by (metis append_Nil2 nat_less_le)
  then show "\<exists>x ys. xs = takeWhile P xs @ x # ys \<and> \<not> P x"
    using takeWhile_dropWhile_id [of P xs] hd_dropWhile [of P xs] by (metis list.collapse)
next
  assume "\<exists>x ys. xs = takeWhile P xs @ x # ys \<and> \<not> P x"
  then obtain x ys where "xs = takeWhile P xs @ x # ys" by blast
  then have "length xs = length (takeWhile P xs) + Suc (length ys)"
    by (metis length_append length_Cons)
  then show "length (takeWhile P xs) < length xs" by simp
qed

lemma subrange_line:
  assumes "line = takeWhile P b" "p \<le> length line"
  shows "subrange b p (length line) = drop p line"
proof -
  have "take (length line) b = line"
    unfolding assms(1) by (metis takeWhile_eq_take)
  then show ?thesis unfolding subrange_def drop_take [symmetric] by simp
qed

lemma subrange_prefix:
  assumes "subrange b p e = s" "p + length (takeWhile P s) \<le> e"
  shows "subrange b p (p + length (takeWhile P s)) = takeWhile P s"
proof -
  have "take (length (takeWhile P s)) s = takeWhile P s" by (metis takeWhile_eq_take)
  moreover have "take (length (takeWhile P s)) s = take (length (takeWhile P s)) (drop p b)"
    using assms by (auto simp: subrange_def min_def)
  ultimately show ?thesis by (simp add: subrange_def)
qed

lemma request_begins_iff:
  "request_begins b \<longleftrightarrow> (\<exists>m u rest. b = m @ CHR 0x20 # u @ CHR 0x20 # rest \<and> map_of methodMap m \<noteq> None \<and>
     u \<noteq> [] \<and> hd u \<noteq> CHR ''?'' \<and> (\<forall>c \<in> set u. c \<noteq> CHR 0x20 \<and> \<not> newline c))"
proof
  assume "request_begins b"
  then obtain line m behind uri where d: "line = takeWhile (\<lambda>c. \<not> newline c) b"
    "m = takeWhile (\<lambda>c. c \<noteq> CHR 0x20) line" "behind = drop (Suc (length m)) line"
    "uri = takeWhile (\<lambda>c. c \<noteq> CHR 0x20) behind" and
    r: "length m < length line" "map_of methodMap m \<noteq> None" "length uri < length behind" "uri \<noteq> []" "hd uri \<noteq> CHR ''?''"
    unfolding request_begins_def begins_with_method_def Let_def by blast
  obtain ys where l: "line = m @ CHR 0x20 # ys"
    using takeWhile_shorter [of "\<lambda>c. c \<noteq> CHR 0x20" line] r(1) unfolding d(2) by auto
  then have "behind = ys" unfolding d(3) by simp
  moreover obtain zs where z: "behind = uri @ CHR 0x20 # zs"
    using takeWhile_shorter [of "\<lambda>c. c \<noteq> CHR 0x20" behind] r(3) unfolding d(4) by auto
  ultimately have line: "line = m @ CHR 0x20 # uri @ CHR 0x20 # zs" using l by simp
  have "b = line @ dropWhile (\<lambda>c. \<not> newline c) b" unfolding d(1) by simp
  with line have "b = m @ CHR 0x20 # uri @ CHR 0x20 # (zs @ dropWhile (\<lambda>c. \<not> newline c) b)" by simp
  moreover have "\<forall>c \<in> set line. \<not> newline c" unfolding d(1) by (auto dest: set_takeWhileD)
  then have "\<forall>c \<in> set uri. \<not> newline c" unfolding line by simp
  moreover have "\<forall>c \<in> set uri. c \<noteq> CHR 0x20" unfolding d(4) by (auto dest: set_takeWhileD)
  ultimately show "\<exists>m u rest. b = m @ CHR 0x20 # u @ CHR 0x20 # rest \<and> map_of methodMap m \<noteq> None \<and>
     u \<noteq> [] \<and> hd u \<noteq> CHR ''?'' \<and> (\<forall>c \<in> set u. c \<noteq> CHR 0x20 \<and> \<not> newline c)" using r(2,4,5) by blast
next
  assume "\<exists>m u rest. b = m @ CHR 0x20 # u @ CHR 0x20 # rest \<and> map_of methodMap m \<noteq> None \<and>
     u \<noteq> [] \<and> hd u \<noteq> CHR ''?'' \<and> (\<forall>c \<in> set u. c \<noteq> CHR 0x20 \<and> \<not> newline c)"
  then obtain m u rest where b: "b = m @ CHR 0x20 # u @ CHR 0x20 # rest" and m: "map_of methodMap m \<noteq> None"
    and u: "u \<noteq> []" "hd u \<noteq> CHR ''?''" and uc: "\<forall>c \<in> set u. c \<noteq> CHR 0x20 \<and> \<not> newline c"
    by (elim exE conjE)
  from uc have ud: "\<forall>c \<in> set u. c \<noteq> CHR 0x20" "\<forall>c \<in> set u. \<not> newline c" by simp_all
  obtain k where "map_of methodMap m = Some k" using m by blast
  note mc = methodMap_chars [OF this]
  have sp: "\<not> newline (CHR 0x20)" by (simp add: newline_def)
  let ?r = "takeWhile (\<lambda>c. \<not> newline c) rest"
  have line: "takeWhile (\<lambda>c. \<not> newline c) b = m @ CHR 0x20 # u @ CHR 0x20 # ?r"
    using mc ud(2) sp by (simp add: b takeWhile_append2)
  have "takeWhile (\<lambda>c. c \<noteq> CHR 0x20) (m @ CHR 0x20 # u @ CHR 0x20 # ?r) = m"
    using mc by (subst takeWhile_append2) auto
  moreover have "takeWhile (\<lambda>c. c \<noteq> CHR 0x20) (u @ CHR 0x20 # ?r) = u"
    using ud(1) by (subst takeWhile_append2) auto
  ultimately show "request_begins b"
    using m u(1,2) unfolding request_begins_def begins_with_method_def line Let_def by simp
qed


lemma parsePathAndQuery_missing:
  assumes "length uri = length behind" "uri = takeWhile (\<lambda>c. c \<noteq> CHR 0x20) behind"
    "subrange b p e = behind" "p \<le> e" "e \<le> length b"
  shows "parsePathAndQuery O' b p e r = Inr (False, p, r)"
proof -
  have "find_pos (\<lambda>c. c = CHR 0x20) b p e = e"
    using assms length_subrange [of e b p] by (simp add: find_pos_def)
  then show ?thesis by (simp add: parsePathAndQuery_def)
qed

context unsized_builders
begin

lemma parsePath_outcome:
  assumes "e \<le> length b"
  shows "parsePath O' b p e r = (if e \<le> p then Inr (False, p, r) else Inl Undefined)"
proof (cases "e \<le> p")
  case False
  with assms have "length (subrange b p e) \<noteq> 0" by (simp add: length_subrange)
  then have "subrange b p e \<noteq> []" by simp
  with False show ?thesis by (simp add: parsePath_def copy_eq)
qed (simp add: parsePath_def)

lemma parsePathAndQuery_outcome:
  assumes "length uri < length behind" "uri = takeWhile (\<lambda>c. c \<noteq> CHR 0x20) behind"
    "subrange b p e = behind" "p \<le> e" "e \<le> length b"
  shows "parsePathAndQuery O' b p e r =
    (if uri \<noteq> [] \<and> hd uri \<noteq> CHR ''?'' then Inl Undefined
     else if uri = [] then Inr (True, p, r) else Inr (False, p, r))"
proof -
  have lb: "length behind = e - p" using assms length_subrange [of e b p] by simp
  let ?ue = "p + length uri" and ?pth = "takeWhile (\<lambda>c. c \<noteq> CHR ''?'') uri"
  have ue: "find_pos (\<lambda>c. c = CHR 0x20) b p e = ?ue" by (simp add: find_pos_def assms(2,3))
  have le: "?ue \<noteq> e" "?ue \<le> length b" using assms lb by linarith+
  have "subrange b p ?ue = uri"
    unfolding assms(2) by (rule subrange_prefix [OF assms(3)]) (use assms(1,2,4) lb in simp)
  then have qs: "find_pos (\<lambda>c. c = CHR ''?'') b p ?ue = p + length ?pth" by (simp add: find_pos_def)
  have q: "p + length ?pth \<le> length b" using le(2) length_takeWhile_le [of "\<lambda>c. c \<noteq> CHR ''?''" uri] by linarith
  have pth: "?pth = [] \<longleftrightarrow> uri = [] \<or> hd uri = CHR ''?''" by (cases uri) simp_all
  show ?thesis
  proof (cases "uri = [] \<or> hd uri = CHR ''?''")
    case True
    with pth have p0: "?pth = []" by simp
    then have "length ?pth = 0" by simp
    with True le(1) show ?thesis
      unfolding parsePathAndQuery_def Let_def ue qs parsePath_outcome [OF q] parsePath_outcome [OF le(2)] p0
      by (cases "uri = []") (simp_all add: parsePath_def)
  next
    case False
    with pth have "length ?pth \<noteq> 0" "length uri \<noteq> 0" by simp_all
    with False le(1) show ?thesis
      unfolding parsePathAndQuery_def Let_def ue qs parsePath_outcome [OF q] parsePath_outcome [OF le(2)]
      by simp
  qed
qed

lemma parseRequestLine_outcome:
  assumes "b \<noteq> []"
  shows "if request_begins b then parseRequestLine O' b 0 (length b) r = Inl Undefined
    else \<exists>pos r'. parseRequestLine O' b 0 (length b) r =
      Inr (False, pos, r', if begins_with_method b then [] else [method_error])"
proof -
  define line where "line = takeWhile (\<lambda>c. \<not> newline c) b"
  define m where "m = takeWhile (\<lambda>c. c \<noteq> CHR 0x20) line"
  define behind where "behind = drop (Suc (length m)) line"
  define uri where "uri = takeWhile (\<lambda>c. c \<noteq> CHR 0x20) behind"
  note defs = line_def m_def behind_def uri_def
  let ?e = "length line"
  have e: "find_pos newline b 0 (length b) = ?e" by (simp add: find_pos_def line_def)
  have eb: "?e \<le> length b" unfolding line_def by (rule length_takeWhile_le)
  have sl: "subrange b p ?e = drop p line" if "p \<le> ?e" for p
    by (rule subrange_line [OF line_def that])
  have m_end: "find_pos (\<lambda>c. c = CHR 0x20) b 0 ?e = length m" by (simp add: find_pos_def sl m_def)
  have lm: "length m \<le> ?e" unfolding m_def by (rule length_takeWhile_le)
  have sm: "subrange b 0 (length m) = m"
    using subrange_prefix [of b 0 ?e line "\<lambda>c. c \<noteq> CHR 0x20"] sl [of 0] lm by (simp add: m_def)
  have bm: "begins_with_method b \<longleftrightarrow> length m < ?e \<and> map_of methodMap m \<noteq> None"
    by (simp add: begins_with_method_def Let_def line_def m_def)
  then have rb: "request_begins b \<longleftrightarrow> begins_with_method b \<and> length uri < length behind \<and>
      uri \<noteq> [] \<and> hd uri \<noteq> CHR ''?''"
    by (simp add: request_begins_def Let_def defs)
  have pl: "parseRequestLine O' b 0 (length b) r =
      bindR (parseMethod b 0 ?e r) (\<lambda>(ok, pos, r).
          if \<not> ok then
            Inr (False, pos, r, [\<lparr>errorCode = MethodError,
              errorStr = ''Cannot parse method in request line''\<rparr>])
          else
        bindR (parsePathAndQuery O' b pos ?e r) (\<lambda>(ok, pos, r).
          if \<not> ok then Inr (False, pos, r, [])
          else
        bindR (parseVersion b pos ?e r) (\<lambda>(ok, pos, r).
          if \<not> ok then Inr (False, pos, r, [])
          else bindR (advance b pos 2) (\<lambda>pos. Inr (True, pos, r, [])))))"
    unfolding parseRequestLine_def Let_def e using assms by simp
  show ?thesis
  proof (cases "length m < ?e \<and> map_of methodMap m \<noteq> None")
    case False
    then have "parseMethod b 0 ?e r = Inr (False, 0, r)"
      using lm by (auto simp: parseMethod_def m_end sm Let_def)
    with False show ?thesis by (simp add: pl rb bm method_error_def)
  next
    case True
    then obtain k where k: "map_of methodMap m = Some k" by blast
    let ?p = "Suc (length m)"
    from True bm have bm': "begins_with_method b" by blast
    have "parseMethod b 0 ?e r = Inr (True, ?p, setMethod k r)"
      using True methodMap_chars [OF k] eb k by (simp add: parseMethod_def m_end sm Let_def advance_def)
    note pl' = pl [unfolded this bindR_simps prod.case not_True_eq_False if_False]
    have pe: "?p \<le> ?e" using True by simp
    note sb = sl [OF pe, folded behind_def]
    show ?thesis
    proof (cases "length uri < length behind")
      case False
      then have "length uri = length behind" unfolding uri_def using length_takeWhile_le le_antisym not_less by blast
      from parsePathAndQuery_missing [OF this uri_def sb pe eb] False show ?thesis by (simp add: pl' rb bm')
    next
      case uri: True
      note out = parsePathAndQuery_outcome [OF uri uri_def sb pe eb]
      show ?thesis
      proof (cases "uri = []")
        case True
        with uri have "behind \<noteq> []" "hd behind = CHR 0x20" unfolding uri_def by (cases behind; auto split: if_splits)+
        then obtain s where "behind = CHR 0x20 # s" by (cases behind) auto
        then have "parseVersion b ?p ?e (setMethod k r) = Inr (False, ?p, setMethod k r)"
          by (simp add: parseVersion_def sb versionMap_no_space)
        with True out show ?thesis by (simp add: pl' rb bm')
      next
        case False
        with out \<open>length m < ?e \<and> map_of methodMap m \<noteq> None\<close> uri show ?thesis by (simp add: pl' rb bm')
      qed
    qed
  qed
qed

end

end
