(* ===== verification/RequestParserProperties.thy ===== *)
theory RequestParserProperties
  imports RequestParserFacts
begin

text \<open>
  The properties of \<^verbatim>\<open>RequestParser_v1x\<close> with the string builders its sources have: what the first
  bytes that arrive lead to, through either interface; that no sequence of bytes, in whatever
  pieces, makes it deliver a request; and that an error is permanent, whatever the builders.
\<close>

subsection \<open>Sequences of calls\<close>

text \<open>The results of a sequence of calls, one per chunk of data; \<open>None\<close> if one of them faults.\<close>

fun feed :: "string_ops \<Rightarrow> string list \<Rightarrow> request_parser \<Rightarrow> (request_parser \<times> http_request option list) option"
where
  "feed O' [] p = Some (p, [])"
| "feed O' (d # ds) p =
     (case newIncomingData O' d p of
        Some (p', Inr r) \<Rightarrow> map_option (\<lambda>(q, rs). (q, r # rs)) (feed O' ds p')
      | _ \<Rightarrow> None)"

text \<open>The same through the slot, whose only results are the requests it emits.\<close>

fun feed_slot :: "string_ops \<Rightarrow> string list \<Rightarrow> request_parser \<Rightarrow> request_parser option" where
  "feed_slot O' [] p = Some p"
| "feed_slot O' (d # ds) p =
     (case newDataReceived_slot O' d p of
        Some (p', Inr u) \<Rightarrow> feed_slot O' ds p'
      | _ \<Rightarrow> None)"

text \<open>
  \<^verbatim>\<open>parse\<close> ends in the first round of its loop: every call of \<^verbatim>\<open>newIncomingData\<close> returns
  or throws, whatever the builders, the state and the data.
\<close>

theorem newIncomingData_returns: "\<exists>p' r. newIncomingData O' data p = Some (p', r)"
proof -
  obtain q r where "parser_parse O' (p\<lparr>buffer := buffer p @ data\<rparr>) = Some (q, r)"
    unfolding parser_parse_once by (metis surj_pair)
  then show ?thesis by (cases r) (simp_all add: newIncomingData_def)
qed

subsection \<open>Errors are permanent\<close>

definition no_error :: parse_error where
  "no_error = \<lparr>errorCode = NoError, errorStr = []\<rparr>"

lemma error_parse:
  assumes "parsingStatus p = ERROR"
  shows "\<exists>p'. parser_parse O' p = Some (p', Inr False) \<and> parsingStatus p' = ERROR \<and>
    newRequestReady p' = newRequestReady p"
proof -
  let ?p = "p\<lparr>production := Some (in_production p)\<rparr>"
  have "parse_iteration O' ?p 0 = (?p\<lparr>errorOccured := errorOccured p @ [no_error]\<rparr>, Inr (Some False, 0))"
    using assms by (simp add: parse_iteration_def requestLineStep_def headerStep_def bodyStep_def finishStep_def
        no_error_def)
  with assms show ?thesis by (simp add: parser_parse_once drop_position_def Let_def)
qed

lemma error_step:
  assumes "parsingStatus p = ERROR"
  shows "\<exists>p'. newIncomingData O' d p = Some (p', Inr None) \<and> parsingStatus p' = ERROR \<and>
    newRequestReady p' = newRequestReady p"
  using error_parse [of "p\<lparr>buffer := buffer p @ d\<rparr>" O'] assms by (auto simp: newIncomingData_def)

lemma error_slot:
  assumes "parsingStatus p = ERROR"
  shows "\<exists>p'. newDataReceived_slot O' d p = Some (p', Inr ()) \<and> parsingStatus p' = ERROR \<and>
    newRequestReady p' = newRequestReady p"
  using error_parse [of "p\<lparr>buffer := buffer p @ d\<rparr>" O'] assms
  by (auto simp: newDataReceived_slot_def slot_loop.simps)

lemma error_feed:
  "parsingStatus p = ERROR \<Longrightarrow>
    \<exists>q. feed O' ds p = Some (q, replicate (length ds) None) \<and> parsingStatus q = ERROR"
proof (induction ds arbitrary: p)
  case (Cons d ds)
  from error_step [OF Cons.prems] obtain p' where p': "newIncomingData O' d p = Some (p', Inr None)"
    "parsingStatus p' = ERROR" by blast
  from Cons.IH [OF p'(2)] p'(1) show ?case by auto
qed simp

lemma error_feed_slot:
  "parsingStatus p = ERROR \<Longrightarrow>
    \<exists>q. feed_slot O' ds p = Some q \<and> parsingStatus q = ERROR \<and> newRequestReady q = newRequestReady p"
proof (induction ds arbitrary: p)
  case (Cons d ds)
  from error_slot [OF Cons.prems] obtain p' where p': "newDataReceived_slot O' d p = Some (p', Inr ())"
    "parsingStatus p' = ERROR" "newRequestReady p' = newRequestReady p" by blast
  from Cons.IH [OF p'(2)] p' show ?case by auto
qed simp

text \<open>
  C39. Nothing leaves the error state: once a parse has failed, whatever data arrive
  afterwards, in whatever pieces, every call returns no request.
\<close>

theorem error_is_permanent:
  assumes "parsingStatus p = ERROR"
  shows "\<exists>q. feed O' ds p = Some (q, replicate (length ds) None) \<and> parsingStatus q = ERROR"
  using assms by (rule error_feed)

theorem error_is_permanent_witness:
  "\<exists>q. feed source_ops [''GET '', ''/a?b=c HTTP/1.1''] (new_parser\<lparr>parsingStatus := ERROR\<rparr>)
     = Some (q, [None, None])"
  using error_is_permanent [of "new_parser\<lparr>parsingStatus := ERROR\<rparr>" source_ops
      "[''GET '', ''/a?b=c HTTP/1.1'']"]
  by (auto simp: numeral_2_eq_2)

subsection \<open>The first data\<close>

text \<open>Nothing has arrived yet, or only empty data.\<close>

definition waiting :: "request_parser \<Rightarrow> bool" where
  "waiting p \<longleftrightarrow> buffer p = [] \<and> parsingStatus p = REQUEST_LINE"

lemma waiting_new [simp]: "waiting new_parser"
  by (simp add: waiting_def new_parser_def)

lemma first_parse:
  assumes "parsingStatus p = REQUEST_LINE" "buffer p \<noteq> []"
  shows "\<exists>q. parser_parse source_ops p = Some (q, if request_begins (buffer p) then Inl Undefined else Inr False) \<and>
    newRequestReady q = newRequestReady p \<and>
    (\<not> request_begins (buffer p) \<longrightarrow> parsingStatus q = ERROR \<and> errorOccured q = errorOccured p @
       (if begins_with_method (buffer p) then [] else [method_error]) @ [no_error])"
proof -
  let ?p = "p\<lparr>production := Some (in_production p)\<rparr>"
  note out = source.parseRequestLine_outcome [OF assms(2), of "in_production p"]
  have once: "parser_parse source_ops p = Some (drop_position (parse_iteration source_ops ?p 0))"
    using assms(2) by (simp add: parser_parse_once)
  show ?thesis
  proof (cases "request_begins (buffer p)")
    case True
    with out assms(1) have "parse_iteration source_ops ?p 0 = (?p, Inl Undefined)"
      by (simp add: parse_iteration_def requestLineStep_def in_production_def)
    with True show ?thesis by (simp add: once drop_position_def)
  next
    case False
    with out obtain pos r' where l: "parseRequestLine source_ops (buffer p) 0 (length (buffer p)) (in_production p) =
        Inr (False, pos, r', if begins_with_method (buffer p) then [] else [method_error])" by auto
    with assms(1) have "parse_iteration source_ops ?p 0 =
        (?p\<lparr>production := Some r', parsingStatus := ERROR, errorOccured := errorOccured p @
           (if begins_with_method (buffer p) then [] else [method_error]) @ [no_error]\<rparr>, Inr (Some False, pos))"
      by (simp add: parse_iteration_def requestLineStep_def headerStep_def bodyStep_def finishStep_def
          in_production_def no_error_def)
    with False show ?thesis by (simp add: once drop_position_def)
  qed
qed

text \<open>
  C5. What the first bytes that reach a parser lead to, whatever follows them.  If they begin with a
  method, a space, a URI that does not start with a question mark and another space, then copying
  the path out of the buffer is undefined behaviour, through \<^verbatim>\<open>newIncomingData\<close> and through the
  slot alike.  Otherwise the parser is in its error state: also when the first line is only
  incomplete, as it is when a request arrives in pieces.  The errors it reports are the one for the
  method, if the method is the reason, and one of code \<^verbatim>\<open>NoError\<close>; no other is ever reported.
\<close>

theorem first_data_outcome:
  assumes "b \<noteq> []"
  shows "\<exists>p q. newIncomingData source_ops b new_parser =
      Some (p, if request_begins b then Inl Undefined else Inr None) \<and>
    newDataReceived_slot source_ops b new_parser = Some (q, if request_begins b then Inl Undefined else Inr ()) \<and>
    newRequestReady q = [] \<and>
    (\<not> request_begins b \<longrightarrow> parsingStatus p = ERROR \<and> parsingStatus q = ERROR \<and>
       errorOccured p = (if begins_with_method b then [] else [method_error]) @ [no_error] \<and>
       errorOccured q = errorOccured p)"
proof -
  let ?p = "new_parser\<lparr>buffer := b\<rparr>"
  have p: "parsingStatus ?p = REQUEST_LINE" "buffer ?p = b" "errorOccured ?p = []" "newRequestReady ?p = []"
    "buffer new_parser @ b = b" by (simp_all add: new_parser_def)
  show ?thesis
    using first_parse [OF p(1)] assms unfolding newIncomingData_def newDataReceived_slot_def p
    by (cases "request_begins b") (auto simp: slot_loop.simps)
qed

text \<open>The lemma \<open>request_begins_iff\<close> says on the text itself when \<open>request_begins\<close> holds.\<close>

theorem first_data_outcome_witness:
  "(\<exists>p. newIncomingData source_ops (''GET /?x=1 HTTP/1.1'' @ [cr, lf] @ [cr, lf]) new_parser = Some (p, Inl Undefined)) \<and>
   (\<exists>p. newIncomingData source_ops ''GET /ind'' new_parser = Some (p, Inr None) \<and> errorOccured p = [no_error])"
proof -
  have "request_begins (''GET /?x=1 HTTP/1.1'' @ [cr, lf] @ [cr, lf])"
    by (simp add: request_begins_def begins_with_method_def newline_def methodMap_def)
  moreover have "\<not> request_begins ''GET /ind''" "begins_with_method ''GET /ind''"
    by (simp_all add: request_begins_def begins_with_method_def newline_def methodMap_def)
  ultimately show ?thesis
    using first_data_outcome [of "''GET /?x=1 HTTP/1.1'' @ [cr, lf] @ [cr, lf]"] first_data_outcome [of "''GET /ind''"]
    by auto
qed

subsection \<open>Nothing is delivered\<close>

lemma waiting_empty:
  assumes "waiting p"
  shows "\<exists>p'. newIncomingData O' [] p = Some (p', Inr None) \<and> waiting p'"
    and "\<exists>p'. newDataReceived_slot O' [] p = Some (p', Inr ()) \<and> waiting p' \<and> newRequestReady p' = newRequestReady p"
  using assms
  by (simp_all add: waiting_def newIncomingData_def newDataReceived_slot_def slot_loop.simps parser_parse_once)

lemma waiting_data:
  assumes "waiting p" "d \<noteq> []"
  shows "\<exists>p'. newIncomingData source_ops d p = Some (p', if request_begins d then Inl Undefined else Inr None) \<and>
      (\<not> request_begins d \<longrightarrow> parsingStatus p' = ERROR)"
    and "\<exists>p'. newDataReceived_slot source_ops d p = Some (p', if request_begins d then Inl Undefined else Inr ()) \<and>
      newRequestReady p' = newRequestReady p \<and> (\<not> request_begins d \<longrightarrow> parsingStatus p' = ERROR)"
proof -
  let ?p = "p\<lparr>buffer := d\<rparr>"
  have p: "buffer p @ d = d" "parsingStatus ?p = REQUEST_LINE" "buffer ?p = d"
    using assms(1) by (simp_all add: waiting_def)
  show "\<exists>p'. newIncomingData source_ops d p = Some (p', if request_begins d then Inl Undefined else Inr None) \<and>
      (\<not> request_begins d \<longrightarrow> parsingStatus p' = ERROR)"
    using first_parse [OF p(2)] assms(2) unfolding newIncomingData_def p by (cases "request_begins d") auto
  show "\<exists>p'. newDataReceived_slot source_ops d p = Some (p', if request_begins d then Inl Undefined else Inr ()) \<and>
      newRequestReady p' = newRequestReady p \<and> (\<not> request_begins d \<longrightarrow> parsingStatus p' = ERROR)"
    using first_parse [OF p(2)] assms(2) unfolding newDataReceived_slot_def p
    by (cases "request_begins d") (auto simp: slot_loop.simps)
qed

lemma waiting_feed:
  "waiting p \<Longrightarrow>
    (case dropWhile (\<lambda>d. d = []) ds of
       d # _ \<Rightarrow> if request_begins d then feed source_ops ds p = None
         else (\<exists>q. feed source_ops ds p = Some (q, replicate (length ds) None) \<and> parsingStatus q = ERROR)
     | [] \<Rightarrow> (\<exists>q. feed source_ops ds p = Some (q, replicate (length ds) None) \<and> waiting q))"
proof (induction ds arbitrary: p)
  case (Cons d ds)
  show ?case
  proof (cases "d = []")
    case True
    from waiting_empty(1) [OF Cons.prems] obtain p' where p': "newIncomingData source_ops [] p = Some (p', Inr None)"
      "waiting p'" by blast
    have f: "feed source_ops (d # ds) p = map_option (\<lambda>(q, rs). (q, None # rs)) (feed source_ops ds p')"
      using p'(1) True by simp
    show ?thesis
    proof (cases "dropWhile (\<lambda>d. d = []) ds")
      case Nil
      then have "dropWhile (\<lambda>d. d = []) (d # ds) = []" using True by simp
      with Cons.IH [OF p'(2)] f show ?thesis unfolding Nil by (auto simp del: feed.simps)
    next
      case (Cons c cs)
      then have "dropWhile (\<lambda>d. d = []) (d # ds) = c # cs" using True by simp
      with "Cons.IH" [OF p'(2)] f show ?thesis
        unfolding Cons by (cases "request_begins c") (auto simp del: feed.simps)
    qed
  next
    case False
    from waiting_data(1) [OF Cons.prems False] obtain p' where
      p': "newIncomingData source_ops d p = Some (p', if request_begins d then Inl Undefined else Inr None)"
      "\<not> request_begins d \<longrightarrow> parsingStatus p' = ERROR" by blast
    with error_feed [of p' source_ops ds] False show ?thesis by (cases "request_begins d") auto
  qed
qed simp

lemma waiting_feed_slot:
  "waiting p \<Longrightarrow> feed_slot source_ops ds p = Some q \<Longrightarrow> newRequestReady q = newRequestReady p"
proof (induction ds arbitrary: p)
  case (Cons d ds)
  show ?case
  proof (cases "d = []")
    case True
    from waiting_empty(2) [OF Cons.prems(1)] obtain p' where "newDataReceived_slot source_ops [] p = Some (p', Inr ())"
      "waiting p'" "newRequestReady p' = newRequestReady p" by blast
    with Cons.IH [OF this(2)] Cons.prems(2) True show ?thesis by simp
  next
    case False
    from waiting_data(2) [OF Cons.prems(1) False] obtain p' where
      p': "newDataReceived_slot source_ops d p = Some (p', if request_begins d then Inl Undefined else Inr ())"
      "newRequestReady p' = newRequestReady p" "\<not> request_begins d \<longrightarrow> parsingStatus p' = ERROR" by blast
    with error_feed_slot [of p' source_ops ds] False Cons.prems(2) show ?thesis
      by (cases "request_begins d") auto
  qed
qed simp

text \<open>
  C6. The parser never delivers a request.  However the received bytes are cut into pieces, the first
  piece that is not empty decides: if it begins like a request, some call is undefined behaviour;
  if not, every call returns no request and the parser ends in its error state.  Through the slot,
  a sequence of calls that returns has emitted no request.
\<close>

theorem parser_never_delivers:
  "(case dropWhile (\<lambda>d. d = []) ds of
      d # _ \<Rightarrow> if request_begins d then feed source_ops ds new_parser = None
        else (\<exists>q. feed source_ops ds new_parser = Some (q, replicate (length ds) None) \<and> parsingStatus q = ERROR)
    | [] \<Rightarrow> (\<exists>q. feed source_ops ds new_parser = Some (q, replicate (length ds) None) \<and> waiting q)) \<and>
   (\<forall>q. feed_slot source_ops ds new_parser = Some q \<longrightarrow> newRequestReady q = [])"
proof -
  have "newRequestReady new_parser = []" by (simp add: new_parser_def)
  with waiting_feed [OF waiting_new, of ds] waiting_feed_slot [OF waiting_new, of ds] show ?thesis by simp
qed

theorem parser_never_delivers_witness:
  "feed source_ops [[], ''PUT /a?x=1 HTTP/1.1''] new_parser = None \<and>
   (\<exists>q. feed source_ops [''PU'', ''T /a?x=1 HTTP/1.1''] new_parser = Some (q, [None, None]) \<and> parsingStatus q = ERROR)"
proof -
  have "request_begins ''PUT /a?x=1 HTTP/1.1''" "\<not> request_begins ''PU''"
    by (simp_all add: request_begins_def begins_with_method_def newline_def methodMap_def)
  then show ?thesis
    using parser_never_delivers [of "[[], ''PUT /a?x=1 HTTP/1.1'']"]
      parser_never_delivers [of "[''PU'', ''T /a?x=1 HTTP/1.1'']"]
    by (simp add: numeral_2_eq_2)
qed

end
