(* ===== verification/HttpResponse.thy ===== *)
theory HttpResponse
  imports HttpRequest JsonGenerator
begin

text \<open>
  \<^verbatim>\<open>include/brutils/HttpServer/HttpResponse.h\<close> and \<^verbatim>\<open>src/brutils/HttpServer/HttpResponse.cpp\<close>:
  building a response and writing it out.  A call that writes returns the response, its
  lazily chosen version and the bytes emitted through \<^verbatim>\<open>readyToWrite\<close> included, with a
  result that can be a fault.  The overloads for rvalues only forward to the operations
  here.  \<^verbatim>\<open>sendXml\<close> and \<^verbatim>\<open>sendFile\<close> have empty bodies.
\<close>

subsection \<open>Status codes\<close>

datatype (plugins only: code) HttpResponseStatus =
  HTTP_STATUS_CONTINUE | HTTP_STATUS_SWITCHING_PROTOCOL |
  HTTP_STATUS_OK | HTTP_STATUS_CREATED |
  HTTP_STATUS_ACCEPTED | HTTP_STATUS_NON_AUTHORITATIVE_INFORMATION |
  HTTP_STATUS_NO_CONTENT | HTTP_STATUS_RESET_CONTENT |
  HTTP_STATUS_PARTIAL_CONTENT | HTTP_STATUS_MULTIPLE_CHOICES |
  HTTP_STATUS_MOVED_PERMANENTLY | HTTP_STATUS_FOUND |
  HTTP_STATUS_SEE_OTHER | HTTP_STATUS_NOT_MODIFIED |
  HTTP_STATUS_USE_PROXY | HTTP_STATUS_TEMPORARY_REDIRECT |
  HTTP_STATUS_PERMANENT_REDIRECT | HTTP_STATUS_BAD_REQUEST |
  HTTP_STATUS_UNAUTHORIZED | HTTP_STATUS_PAYMENT_REQUIRED |
  HTTP_STATUS_FORBIDDEN | HTTP_STATUS_NOT_FOUND |
  HTTP_STATUS_METHOD_NOT_ALLOWED | HTTP_STATUS_NOT_ACCEPTABLE |
  HTTP_STATUS_PROXY_AUTHENTICATION_REQUIRED | HTTP_STATUS_REQUEST_TIMEOUT |
  HTTP_STATUS_CONFLICT | HTTP_STATUS_GONE |
  HTTP_STATUS_LENGTH_REQUIRED | HTTP_STATUS_PRECONDITION_FAILED |
  HTTP_STATUS_PAYLOAD_TOO_LARGE | HTTP_STATUS_URI_TOO_LONG |
  HTTP_STATUS_UNSUPPORTED_MEDIA_TYPE | HTTP_STATUS_RANGE_NOT_SATISFIABLE |
  HTTP_STATUS_EXPECTATION_FAILED | HTTP_STATUS_IM_A_TEAPOT |
  HTTP_STATUS_UNPROCESSABLE_ENTITY | HTTP_STATUS_TOO_EARLY |
  HTTP_STATUS_UPGRADE_REQUIRED | HTTP_STATUS_PRECONDITION_REQUIRED |
  HTTP_STATUS_TOO_MANY_REQUESTS | HTTP_STATUS_UNAVAILABLE_FOR_LEGAL_REASONS |
  HTTP_STATUS_INTERNAL_SERVER_ERROR | HTTP_STATUS_NOT_IMPLEMENTED |
  HTTP_STATUS_BAD_GATEWAY | HTTP_STATUS_SERVICE_UNAVAILABLE |
  HTTP_STATUS_GATEWAY_TIMEOUT | HTTP_STATUS_VERSION_NOT_SUPPORTED |
  HTTP_STATUS_NETWORK_AUTHENTICATION_REQUIRED

primrec status_code :: "HttpResponseStatus \<Rightarrow> int" where
  "status_code HTTP_STATUS_CONTINUE = 100"
| "status_code HTTP_STATUS_SWITCHING_PROTOCOL = 101"
| "status_code HTTP_STATUS_OK = 200"
| "status_code HTTP_STATUS_CREATED = 201"
| "status_code HTTP_STATUS_ACCEPTED = 202"
| "status_code HTTP_STATUS_NON_AUTHORITATIVE_INFORMATION = 203"
| "status_code HTTP_STATUS_NO_CONTENT = 204"
| "status_code HTTP_STATUS_RESET_CONTENT = 205"
| "status_code HTTP_STATUS_PARTIAL_CONTENT = 206"
| "status_code HTTP_STATUS_MULTIPLE_CHOICES = 300"
| "status_code HTTP_STATUS_MOVED_PERMANENTLY = 301"
| "status_code HTTP_STATUS_FOUND = 302"
| "status_code HTTP_STATUS_SEE_OTHER = 303"
| "status_code HTTP_STATUS_NOT_MODIFIED = 304"
| "status_code HTTP_STATUS_USE_PROXY = 305"
| "status_code HTTP_STATUS_TEMPORARY_REDIRECT = 307"
| "status_code HTTP_STATUS_PERMANENT_REDIRECT = 308"
| "status_code HTTP_STATUS_BAD_REQUEST = 400"
| "status_code HTTP_STATUS_UNAUTHORIZED = 401"
| "status_code HTTP_STATUS_PAYMENT_REQUIRED = 402"
| "status_code HTTP_STATUS_FORBIDDEN = 403"
| "status_code HTTP_STATUS_NOT_FOUND = 404"
| "status_code HTTP_STATUS_METHOD_NOT_ALLOWED = 405"
| "status_code HTTP_STATUS_NOT_ACCEPTABLE = 406"
| "status_code HTTP_STATUS_PROXY_AUTHENTICATION_REQUIRED = 407"
| "status_code HTTP_STATUS_REQUEST_TIMEOUT = 408"
| "status_code HTTP_STATUS_CONFLICT = 409"
| "status_code HTTP_STATUS_GONE = 410"
| "status_code HTTP_STATUS_LENGTH_REQUIRED = 411"
| "status_code HTTP_STATUS_PRECONDITION_FAILED = 412"
| "status_code HTTP_STATUS_PAYLOAD_TOO_LARGE = 413"
| "status_code HTTP_STATUS_URI_TOO_LONG = 414"
| "status_code HTTP_STATUS_UNSUPPORTED_MEDIA_TYPE = 415"
| "status_code HTTP_STATUS_RANGE_NOT_SATISFIABLE = 416"
| "status_code HTTP_STATUS_EXPECTATION_FAILED = 417"
| "status_code HTTP_STATUS_IM_A_TEAPOT = 418"
| "status_code HTTP_STATUS_UNPROCESSABLE_ENTITY = 422"
| "status_code HTTP_STATUS_TOO_EARLY = 425"
| "status_code HTTP_STATUS_UPGRADE_REQUIRED = 426"
| "status_code HTTP_STATUS_PRECONDITION_REQUIRED = 428"
| "status_code HTTP_STATUS_TOO_MANY_REQUESTS = 431"
| "status_code HTTP_STATUS_UNAVAILABLE_FOR_LEGAL_REASONS = 451"
| "status_code HTTP_STATUS_INTERNAL_SERVER_ERROR = 500"
| "status_code HTTP_STATUS_NOT_IMPLEMENTED = 501"
| "status_code HTTP_STATUS_BAD_GATEWAY = 502"
| "status_code HTTP_STATUS_SERVICE_UNAVAILABLE = 503"
| "status_code HTTP_STATUS_GATEWAY_TIMEOUT = 504"
| "status_code HTTP_STATUS_VERSION_NOT_SUPPORTED = 505"
| "status_code HTTP_STATUS_NETWORK_AUTHENTICATION_REQUIRED = 511"

definition statusMessages_100_408 :: "(int \<times> string) list" where
  "statusMessages_100_408 =
    [(status_code HTTP_STATUS_CONTINUE, ''Continue''),
     (status_code HTTP_STATUS_SWITCHING_PROTOCOL, ''Switching Protocol''),
     (status_code HTTP_STATUS_OK, ''OK''),
     (status_code HTTP_STATUS_CREATED, ''Created''),
     (status_code HTTP_STATUS_ACCEPTED, ''Accepted''),
     (status_code HTTP_STATUS_NON_AUTHORITATIVE_INFORMATION, ''Non-Authoritative Information''),
     (status_code HTTP_STATUS_NO_CONTENT, ''No Content''),
     (status_code HTTP_STATUS_RESET_CONTENT, ''Reset Content''),
     (status_code HTTP_STATUS_PARTIAL_CONTENT, ''Partial Content''),
     (status_code HTTP_STATUS_MULTIPLE_CHOICES, ''Multiple Choices''),
     (status_code HTTP_STATUS_MOVED_PERMANENTLY, ''Moved Permanently''),
     (status_code HTTP_STATUS_FOUND, ''Found''),
     (status_code HTTP_STATUS_SEE_OTHER, ''See Other''),
     (status_code HTTP_STATUS_NOT_MODIFIED, ''Not Modified''),
     (status_code HTTP_STATUS_USE_PROXY, ''Use Proxy''),
     (status_code HTTP_STATUS_TEMPORARY_REDIRECT, ''Temporary Redirect''),
     (status_code HTTP_STATUS_PERMANENT_REDIRECT, ''Permanent Redirect''),
     (status_code HTTP_STATUS_BAD_REQUEST, ''Bad Request''),
     (status_code HTTP_STATUS_UNAUTHORIZED, ''Unauthorized''),
     (status_code HTTP_STATUS_PAYMENT_REQUIRED, ''Payment Required''),
     (status_code HTTP_STATUS_FORBIDDEN, ''Forbidden''),
     (status_code HTTP_STATUS_NOT_FOUND, ''Not Found''),
     (status_code HTTP_STATUS_METHOD_NOT_ALLOWED, ''Method Not Allowed''),
     (status_code HTTP_STATUS_NOT_ACCEPTABLE, ''Not Acceptable''),
     (status_code HTTP_STATUS_PROXY_AUTHENTICATION_REQUIRED, ''Proxy Authentication,Required''),
     (status_code HTTP_STATUS_REQUEST_TIMEOUT, ''Request Time-out'')]"

definition statusMessages_409_511 :: "(int \<times> string) list" where
  "statusMessages_409_511 =
    [(status_code HTTP_STATUS_CONFLICT, ''Conflict''),
     (status_code HTTP_STATUS_GONE, ''Gone''),
     (status_code HTTP_STATUS_LENGTH_REQUIRED, ''Length Required''),
     (status_code HTTP_STATUS_PRECONDITION_FAILED, ''Precondition Failed''),
     (status_code HTTP_STATUS_PAYLOAD_TOO_LARGE, ''Request Entity Too Large''),
     (status_code HTTP_STATUS_URI_TOO_LONG, ''Request-URI Too Large''),
     (status_code HTTP_STATUS_UNSUPPORTED_MEDIA_TYPE, ''Unsupported Media Type''),
     (status_code HTTP_STATUS_RANGE_NOT_SATISFIABLE, ''Range Not Satisfiable''),
     (status_code HTTP_STATUS_EXPECTATION_FAILED, ''Expectation Failed''),
     (status_code HTTP_STATUS_IM_A_TEAPOT, ''I'' @ CHR 0x27 # ''m a Teapot''),
     (status_code HTTP_STATUS_UNPROCESSABLE_ENTITY, ''Unprocessable Entity''),
     (status_code HTTP_STATUS_TOO_EARLY, ''Too Early''),
     (status_code HTTP_STATUS_UPGRADE_REQUIRED, ''Upgrade Required''),
     (status_code HTTP_STATUS_PRECONDITION_REQUIRED, ''Precondition Required''),
     (status_code HTTP_STATUS_TOO_MANY_REQUESTS, ''Too Many Requests''),
     (status_code HTTP_STATUS_UNAVAILABLE_FOR_LEGAL_REASONS, ''Unavailble For Legal Reasons''),
     (status_code HTTP_STATUS_INTERNAL_SERVER_ERROR, ''Internal Server Error''),
     (status_code HTTP_STATUS_NOT_IMPLEMENTED, ''Not Implemented''),
     (status_code HTTP_STATUS_BAD_GATEWAY, ''Bad Gateway''),
     (status_code HTTP_STATUS_SERVICE_UNAVAILABLE, ''Service Unavailable''),
     (status_code HTTP_STATUS_GATEWAY_TIMEOUT, ''Geteway Timeout''),
     (status_code HTTP_STATUS_VERSION_NOT_SUPPORTED, ''Version Not Supported''),
     (status_code HTTP_STATUS_NETWORK_AUTHENTICATION_REQUIRED, ''Network Authentication Required'')]"

definition statusMessageMap :: "(int \<times> string) list" where
  "statusMessageMap = statusMessages_100_408 @ statusMessages_409_511"


text \<open>
  An enumeration value is the number it stands for: \<^verbatim>\<open>status(int)\<close> casts any number to the
  enumeration, which is undefined outside the nine bits of its largest enumerator.
\<close>

definition enum_of_int :: "int \<Rightarrow> int res" where
  "enum_of_int i = (if 0 \<le> i \<and> i < 512 then Inr i else Inl Undefined)"

definition is_status :: "int \<Rightarrow> bool" where
  "is_status i \<longleftrightarrow> map_of statusMessageMap i \<noteq> None"

subsection \<open>The response\<close>

record http_response =
  rs_version :: HttpVersion
  rs_status :: int
  rs_headerMap :: "(string \<times> string) list"
  rs_privateT :: bool
  readyToWrite :: "string list"

text \<open>\<open>private\<close> is true for an \<^verbatim>\<open>HttpResponse_private\<close>, the only one with a signal.\<close>

definition new_response :: "bool \<Rightarrow> http_response" where
  "new_response is_private = \<lparr>rs_version = UNKNOWN_VERSION, rs_status = status_code HTTP_STATUS_OK,
     rs_headerMap = [], rs_privateT = is_private, readyToWrite = []\<rparr>"

definition put_header :: "string \<Rightarrow> string \<Rightarrow> http_response \<Rightarrow> http_response" where
  "put_header key val r = r\<lparr>rs_headerMap := map_insert (rs_headerMap r) key val\<rparr>"

definition getHeader :: "http_response \<Rightarrow> string \<Rightarrow> string res" where
  "getHeader r key =
     (if map_of (rs_headerMap r) key \<noteq> None then map_at (rs_headerMap r) key else Inr [])"

definition removeHeader :: "string \<Rightarrow> http_response \<Rightarrow> http_response" where
  "removeHeader key r = r\<lparr>rs_headerMap := map_erase (rs_headerMap r) key\<rparr>"

definition clearHeaders :: "http_response \<Rightarrow> http_response" where
  "clearHeaders r = r\<lparr>rs_headerMap := []\<rparr>"

definition set_status :: "HttpResponseStatus \<Rightarrow> http_response \<Rightarrow> http_response" where
  "set_status st r = r\<lparr>rs_status := status_code st\<rparr>"

definition set_status_int :: "int \<Rightarrow> http_response \<Rightarrow> http_response res" where
  "set_status_int i r = bindR (enum_of_int i) (\<lambda>st. Inr (r\<lparr>rs_status := st\<rparr>))"

subsection \<open>Writing\<close>

definition convertStringToBytes :: "string \<Rightarrow> string res" where
  "convertStringToBytes data = transform_into [] 0 (\<lambda>c. c) data"

definition response_ops :: string_ops where
  "response_ops = \<lparr>lower = toLower, copy = convertStringToBytes\<rparr>"

interpretation response: unsized_builders response_ops
  by unfold_locales (simp_all add: response_ops_def convertStringToBytes_def toLower_def)

definition version_bytes :: "(HttpVersion \<times> string) list" where
  "version_bytes = [(HTTP_10, ''HTTP/1.0''), (HTTP_11, ''HTTP/1.1'')]"

definition newLine :: string where "newLine = [cr, lf]"
definition headerSeparator :: string where "headerSeparator = '': ''"

definition convertHttpResponseStatusToVector :: "string_ops \<Rightarrow> int \<Rightarrow> string res" where
  "convertHttpResponseStatusToVector O' st = copy O' (show_int st)"

fun header_bytes :: "string_ops \<Rightarrow> (string \<times> string) list \<Rightarrow> string \<Rightarrow> string res" where
  "header_bytes O' [] response = Inr response"
| "header_bytes O' (headerPair # hs) response =
     bindR (copy O' (fst headerPair)) (\<lambda>headerKey.
     bindR (copy O' (snd headerPair)) (\<lambda>headerValue.
       header_bytes O' hs (response @ headerKey @ headerSeparator @ headerValue @ newLine)))"

definition response_bytes :: "string_ops \<Rightarrow> http_response \<Rightarrow> string \<Rightarrow> string res" where
  "response_bytes O' r responseData =
     bindR (map_at version_bytes (rs_version r)) (\<lambda>version.
     bindR (convertHttpResponseStatusToVector O' (rs_status r)) (\<lambda>status.
     bindR (map_at statusMessageMap (rs_status r)) (\<lambda>message.
     bindR (header_bytes O' (rs_headerMap r) (version @ '' '' @ status @ message @ newLine)) (\<lambda>response.
       Inr (if responseData \<noteq> [] then response @ responseData else response)))))"

type_synonym 'a rrun = "http_response \<times> 'a res"

definition sendResponse :: "string_ops \<Rightarrow> string \<Rightarrow> http_response \<Rightarrow> unit rrun" where
  "sendResponse O' responseData r =
     (let r = (if rs_version r = UNKNOWN_VERSION then r\<lparr>rs_version := HTTP_11\<rparr> else r) in
      case response_bytes O' r responseData of
        Inl e \<Rightarrow> (r, Inl e)
      | Inr response \<Rightarrow>
          (if rs_privateT r then r\<lparr>readyToWrite := readyToWrite r @ [response]\<rparr> else r, Inr ()))"

definition send :: "string_ops \<Rightarrow> http_response \<Rightarrow> unit rrun" where
  "send O' r = sendResponse O' [] r"

definition send_string :: "string_ops \<Rightarrow> string \<Rightarrow> string \<Rightarrow> http_response \<Rightarrow> unit rrun" where
  "send_string O' content contentType r =
     (let r = r\<lparr>rs_headerMap := map_set (rs_headerMap r) ''content-type'' contentType\<rparr> in
      case copy O' content of
        Inl e \<Rightarrow> (r, Inl e)
      | Inr data \<Rightarrow> sendResponse O' data r)"

definition send_bytes :: "string_ops \<Rightarrow> string \<Rightarrow> string \<Rightarrow> http_response \<Rightarrow> unit rrun" where
  "send_bytes O' content contentType r =
     sendResponse O' content
       (r\<lparr>rs_headerMap := map_set (rs_headerMap r) ''content-type'' contentType\<rparr>)"

definition sendJson ::
  "string_ops \<Rightarrow> ('f, 'd) fp_show \<Rightarrow> ('f, 'd) variant \<Rightarrow> http_response \<Rightarrow> unit rrun" where
  "sendJson O' S m r =
     (case bindR (generate S m False) (copy O') of
        Inl e \<Rightarrow> (r, Inl e)
      | Inr jsonData \<Rightarrow> sendResponse O' jsonData r)"

definition sendXml :: "('f, 'd) variant \<Rightarrow> http_response \<Rightarrow> http_response" where
  "sendXml m r = r"

definition sendFile :: "string \<Rightarrow> http_response \<Rightarrow> http_response" where
  "sendFile filePath r = r"

subsection \<open>The status table\<close>

lemma version_bytes_sorted: "sorted_keys version_bytes"
  by (simp add: version_bytes_def less_HttpVersion_def)

lemmas status_table = statusMessageMap_def statusMessages_100_408_def statusMessages_409_511_def

definition status_codes :: "int list" where
  "status_codes =
    [100, 101, 200, 201, 202, 203, 204, 205, 206, 300, 301, 302, 303, 304, 305, 307, 308, 400,
     401, 402, 403, 404, 405, 406, 407, 408, 409, 410, 411, 412, 413, 414, 415, 416, 417, 418,
     422, 425, 426, 428, 431, 451, 500, 501, 502, 503, 504, 505, 511]"

lemma statusMessageMap_keys: "map fst statusMessageMap = status_codes"
  by (simp add: status_table status_codes_def)

lemma is_status_iff: "is_status i \<longleftrightarrow> i \<in> set status_codes"
  unfolding is_status_def statusMessageMap_keys [symmetric] set_map
  by (metis map_of_eq_None_iff)

lemma distinct_status_codes: "distinct status_codes"
  by (simp add: status_codes_def)

lemma status_codes_range: "\<forall>i \<in> set status_codes. 0 \<le> i \<and> i < 512"
  by (simp add: status_codes_def)

lemma status_code_in: "status_code st \<in> set status_codes"
  by (cases st) (simp_all add: status_codes_def)

text \<open>
  Every enumerator of \<^verbatim>\<open>HttpResponseStatus\<close> has its reason phrase, no number has two,
  and each number of the table is one that \<^verbatim>\<open>status(int)\<close> stores as it is.
\<close>

theorem status_table_complete:
  "is_status (status_code st) \<and> distinct (map fst statusMessageMap) \<and>
   (is_status i \<longrightarrow> set_status_int i r = Inr (r\<lparr>rs_status := i\<rparr>))"
  using status_codes_range
  by (auto simp: is_status_iff status_code_in statusMessageMap_keys distinct_status_codes
      set_status_int_def enum_of_int_def)

theorem status_table_complete_witness:
  "set_status_int 404 (new_response True) = Inr (new_response True\<lparr>rs_status := 404\<rparr>)"
proof -
  have "is_status 404" by (simp add: is_status_iff status_codes_def)
  then show ?thesis using status_table_complete by blast
qed

subsection \<open>Faults\<close>

text \<open>The version a response is sent with.\<close>

definition chosen_version :: "http_response \<Rightarrow> HttpVersion" where
  "chosen_version r = (if rs_version r = UNKNOWN_VERSION then HTTP_11 else rs_version r)"

lemma show_int_nonempty [simp]: "show_int i \<noteq> []"
proof -
  have "show_nat n \<noteq> []" for n by (subst show_nat.simps) simp
  then show ?thesis by (simp add: show_int_def)
qed

text \<open>Converting the digits of the status writes past the end of an empty vector.\<close>

lemma sendResponse_source:
  "sendResponse response_ops data r = (r\<lparr>rs_version := chosen_version r\<rparr>,
     Inl (if rs_version r = HTTP_20 \<or> rs_version r = HTTP_30 then OutOfRange else Undefined))"
  by (cases "rs_version r")
     (simp_all add: sendResponse_def response_bytes_def map_at_def version_bytes_def chosen_version_def
       convertHttpResponseStatusToVector_def response.copy_eq)

definition nothing_sent :: "http_response \<Rightarrow> unit rrun \<Rightarrow> bool" where
  "nothing_sent r run \<longleftrightarrow> readyToWrite (fst run) = readyToWrite r \<and> (\<exists>e. snd run = Inl e) \<and>
     rs_version (fst run) \<in> {rs_version r, chosen_version r}"

lemma nothing_sent_sendResponse:
  "readyToWrite s = readyToWrite r \<Longrightarrow> rs_version s = rs_version r \<Longrightarrow>
    nothing_sent r (sendResponse response_ops data s)"
  by (simp add: nothing_sent_def sendResponse_source chosen_version_def)

text \<open>
  C22. As the sources stand no response can be written, by none of the four operations that write one
  and whatever the version, the status, the headers and the body: the conversion of the status is
  undefined behaviour, and a version without a text throws before it.  In every case nothing is
  emitted through \<^verbatim>\<open>readyToWrite\<close>.
\<close>

theorem source_response_undefined:
  "nothing_sent r (send response_ops r) \<and> nothing_sent r (send_string response_ops content contentType r) \<and>
   nothing_sent r (send_bytes response_ops data contentType r) \<and> nothing_sent r (sendJson response_ops S m r) \<and>
   snd (send response_ops r) =
     Inl (if rs_version r = HTTP_20 \<or> rs_version r = HTTP_30 then OutOfRange else Undefined)"
proof (intro conjI)
  show "nothing_sent r (send response_ops r)"
    by (simp add: send_def nothing_sent_sendResponse)
  show "nothing_sent r (send_bytes response_ops data contentType r)"
    by (simp add: send_bytes_def nothing_sent_sendResponse)
  show "nothing_sent r (send_string response_ops content contentType r)"
    by (simp add: send_string_def response.copy_eq nothing_sent_sendResponse) (simp add: nothing_sent_def)
  show "nothing_sent r (sendJson response_ops S m r)"
    by (cases "generate S m False")
      (simp_all add: sendJson_def response.copy_eq nothing_sent_sendResponse, simp_all add: nothing_sent_def)
qed (simp add: send_def sendResponse_source)

subsection \<open>Headers\<close>

lemma getHeader_alt: "getHeader r k = Inr (case map_of (rs_headerMap r) k of None \<Rightarrow> [] | Some v \<Rightarrow> v)"
  by (simp add: getHeader_def map_at_def split: option.splits)

lemma sendResponse_headers: "rs_headerMap (fst (sendResponse O' d r)) = rs_headerMap r"
  by (simp add: sendResponse_def Let_def split: sum.split)

text \<open>
  \<^verbatim>\<open>header\<close> keeps a value that is already there and \<^verbatim>\<open>removeHeader\<close> removes it;
  sending a text replaces the content type, even when the sending fails, while sending JSON
  leaves the headers as they are, so no content type is set.
\<close>

theorem header_operations:
  assumes "sorted_keys (rs_headerMap r)"
  shows "getHeader (put_header k v r) l =
      (if l = k \<and> map_of (rs_headerMap r) k = None then Inr v else getHeader r l) \<and>
    getHeader (removeHeader k r) l = (if l = k then Inr [] else getHeader r l) \<and>
    getHeader (fst (send_string O' d ct r)) l = (if l = ''content-type'' then Inr ct else getHeader r l) \<and>
    getHeader (fst (sendJson O' S m r)) l = getHeader r l \<and>
    sorted_keys (rs_headerMap (put_header k v r)) \<and> sorted_keys (rs_headerMap (removeHeader k r)) \<and>
    sorted_keys (rs_headerMap (fst (send_string O' d ct r)))"
proof -
  have j: "rs_headerMap (fst (sendJson O' S m r)) = rs_headerMap r"
    by (simp add: sendJson_def sendResponse_headers split: sum.split)
  have t: "rs_headerMap (fst (send_string O' d ct r)) = map_set (rs_headerMap r) ''content-type'' ct"
    by (simp add: send_string_def sendResponse_headers Let_def split: sum.split)
  show ?thesis
    using assms by (auto simp: getHeader_alt j t put_header_def removeHeader_def split: option.splits)
qed

theorem header_operations_witness:
  "getHeader (put_header ''server'' ''x'' (put_header ''server'' ''brutils/cervpp'' (new_response True))) ''server''
    = Inr ''brutils/cervpp''"
proof -
  have "sorted_keys (rs_headerMap (put_header ''server'' ''brutils/cervpp'' (new_response True)))"
    by (simp add: put_header_def new_response_def)
  from header_operations [OF this, of "''server''" "''x''"] show ?thesis
    by (simp add: getHeader_alt put_header_def new_response_def)
qed

end
