(* ===== verification/TimerService.thy ===== *)
theory TimerService
  imports Prelude
begin

text \<open>
  The interface of a timer as its clients use it.  \<^verbatim>\<open>TcpServer\<close> and \<^verbatim>\<open>ThreadPool\<close> keep two
  complementary maps, from their keys to timer identifiers and back.  \<open>start_entry\<close> and
  \<open>stop_entry\<close> are how \<^verbatim>\<open>TcpServer\<close> updates them; the locale states what it relies on.
\<close>

type_synonym ('t, 'k, 'i) timer_tables = "'t \<times> ('k \<rightharpoonup> 'i) \<times> ('i \<rightharpoonup> 'k)"

definition start_entry ::
  "('t \<Rightarrow> 't \<times> 'i res) \<Rightarrow> 'k \<Rightarrow> ('t, 'k, 'i) timer_tables \<Rightarrow> ('t, 'k, 'i) timer_tables res" where
  "start_entry add k T = (case T of (t, m, n) \<Rightarrow>
     (case add t of
        (t, Inl e) \<Rightarrow> Inl e
      | (t, Inr i) \<Rightarrow> Inr (t, m(k \<mapsto> i), n(i \<mapsto> k))))"

definition stop_entry ::
  "('i \<Rightarrow> 't \<Rightarrow> 't \<times> bool) \<Rightarrow> 'k \<Rightarrow> ('t, 'k, 'i) timer_tables \<Rightarrow> bool \<times> ('t, 'k, 'i) timer_tables" where
  "stop_entry stop k T = (case T of (t, m, n) \<Rightarrow>
     (case m k of
        None \<Rightarrow> (False, T)
      | Some i \<Rightarrow>
          (case stop i t of
             (t, b) \<Rightarrow> if \<not> b then (False, (t, m, n)) else (True, (t, m(k := None), n(i := None))))))"

locale timer_service =
  fixes add :: "'t \<Rightarrow> 't \<times> 'i res"
    and stop :: "'i \<Rightarrow> 't \<Rightarrow> 't \<times> bool"
    and active :: "'t \<Rightarrow> 'i set"
  assumes add_active: "add t = (t', Inr i) \<Longrightarrow> active t' = insert i (active t)"
    and stop_result: "stop i t = (t', b) \<Longrightarrow> b \<longleftrightarrow> i \<in> active t"
    and stop_active: "stop i t = (t', b) \<Longrightarrow> active t' = active t - {i}"
begin

lemma stop_entry_active:
  assumes "stop_entry stop k (t, m, n) = (b, (t', m', n'))"
  shows "active t' = active t - set_option (m k)"
    and "b \<longleftrightarrow> (\<exists>i. m k = Some i \<and> i \<in> active t)"
    and "m' = (if b then m(k := None) else m)"
    and "n' = (if b then n(the (m k) := None) else n)"
  using assms stop_result stop_active
  by (auto simp: stop_entry_def split: option.splits prod.splits if_splits)

text \<open>
  Stopping and starting again leaves exactly one timer of the key running.  The entry of the
  old identifier is removed only if that timer was still running.
\<close>

lemma restart_entry:
  assumes "stop_entry stop k (t, m, n) = (b, T)" "start_entry add k T = Inr (t', m', n')"
  shows "\<exists>i. m' = m(k \<mapsto> i) \<and> n' i = Some k \<and> active t' = insert i (active t - set_option (m k)) \<and>
    (\<forall>old. m k = Some old \<and> old \<noteq> i \<longrightarrow> n' old = (if old \<in> active t then None else n old))"
proof -
  obtain t1 m1 n1 where T: "T = (t1, m1, n1)" by (cases T)
  note s = stop_entry_active [OF assms(1) [unfolded T]]
  from assms(2) T obtain i where i: "add t1 = (t', Inr i)" "m' = m1(k \<mapsto> i)" "n' = n1(i \<mapsto> k)"
    by (auto simp: start_entry_def split: prod.splits sum.splits)
  have "active t' = insert i (active t - set_option (m k))"
    using add_active [OF i(1)] s(1) by simp
  moreover have "m' = m(k \<mapsto> i)" using i(2) s(3) by (simp split: if_splits)
  ultimately show ?thesis using i(3) s(2,4) by (intro exI [of _ i]) auto
qed

end

subsection \<open>Timers that are not numbered twice\<close>

text \<open>
  While identifiers are left, a client whose keys \<open>K\<close> start and stop their timers through the two
  operations keeps its maps complementary: \<open>timers_linked\<close>.
\<close>

definition timers_linked ::
  "('t \<Rightarrow> 'i set) \<Rightarrow> ('t \<Rightarrow> 'i set) \<Rightarrow> 'k set \<Rightarrow> ('t, 'k, 'i) timer_tables \<Rightarrow> bool" where
  "timers_linked active issued K T = (case T of (t, m, n) \<Rightarrow>
     (\<forall>k i. m k = Some i \<longrightarrow> n i = Some k) \<and> (\<forall>i \<in> active t. \<exists>k \<in> K. m k = Some i) \<and>
     active t \<union> dom n \<subseteq> issued t)"

locale numbered_timers = timer_service +
  fixes issued :: "'a \<Rightarrow> 'b set" and ids_left :: "'a \<Rightarrow> bool"
  assumes add_issued: "ids_left t \<Longrightarrow> add t = (t', Inr i) \<Longrightarrow> i \<notin> issued t \<and> issued t' = insert i (issued t)"
    and stop_issued: "stop i t = (t', b) \<Longrightarrow> issued t' = issued t"
begin

lemma linked_stop:
  assumes "timers_linked active issued K (t, m, n)" "stop_entry stop k (t, m, n) = (b, (t', m', n'))"
  shows "timers_linked active issued (K - {k}) (t', m', n')"
proof -
  have l: "\<forall>k i. m k = Some i \<longrightarrow> n i = Some k" "\<forall>i \<in> active t. \<exists>k \<in> K. m k = Some i"
    "active t \<union> dom n \<subseteq> issued t" using assms(1) by (simp_all add: timers_linked_def)
  have inj: "m a = Some i \<Longrightarrow> m b = Some i \<Longrightarrow> a = b" for a b i using l(1) by (metis option.inject)
  note s = stop_entry_active [OF assms(2)]
  have iss: "issued t' = issued t"
    using assms(2) stop_issued by (auto simp: stop_entry_def split: option.splits prod.splits if_splits)
  have "\<forall>k' i. m' k' = Some i \<longrightarrow> n' i = Some k'"
    using l(1) s(2) unfolding s(3,4) by (auto split: if_splits dest: inj)
  moreover have "\<forall>i \<in> active t'. \<exists>k' \<in> K - {k}. m' k' = Some i"
  proof
    fix i assume "i \<in> active t'"
    then have i: "i \<in> active t" "m k \<noteq> Some i" using s(1) by auto
    then obtain k' where "k' \<in> K" "m k' = Some i" using l(2) by blast
    moreover from this i have "k' \<noteq> k" by auto
    ultimately show "\<exists>k' \<in> K - {k}. m' k' = Some i" using s(3) by auto
  qed
  moreover have "active t' \<union> dom n' \<subseteq> issued t'"
    using l(3) s(1,4) iss by (auto split: if_splits)
  ultimately show ?thesis by (simp add: timers_linked_def)
qed

lemma linked_start:
  assumes "timers_linked active issued K (t, m, n)" "k \<notin> K" "ids_left t"
    "start_entry add k (t, m, n) = Inr (t', m', n')"
  shows "timers_linked active issued (insert k K) (t', m', n')"
proof -
  have l: "\<forall>k i. m k = Some i \<longrightarrow> n i = Some k" "\<forall>i \<in> active t. \<exists>k \<in> K. m k = Some i"
    "active t \<union> dom n \<subseteq> issued t" using assms(1) by (simp_all add: timers_linked_def)
  from assms(4) obtain i where i: "add t = (t', Inr i)" "m' = m(k \<mapsto> i)" "n' = n(i \<mapsto> k)"
    by (auto simp: start_entry_def split: prod.splits sum.splits)
  have f: "i \<notin> issued t" "issued t' = insert i (issued t)" "active t' = insert i (active t)"
    using add_issued [OF assms(3) i(1)] add_active [OF i(1)] by simp_all
  have "n i = None" using f(1) l(3) by blast
  then have "\<forall>k' j. m' k' = Some j \<longrightarrow> n' j = Some k'" using l(1) by (auto simp: i(2,3))
  moreover have "\<forall>j \<in> active t'. \<exists>k' \<in> insert k K. m' k' = Some j"
    using l(2) assms(2) by (auto simp: f(3) i(2))
  moreover have "active t' \<union> dom n' \<subseteq> issued t'" using l(3) by (auto simp: f(2,3) i(3))
  ultimately show ?thesis by (simp add: timers_linked_def)
qed

lemma linked_stop_id:
  assumes "timers_linked active issued K (t, m, n)" "n i = Some k" "stop i t = (t', b)"
  shows "timers_linked active issued K (if b then (t', m(k := None), n(i := None)) else (t', m, n))"
proof -
  have l: "\<forall>k i. m k = Some i \<longrightarrow> n i = Some k" "\<forall>i \<in> active t. \<exists>k \<in> K. m k = Some i"
    "active t \<union> dom n \<subseteq> issued t" using assms(1) by (simp_all add: timers_linked_def)
  have inj: "m a = Some i \<Longrightarrow> m b = Some i \<Longrightarrow> a = b" for a b i using l(1) by (metis option.inject)
  note s = stop_result [OF assms(3)] stop_active [OF assms(3)] stop_issued [OF assms(3)]
  have "m k = Some i" if b using that s(1) l(1,2) assms(2) by fastforce
  note mk = this
  show ?thesis
  proof (cases b)
    case True
    have "\<exists>k' \<in> K. (m(k := None)) k' = Some j" if j: "j \<in> active t - {i}" for j
    proof -
      obtain k' where "k' \<in> K" "m k' = Some j" using l(2) j by blast
      then show ?thesis using j mk [OF True] by (intro bexI [of _ k']) auto
    qed
    moreover have "\<forall>k' j. (m(k := None)) k' = Some j \<longrightarrow> (n(i := None)) j = Some k'"
      using l(1) mk [OF True] by (auto dest: inj)
    moreover have "active t - {i} \<union> dom (n(i := None)) \<subseteq> issued t" using l(3) by auto
    ultimately have "timers_linked active issued K (t', m(k := None), n(i := None))"
      unfolding timers_linked_def prod.case s(2,3) by blast
    with True show ?thesis by simp
  next
    case False
    then have "i \<notin> active t" using s(1) by simp
    with l have "timers_linked active issued K (t', m, n)"
      unfolding timers_linked_def prod.case s(2,3) by simp
    with False show ?thesis by simp
  qed
qed

lemma linked_fired:
  assumes "timers_linked active issued K (t, m, n)" "active t' \<subseteq> active t" "issued t' = issued t"
  shows "timers_linked active issued K (t', m, n)"
  using assms unfolding timers_linked_def by auto

end

end
