(* ===== verification/CombinedTimer.thy ===== *)
theory CombinedTimer
  imports TimerService "HOL-Library.AList" "HOL-Library.Multiset"
begin

text \<open>
  \<^verbatim>\<open>src/brutils/timers/combined_timer.cpp\<close>: many timers on one thread.  Identifiers are
  16 bits wide and wrap around.  \<^verbatim>\<open>_timeKeeperMap\<close> is an \<^verbatim>\<open>std::unordered_map\<close>: an association
  list in some order, and what is proved holds of every order.  The clock is an argument:
  \<open>now\<close> is a count of nanoseconds of \<^verbatim>\<open>steady_clock\<close>.

  \<^verbatim>\<open>addTimer\<close> and \<^verbatim>\<open>stopTimer\<close> join the timer thread before they touch the map and start a
  new one afterwards, so the rounds of \<^verbatim>\<open>run\<close> and the two operations never overlap: a run of
  the component is a sequence of them (\<open>timer_run\<close>).
\<close>

type_synonym timer_id = "16 word"

record timer_data =
  td_periodic :: bool
  td_id :: timer_id
  td_duration :: "64 word"
  td_expirationDate :: int

record combined_timer =
  ct_lastTimerId :: timer_id
  ct_timeKeeperMap :: "(timer_id \<times> timer_data) list"
  ct_stopped :: bool
  ct_timeout :: "timer_id list"  \<comment> \<open>the identifiers emitted\<close>

definition new_timer :: combined_timer where
  "new_timer = \<lparr>ct_lastTimerId = 0, ct_timeKeeperMap = [], ct_stopped = True, ct_timeout = []\<rparr>"

subsection \<open>Operations\<close>

definition in_int64 :: "int \<Rightarrow> bool" where
  "in_int64 i \<longleftrightarrow> - (2 ^ 63) \<le> i \<and> i < 2 ^ 63"

text \<open>
  \<^verbatim>\<open>now + std::chrono::milliseconds(duration)\<close>: the count of milliseconds is signed, the sum
  is computed in 64-bit nanoseconds.
\<close>

definition expires :: "int \<Rightarrow> 64 word \<Rightarrow> int res" where
  "expires now duration =
     (let ns = sint duration * 1000000 in
      if in_int64 ns \<and> in_int64 (now + ns) then Inr (now + ns) else Inl Undefined)"

definition start :: "combined_timer \<Rightarrow> combined_timer" where
  "start t = t\<lparr>ct_stopped := False\<rparr>"

definition stop :: "combined_timer \<Rightarrow> combined_timer" where
  "stop t = t\<lparr>ct_stopped := True\<rparr>"

text \<open>The destructor.\<close>

definition destroy_timer :: "combined_timer \<Rightarrow> combined_timer" where
  "destroy_timer t = stop t"

definition addTimer ::
  "int \<Rightarrow> 64 word \<Rightarrow> bool \<Rightarrow> combined_timer \<Rightarrow> combined_timer \<times> timer_id res" where
  "addTimer now duration_ms periodic t =
     (let t = stop t in
      case expires now duration_ms of
        Inl e \<Rightarrow> (t, Inl e)
      | Inr expirationDate \<Rightarrow>
          let timerStruct = \<lparr>td_periodic = periodic, td_id = ct_lastTimerId t,
                td_duration = duration_ms, td_expirationDate = expirationDate\<rparr>;
              t = t\<lparr>ct_lastTimerId := ct_lastTimerId t + 1\<rparr>;
              t = t\<lparr>ct_timeKeeperMap := AList.update (td_id timerStruct) timerStruct (ct_timeKeeperMap t)\<rparr>
          in (start t, Inr (td_id timerStruct)))"

definition stopTimer :: "timer_id \<Rightarrow> combined_timer \<Rightarrow> combined_timer \<times> bool" where
  "stopTimer timerId t =
     (if map_of (ct_timeKeeperMap t) timerId = None then (t, False)
      else
        let t = stop t;
            t = t\<lparr>ct_timeKeeperMap := AList.delete timerId (ct_timeKeeperMap t)\<rparr>
        in (start t, True))"

text \<open>The loop of \<^verbatim>\<open>getClosestTimerId\<close> over the entries behind the first.\<close>

fun closest_loop :: "timer_id \<Rightarrow> int \<Rightarrow> (timer_id \<times> timer_data) list \<Rightarrow> timer_id" where
  "closest_loop closestId closestExpDate [] = closestId"
| "closest_loop closestId closestExpDate (it # its) =
     (if td_expirationDate (snd it) < closestExpDate
      then closest_loop (fst it) (td_expirationDate (snd it)) its
      else closest_loop closestId closestExpDate its)"

definition getClosestTimerId :: "(timer_id \<times> timer_data) list \<Rightarrow> timer_id" where
  "getClosestTimerId m =
     (case m of
        [] \<Rightarrow> - 1
      | it # its \<Rightarrow> closest_loop (td_id (snd it)) (td_expirationDate (snd it)) its)"

text \<open>
  One round of \<^verbatim>\<open>run\<close> in which nobody stops the timer: \<^verbatim>\<open>wait_until\<close> returns when the
  expiration date has passed (or has just been reached: its result is not tested), and
  \<open>now\<close> is the clock behind it.
\<close>

definition waits_for :: "combined_timer \<Rightarrow> int" where
  "waits_for t =
     (case map_of (ct_timeKeeperMap t) (getClosestTimerId (ct_timeKeeperMap t)) of
        None \<Rightarrow> 0 | Some d \<Rightarrow> td_expirationDate d)"

definition run_round :: "int \<Rightarrow> combined_timer \<Rightarrow> combined_timer res" where
  "run_round now t =
     (let closestTimerId = getClosestTimerId (ct_timeKeeperMap t) in
      if closestTimerId = - 1 then Inr (t\<lparr>ct_stopped := True\<rparr>)
      else
        (case map_of (ct_timeKeeperMap t) closestTimerId of
           None \<Rightarrow> Inl OutOfRange
         | Some closestTimer \<Rightarrow>
             let t = t\<lparr>ct_timeout := ct_timeout t @ [td_id closestTimer]\<rparr> in
             if \<not> td_periodic closestTimer then
               Inr (t\<lparr>ct_timeKeeperMap := AList.delete (td_id closestTimer) (ct_timeKeeperMap t)\<rparr>)
             else
               bindR (expires now (td_duration closestTimer)) (\<lambda>e.
                 Inr (t\<lparr>ct_timeKeeperMap :=
                   AList.update closestTimerId (closestTimer\<lparr>td_expirationDate := e\<rparr>)
                     (ct_timeKeeperMap t)\<rparr>))))"

text \<open>Rounds until the loop stops, with the clock readings behind the waits.\<close>

fun run_rounds :: "int list \<Rightarrow> combined_timer \<Rightarrow> combined_timer res" where
  "run_rounds [] t = Inr t"
| "run_rounds (now # nows) t =
     (if ct_stopped t then Inr t else bindR (run_round now t) (run_rounds nows))"

text \<open>A timer that is being destroyed emits nothing more.\<close>

lemma destroyed_timer_silent: "run_rounds nows (destroy_timer t) = Inr (destroy_timer t)"
  by (cases nows) (simp_all add: destroy_timer_def stop_def)

text \<open>
  The steps of the component, on the \<^verbatim>\<open>periodic\<close> flags of the timers added so far and its
  state: adding, stopping, and a round of the loop.
\<close>

inductive timer_step :: "bool list \<times> combined_timer \<Rightarrow> bool list \<times> combined_timer \<Rightarrow> bool" where
  add: "addTimer now d p t = (t', Inr i) \<Longrightarrow> timer_step (ps, t) (ps @ [p], t')"
| stop: "stopTimer i t = (t', b) \<Longrightarrow> timer_step (ps, t) (ps, t')"
| fire: "\<not> ct_stopped t \<Longrightarrow> waits_for t \<le> now \<Longrightarrow> run_round now t = Inr t' \<Longrightarrow>
    timer_step (ps, t) (ps, t')"

inductive_cases timer_stepE: "timer_step (ps, t) (ps', t')"

abbreviation timer_runs :: "bool list \<times> combined_timer \<Rightarrow> bool list \<times> combined_timer \<Rightarrow> bool" where
  "timer_runs \<equiv> timer_step\<^sup>*\<^sup>*"

subsection \<open>The earliest timer\<close>

abbreviation due :: "timer_id \<times> timer_data \<Rightarrow> int" where
  "due it \<equiv> td_expirationDate (snd it)"

definition wf_map :: "(timer_id \<times> timer_data) list \<Rightarrow> bool" where
  "wf_map m \<longleftrightarrow> distinct (map fst m) \<and> (\<forall>it \<in> set m. td_id (snd it) = fst it)"

lemma closest_loop_first_min:
  assumes "\<forall>y \<in> set ys. due x < due y" "\<forall>z \<in> set zs. due x \<le> due z"
  shows "\<exists>ys' x' zs'. ys @ x # zs @ its = ys' @ x' # zs' \<and>
    closest_loop (fst x) (due x) its = fst x' \<and>
    (\<forall>y \<in> set ys'. due x' < due y) \<and> (\<forall>z \<in> set zs'. due x' \<le> due z)"
  using assms
proof (induction its arbitrary: ys x zs)
  case Nil
  then show ?case by (intro exI [of _ ys] exI [of _ x] exI [of _ zs]) simp
next
  case (Cons it its)
  show ?case
  proof (cases "due it < due x")
    case True
    with Cons.IH [of "ys @ x # zs" it "[]"] Cons.prems show ?thesis by force
  next
    case False
    with Cons.IH [of ys x "zs @ [it]"] Cons.prems show ?thesis by auto
  qed
qed

lemma getClosest_first_min:
  assumes "wf_map m" "m \<noteq> []"
  obtains ys x zs where "m = ys @ x # zs" "getClosestTimerId m = fst x"
    "\<forall>y \<in> set ys. due x < due y" "\<forall>z \<in> set zs. due x \<le> due z"
proof -
  obtain it its where m: "m = it # its" using assms(2) by (cases m) auto
  with assms(1) have "td_id (snd it) = fst it" by (simp add: wf_map_def)
  with m have c: "getClosestTimerId m = closest_loop (fst it) (due it) its"
    by (simp add: getClosestTimerId_def)
  from closest_loop_first_min [of "[]" it "[]" its] obtain ys x zs where "m = ys @ x # zs"
    "closest_loop (fst it) (due it) its = fst x"
    "\<forall>y \<in> set ys. due x < due y" "\<forall>z \<in> set zs. due x \<le> due z"
    unfolding m by auto
  then show thesis using that c by simp
qed

lemma map_of_middle:
  assumes "wf_map (ys @ x # zs)"
  shows "map_of (ys @ x # zs) (fst x) = Some (snd x)"
    and "AList.delete (fst x) (ys @ x # zs) = ys @ zs" and "td_id (snd x) = fst x"
proof -
  have d: "distinct (map fst (ys @ x # zs))" using assms by (simp add: wf_map_def)
  then show "map_of (ys @ x # zs) (fst x) = Some (snd x)"
    by (intro map_of_is_SomeI) auto
  have "fst x \<notin> fst ` set ys" "fst x \<notin> fst ` set zs" using d by auto
  then show "AList.delete (fst x) (ys @ x # zs) = ys @ zs"
    using delete_id [of "fst x" ys] delete_id [of "fst x" zs]
    by (cases x) (simp add: AList.delete_eq)
  show "td_id (snd x) = fst x" using assms by (simp add: wf_map_def)
qed

lemma sort_key_first_min:
  "\<forall>y \<in> set ys. f x < f y \<Longrightarrow> \<forall>z \<in> set zs. f x \<le> (f z :: int) \<Longrightarrow>
   sort_key f (ys @ x # zs) = x # sort_key f (ys @ zs)"
proof (induction ys)
  case Nil
  then show ?case by (simp add: insort_is_Cons)
next
  case (Cons y ys)
  then show ?case by simp
qed


text \<open>The effect of a round on the earliest timer.\<close>

lemma run_round_split:
  assumes "wf_map m" "m = ys @ x # zs" "getClosestTimerId m = fst x" "fst x \<noteq> - 1"
    and "ct_timeKeeperMap t = m"
  shows "run_round now t =
    (if td_periodic (snd x)
     then bindR (expires now (td_duration (snd x))) (\<lambda>e.
       Inr (t\<lparr>ct_timeout := ct_timeout t @ [fst x],
         ct_timeKeeperMap := ys @ (fst x, (snd x)\<lparr>td_expirationDate := e\<rparr>) # zs\<rparr>))
     else Inr (t\<lparr>ct_timeout := ct_timeout t @ [fst x], ct_timeKeeperMap := ys @ zs\<rparr>))"
proof -
  note mid = map_of_middle [OF assms(1) [unfolded assms(2)]]
  have "AList.update (fst x) d (ys @ x # zs) = ys @ (fst x, d) # zs" for d
  proof -
    have "fst x \<notin> fst ` set ys" using assms(1,2) by (auto simp: wf_map_def)
    then show ?thesis by (induction ys) (auto split: prod.splits)
  qed
  with mid show ?thesis
    using assms(2-5) by (simp add: run_round_def Let_def)
qed

subsection \<open>One-shot timers\<close>

lemma wf_map_remove: "wf_map (ys @ x # zs) \<Longrightarrow> wf_map (ys @ zs)"
  by (auto simp: wf_map_def)

lemma run_rounds_one_shots:
  assumes "wf_map m" "\<forall>it \<in> set m. \<not> td_periodic (snd it) \<and> fst it \<noteq> - 1"
    and "length nows = length m" "\<not> ct_stopped t" "ct_timeKeeperMap t = m"
  shows "run_rounds nows t =
    Inr (t\<lparr>ct_timeKeeperMap := [], ct_timeout := ct_timeout t @ map fst (sort_key due m)\<rparr>)"
  using assms
proof (induction nows arbitrary: m t)
  case (Cons now nows)
  then have "m \<noteq> []" by auto
  from getClosest_first_min [OF Cons.prems(1) this] obtain ys x zs where m: "m = ys @ x # zs"
    "getClosestTimerId m = fst x" "\<forall>y \<in> set ys. due x < due y" "\<forall>z \<in> set zs. due x \<le> due z" .
  have s: "sort_key due m = x # sort_key due (ys @ zs)"
    unfolding m(1) by (rule sort_key_first_min [OF m(3,4)])
  let ?t = "t\<lparr>ct_timeout := ct_timeout t @ [fst x], ct_timeKeeperMap := ys @ zs\<rparr>"
  have "run_round now t = Inr ?t"
    using run_round_split [OF Cons.prems(1) m(1,2) _ Cons.prems(5)] Cons.prems(2) m(1) by simp
  moreover have "run_rounds nows ?t =
      Inr (?t\<lparr>ct_timeKeeperMap := [], ct_timeout := ct_timeout ?t @ map fst (sort_key due (ys @ zs))\<rparr>)"
    using Cons.prems m(1) wf_map_remove by (intro Cons.IH) auto
  ultimately show ?case
    using Cons.prems(4) s by simp
qed simp

text \<open>
  C13. The loop delivers every one-shot timer exactly once, in the order of their
  expiration dates, whatever the order of the hash map; then the map is empty and the next
  round stops the loop.
\<close>

theorem one_shots_fire_in_order:
  assumes "wf_map (ct_timeKeeperMap t)" "\<not> ct_stopped t"
    and "\<forall>it \<in> set (ct_timeKeeperMap t). \<not> td_periodic (snd it) \<and> fst it \<noteq> - 1"
    and "length nows = length (ct_timeKeeperMap t)"
  shows "\<exists>t'. run_rounds nows t = Inr t' \<and>
    ct_timeout t' = ct_timeout t @ map fst (sort_key due (ct_timeKeeperMap t)) \<and>
    ct_timeKeeperMap t' = [] \<and> run_round now t' = Inr (t'\<lparr>ct_stopped := True\<rparr>)"
  using run_rounds_one_shots [OF assms(1,3,4,2) refl]
  by (simp add: run_round_def getClosestTimerId_def)

theorem one_shots_fire_in_order_witness:
  "\<exists>t'. run_rounds [0, 0] (new_timer\<lparr>ct_stopped := False, ct_timeKeeperMap :=
      [(0, \<lparr>td_periodic = False, td_id = 0, td_duration = 9, td_expirationDate = 9\<rparr>),
       (1, \<lparr>td_periodic = False, td_id = 1, td_duration = 5, td_expirationDate = 5\<rparr>)]\<rparr>) = Inr t' \<and>
    ct_timeout t' = [1, 0]"
  using one_shots_fire_in_order [of "new_timer\<lparr>ct_stopped := False, ct_timeKeeperMap :=
      [(0, \<lparr>td_periodic = False, td_id = 0, td_duration = 9, td_expirationDate = 9\<rparr>),
       (1, \<lparr>td_periodic = False, td_id = 1, td_duration = 5, td_expirationDate = 5\<rparr>)]\<rparr>" "[0, 0]"]
  by (auto simp: wf_map_def new_timer_def)

subsection \<open>Runs\<close>

text \<open>The invariant of a run in which the identifiers have not wrapped around.\<close>

definition timer_inv :: "bool list \<Rightarrow> combined_timer \<Rightarrow> bool" where
  "timer_inv ps t \<longleftrightarrow>
     ct_lastTimerId t = word_of_nat (length ps) \<and> wf_map (ct_timeKeeperMap t) \<and>
     (\<forall>i \<in> fst ` set (ct_timeKeeperMap t) \<union> set (ct_timeout t). unat i < length ps) \<and>
     (\<forall>it \<in> set (ct_timeKeeperMap t). td_periodic (snd it) = ps ! unat (fst it)) \<and>
     (\<forall>i. unat i < length ps \<and> \<not> ps ! unat i \<longrightarrow>
        count (mset (ct_timeout t)) i \<le> 1 \<and>
        (i \<in> fst ` set (ct_timeKeeperMap t) \<longrightarrow> count (mset (ct_timeout t)) i = 0))"

lemma timer_inv_new: "timer_inv [] new_timer"
  by (simp add: timer_inv_def new_timer_def wf_map_def)

lemma update_fresh: "k \<notin> fst ` set m \<Longrightarrow> AList.update k v m = m @ [(k, v)]"
  by (induction m) auto

lemma addTimer_split:
  assumes "addTimer now d p t = (t', Inr i)"
  obtains e where "i = ct_lastTimerId t" "expires now d = Inr e"
    "t' = t\<lparr>ct_lastTimerId := i + 1, ct_stopped := False,
       ct_timeKeeperMap := AList.update i \<lparr>td_periodic = p, td_id = i, td_duration = d,
         td_expirationDate = e\<rparr> (ct_timeKeeperMap t)\<rparr>"
  using assms by (auto simp: addTimer_def stop_def start_def Let_def split: sum.splits)

lemma timer_inv_add:
  assumes "timer_inv ps t" "addTimer now d p t = (t', Inr i)" "length ps < 65536"
  shows "timer_inv (ps @ [p]) t'" "unat i = length ps"
proof -
  from assms(2) obtain e where e: "i = ct_lastTimerId t"
    "t' = t\<lparr>ct_lastTimerId := i + 1, ct_stopped := False,
       ct_timeKeeperMap := AList.update i \<lparr>td_periodic = p, td_id = i, td_duration = d,
         td_expirationDate = e\<rparr> (ct_timeKeeperMap t)\<rparr>" by (rule addTimer_split)
  from assms(1,3) e(1) show i: "unat i = length ps"
    by (simp add: timer_inv_def unat_of_nat)
  have fresh: "i \<notin> fst ` set (ct_timeKeeperMap t)" "i \<notin> set (ct_timeout t)"
    using assms(1) i unfolding timer_inv_def by force+
  have "count (mset (ct_timeout t)) i = 0" using fresh(2) by (simp add: count_eq_zero_iff)
  have eq: "j = i" if "unat j = length ps" for j using that i by (metis word_unat_eq_iff)
  let ?d = "\<lparr>td_periodic = p, td_id = i, td_duration = d, td_expirationDate = e\<rparr>"
  let ?m = "ct_timeKeeperMap t"
  have t': "ct_timeKeeperMap t' = ?m @ [(i, ?d)]" "ct_timeout t' = ct_timeout t"
      "ct_lastTimerId t' = word_of_nat (Suc (length ps))"
    using assms(1) e update_fresh [OF fresh(1)] by (simp_all add: timer_inv_def)
  have old: "\<forall>j \<in> fst ` set ?m \<union> set (ct_timeout t). unat j < length ps" "wf_map ?m"
    "\<forall>it \<in> set ?m. td_periodic (snd it) = ps ! unat (fst it)"
    using assms(1) by (simp_all add: timer_inv_def)
  have once: "count (mset (ct_timeout t)) j \<le> 1 \<and>
      (j \<in> fst ` set ?m \<longrightarrow> count (mset (ct_timeout t)) j = 0)"
    if "unat j < length ps" "\<not> ps ! unat j" for j
    using assms(1) that by (simp add: timer_inv_def)
  have "wf_map (ct_timeKeeperMap t')"
    unfolding t' using old(2) fresh(1) by (auto simp: wf_map_def)
  moreover have "\<forall>j \<in> fst ` set (ct_timeKeeperMap t') \<union> set (ct_timeout t'). unat j < length (ps @ [p])"
    unfolding t' using old(1) i by (simp add: ball_Un less_Suc_eq)
  moreover have "\<forall>it \<in> set (ct_timeKeeperMap t'). td_periodic (snd it) = (ps @ [p]) ! unat (fst it)"
    unfolding t' using old(1,3) i by (simp add: nth_append ball_Un)
  moreover have "count (mset (ct_timeout t')) j \<le> 1 \<and>
      (j \<in> fst ` set (ct_timeKeeperMap t') \<longrightarrow> count (mset (ct_timeout t')) j = 0)"
    if j: "unat j < length (ps @ [p])" "\<not> (ps @ [p]) ! unat j" for j
  proof (cases "j = i")
    case True
    show ?thesis unfolding t' True \<open>count (mset (ct_timeout t)) i = 0\<close> by simp
  next
    case False
    with j eq have "unat j < length ps" by (auto simp: less_Suc_eq)
    with j(2) have "\<not> ps ! unat j" by (simp add: nth_append)
    from once [OF \<open>unat j < length ps\<close> this] False show ?thesis unfolding t' by simp
  qed
  ultimately show "timer_inv (ps @ [p]) t'"
    unfolding timer_inv_def using t'(3) by simp
qed

lemma timer_inv_stop:
  assumes "timer_inv ps t" "stopTimer i t = (t', b)"
  shows "timer_inv ps t'"
proof -
  from assms(2) have t': "t' = t \<or> t' = t\<lparr>ct_stopped := False, ct_timeKeeperMap := AList.delete i (ct_timeKeeperMap t)\<rparr>"
    by (auto simp: stopTimer_def stop_def start_def Let_def split: if_splits)
  have "set (AList.delete i m) \<subseteq> set m" for m :: "(timer_id \<times> timer_data) list"
    by (auto simp: AList.delete_eq)
  moreover have "distinct (map fst m) \<Longrightarrow> distinct (map fst (AList.delete i m))" for m :: "(timer_id \<times> timer_data) list"
    by (simp add: distinct_delete)
  ultimately show ?thesis
    using t' assms(1) unfolding timer_inv_def wf_map_def by (elim disjE) (simp, simp, blast)
qed

lemma timer_inv_fire:
  assumes "timer_inv ps t" "run_round now t = Inr t'" "length ps \<le> 65535"
  shows "timer_inv ps t'"
proof (cases "ct_timeKeeperMap t = []")
  case True
  with assms(1,2) show ?thesis
    by (auto simp: run_round_def getClosestTimerId_def timer_inv_def)
next
  case False
  let ?m = "ct_timeKeeperMap t"
  have wf: "wf_map ?m" using assms(1) by (simp add: timer_inv_def)
  from getClosest_first_min [OF wf False] obtain ys x zs where m: "?m = ys @ x # zs"
    "getClosestTimerId ?m = fst x" .
  have lt: "unat (fst x) < length ps" using assms(1) m(1) by (auto simp: timer_inv_def)
  have "unat (- 1 :: timer_id) = 65535" by (simp add: unsigned_minus_1_eq_mask mask_eq_exp_minus_1)
  then have "fst x \<noteq> - 1" using lt assms(3) by force
  note r = run_round_split [OF wf m this refl, of now]
  have per: "td_periodic (snd x) = ps ! unat (fst x)" "distinct (map fst ?m)"
    using assms(1) m(1) by (auto simp: timer_inv_def wf_map_def)
  show ?thesis
  proof (cases "td_periodic (snd x)")
    case True
    with r assms(2) obtain e where t': "t' = t\<lparr>ct_timeout := ct_timeout t @ [fst x],
         ct_timeKeeperMap := ys @ (fst x, (snd x)\<lparr>td_expirationDate := e\<rparr>) # zs\<rparr>"
      by (cases "expires now (td_duration (snd x))") auto
    with assms(1) m(1) lt per True show ?thesis
      unfolding timer_inv_def by (auto simp: wf_map_def)
  next
    case False
    with r assms(2) have t': "t' = t\<lparr>ct_timeout := ct_timeout t @ [fst x], ct_timeKeeperMap := ys @ zs\<rparr>"
      by simp
    have "fst x \<notin> fst ` set (ys @ zs)" using per(2) m(1) by auto
    with t' assms(1) m(1) lt False show ?thesis
      unfolding timer_inv_def by (auto simp: wf_map_def)
  qed
qed

lemma timer_step_length: "timer_step (ps, t) (ps', t') \<Longrightarrow> length ps \<le> length ps'"
  by (erule timer_stepE) simp_all

lemma timer_inv_step:
  assumes "timer_step (ps, t) (ps', t')" "timer_inv ps t" "length ps' \<le> 65535"
  shows "timer_inv ps' t'"
  using assms
  by (elim timer_stepE) (auto intro: timer_inv_add(1) timer_inv_stop timer_inv_fire)

lemma timer_runs_inv:
  assumes "timer_runs (ps, t) (ps', t')" "timer_inv ps t" "length ps' \<le> 65535"
  shows "timer_inv ps' t'"
  using assms
proof (induction "(ps', t')" arbitrary: ps' t' rule: rtranclp_induct)
  case (step y)
  obtain qs u where y: "y = (qs, u)" by (cases y)
  from timer_step_length [of qs u ps' t'] step y have "length qs \<le> 65535" by simp
  with step y have "timer_inv qs u" by blast
  with step y show ?case by (auto intro: timer_inv_step)
qed

text \<open>
  C20. As long as fewer than 65536 timers have been added, only timers that were added are
  ever emitted, and a one-shot timer is emitted at most once, however often other timers
  are added, stopped and fire in between.
\<close>

theorem one_shot_fires_at_most_once:
  assumes "timer_runs ([], new_timer) (ps, t)" and "length ps \<le> 65535"
  shows "(\<forall>i \<in> set (ct_timeout t). unat i < length ps) \<and>
    (\<forall>i. unat i < length ps \<and> \<not> ps ! unat i \<longrightarrow> count (mset (ct_timeout t)) i \<le> 1)"
  using timer_runs_inv [OF assms(1) timer_inv_new assms(2)] by (simp add: timer_inv_def)

lemma round_emits:
  assumes "timer_inv ps t" "length ps \<le> 65535" "run_round now t = Inr t'"
    and "i \<notin> fst ` set (ct_timeKeeperMap t)"
  shows "i \<notin> fst ` set (ct_timeKeeperMap t') \<and> count (mset (ct_timeout t')) i = count (mset (ct_timeout t)) i"
proof (cases "ct_timeKeeperMap t = []")
  case True
  with assms(3,4) show ?thesis
    by (auto simp: run_round_def getClosestTimerId_def)
next
  case False
  let ?m = "ct_timeKeeperMap t"
  have wf: "wf_map ?m" using assms(1) by (simp add: timer_inv_def)
  from getClosest_first_min [OF wf False] obtain ys x zs where m: "?m = ys @ x # zs"
    "getClosestTimerId ?m = fst x" .
  have lt: "unat (fst x) < length ps" using assms(1) m(1) by (auto simp: timer_inv_def)
  have "unat (- 1 :: timer_id) = 65535" by (simp add: unsigned_minus_1_eq_mask mask_eq_exp_minus_1)
  then have ne: "fst x \<noteq> - 1" using lt assms(2) by force
  have "fst x \<noteq> i" using assms(4) m(1) by auto
  with run_round_split [OF wf m ne refl, of now] assms(3,4) m(1) show ?thesis
    by (cases "expires now (td_duration (snd x))") (auto split: if_splits)
qed

lemma step_keeps_silent:
  assumes "timer_step (ps, t) (ps', t')" "timer_inv ps t" "length ps' \<le> 65535"
    and "unat i < length ps" "i \<notin> fst ` set (ct_timeKeeperMap t)"
  shows "i \<notin> fst ` set (ct_timeKeeperMap t') \<and> count (mset (ct_timeout t')) i = count (mset (ct_timeout t)) i"
  using assms(1)
proof (rule timer_stepE)
  fix now d p j
  assume ps': "ps' = ps @ [p]" and a: "addTimer now d p t = (t', Inr j)"
  have "unat j = length ps" using timer_inv_add(2) [OF assms(2) a] assms(3) ps' by simp
  then have "j \<noteq> i" using assms(4) by auto
  from a obtain e where "t' = t\<lparr>ct_lastTimerId := j + 1, ct_stopped := False,
       ct_timeKeeperMap := AList.update j \<lparr>td_periodic = p, td_id = j, td_duration = d,
         td_expirationDate = e\<rparr> (ct_timeKeeperMap t)\<rparr>" by (rule addTimer_split)
  with \<open>j \<noteq> i\<close> assms(5) show ?thesis by (simp add: dom_update)
next
  fix j b
  assume "stopTimer j t = (t', b)"
  then have "t' = t \<or> t' = t\<lparr>ct_stopped := False, ct_timeKeeperMap := AList.delete j (ct_timeKeeperMap t)\<rparr>"
    by (auto simp: stopTimer_def stop_def start_def Let_def split: if_splits)
  with assms(5) show ?thesis by (auto simp: AList.delete_eq)
next
  fix now
  assume "ps' = ps" "run_round now t = Inr t'"
  with round_emits [OF assms(2) _ _ assms(5)] assms(3) show ?thesis by simp
qed

lemma runs_length: "timer_runs (ps, t) (ps', t') \<Longrightarrow> length ps \<le> length ps'"
proof (induction "(ps', t')" arbitrary: ps' t' rule: rtranclp_induct)
  case (step y)
  then show ?case by (cases y) (auto dest: timer_step_length)
qed simp

lemma runs_keep_silent:
  assumes "timer_runs (ps, t) (ps', t')" "timer_inv ps t" "length ps' \<le> 65535"
    and "unat i < length ps" "i \<notin> fst ` set (ct_timeKeeperMap t)"
  shows "i \<notin> fst ` set (ct_timeKeeperMap t') \<and> count (mset (ct_timeout t')) i = count (mset (ct_timeout t)) i"
  using assms(1-3)
proof (induction "(ps', t')" arbitrary: ps' t' rule: rtranclp_induct)
  case base
  with assms(5) show ?case by simp
next
  case (step y)
  obtain qs u where y: "y = (qs, u)" by (cases y)
  have l: "length qs \<le> 65535" using timer_step_length [of qs u ps' t'] step y by simp
  have inv: "timer_inv qs u" using timer_runs_inv [of ps t qs u] step y l assms(2) by simp
  have "length ps \<le> length qs"
    using step(1) unfolding y by (rule runs_length)
  then have "unat i < length qs" using assms(4) by simp
  with step_keeps_silent [of qs u ps' t' i] step y l inv assms(2) show ?case by simp
qed

text \<open>
  C29. A timer that has been stopped is never emitted again, and nor is one that
  \<^verbatim>\<open>stopTimer\<close> no longer knows, whatever happens afterwards.
\<close>

theorem stopped_timer_stays_silent:
  assumes "timer_runs ([], new_timer) (ps, t)" and "stopTimer i t = (t', b)" and "unat i < length ps"
    and "timer_runs (ps, t') (ps'', t'')" and "length ps'' \<le> 65535"
  shows "count (mset (ct_timeout t'')) i = count (mset (ct_timeout t)) i \<and>
    fst (stopTimer i t'') = t'' \<and> \<not> snd (stopTimer i t'')"
proof -
  have len: "length ps \<le> 65535" using runs_length [OF assms(4)] assms(5) by simp
  note inv = timer_runs_inv [OF assms(1) timer_inv_new len]
  have wf: "distinct (map fst (ct_timeKeeperMap t))" using inv by (simp add: timer_inv_def wf_map_def)
  have t': "i \<notin> fst ` set (ct_timeKeeperMap t')" "ct_timeout t' = ct_timeout t"
    using assms(2) by (auto simp: stopTimer_def stop_def start_def AList.delete_eq map_of_eq_None_iff
        split: if_splits)
  from runs_keep_silent [OF assms(4) timer_inv_stop [OF inv assms(2)] assms(5,3) t'(1)]
  have "i \<notin> fst ` set (ct_timeKeeperMap t'')"
    "count (mset (ct_timeout t'')) i = count (mset (ct_timeout t)) i"
    using t'(2) by simp_all
  moreover from this(1) have "map_of (ct_timeKeeperMap t'') i = None" by (simp add: map_of_eq_None_iff)
  ultimately show ?thesis by (simp add: stopTimer_def)
qed

text \<open>Runs for the concrete inputs below: one timer after another is added and stopped.\<close>

lemma add_and_stop:
  "\<exists>t'. timer_runs (ps, t) (ps @ [False], t') \<and>
     (ct_timeKeeperMap t = [] \<longrightarrow> ct_timeKeeperMap t' = []) \<and> ct_timeout t' = ct_timeout t"
proof -
  obtain t1 i where t1: "addTimer 0 0 False t = (t1, Inr i)"
    by (simp add: addTimer_def expires_def in_int64_def stop_def start_def Let_def)
  obtain t2 b where t2: "stopTimer i t1 = (t2, b)" by (cases "stopTimer i t1")
  from t1 t2 have "timer_step (ps, t) (ps @ [False], t1)" "timer_step (ps @ [False], t1) (ps @ [False], t2)"
    by (auto intro: timer_step.intros)
  then have "timer_runs (ps, t) (ps @ [False], t2)" by (meson converse_rtranclp_into_rtranclp rtranclp.rtrancl_refl)
  moreover have "ct_timeout t2 = ct_timeout t" "ct_timeKeeperMap t = [] \<Longrightarrow> ct_timeKeeperMap t2 = []"
    using t1 t2 by (auto simp: addTimer_def stopTimer_def expires_def in_int64_def stop_def start_def Let_def
        split: if_splits)
  ultimately show ?thesis by blast
qed

lemma run_of_length: "\<exists>t. timer_runs ([], new_timer) (replicate n False, t) \<and>
    ct_timeKeeperMap t = [] \<and> ct_timeout t = []"
proof (induction n)
  case 0
  show ?case by (intro exI [of _ new_timer]) (simp add: new_timer_def)
next
  case (Suc n)
  then obtain t where t: "timer_runs ([], new_timer) (replicate n False, t)" "ct_timeKeeperMap t = []"
    "ct_timeout t = []" by blast
  from add_and_stop [of "replicate n False" t] obtain t' where
    "timer_runs (replicate n False, t) (replicate n False @ [False], t')" "ct_timeKeeperMap t' = []"
    "ct_timeout t' = []" using t by auto
  with t show ?case
    by (metis replicate_Suc replicate_append_same rtranclp_trans)
qed

theorem one_shot_fires_at_most_once_witness:
  "\<exists>t. timer_runs ([], new_timer) ([False], t) \<and> count (mset (ct_timeout t)) 0 \<le> 1"
proof -
  obtain t where "timer_runs ([], new_timer) (replicate 1 False, t)"
    using run_of_length by blast
  with one_shot_fires_at_most_once [of "[False]" t] show ?thesis by auto
qed

theorem stopped_timer_stays_silent_witness:
  "\<exists>t. timer_runs ([], new_timer) ([False], t) \<and> \<not> snd (stopTimer 0 t)"
proof -
  obtain t where t: "timer_runs ([], new_timer) (replicate 1 False, t)" using run_of_length by blast
  obtain t' b where t': "stopTimer 0 t = (t', b)" by (cases "stopTimer 0 t")
  have "timer_step ([False], t) ([False], t')" using t' by (rule timer_step.stop)
  with t have "timer_runs ([], new_timer) ([False], t')" by simp
  moreover have "\<not> snd (stopTimer 0 t')"
    using stopped_timer_stays_silent [of "[False]" t 0 t' b "[False]" t'] t t' by simp
  ultimately show ?thesis by blast
qed

subsection \<open>The wrapped identifier\<close>

text \<open>
  After 65535 timers the next one gets the identifier \<open>-1\<close>, which the loop takes for
  \<open>no timer left\<close>: when it is the first to expire, the loop stops without emitting
  anything, and no timer fires any more.
\<close>

theorem wrapped_id_stops_all:
  assumes "timer_runs ([], new_timer) (ps, t)" and "length ps = 65535"
    and "addTimer now d p t = (t', Inr i)" and "expires now d = Inr e"
    and "\<forall>it \<in> set (ct_timeKeeperMap t). e < due it"
  shows "i = - 1 \<and> ct_timeKeeperMap t' \<noteq> [] \<and> \<not> ct_stopped t' \<and>
    run_rounds (n # ns) t' = Inr (t'\<lparr>ct_stopped := True\<rparr>)"
proof -
  have inv: "timer_inv ps t" using timer_runs_inv [OF assms(1) timer_inv_new] assms(2) by simp
  have "unat i = 65535" using timer_inv_add(2) [OF inv assms(3)] assms(2) by simp
  moreover have "unat (- 1 :: timer_id) = 65535" by (simp add: unsigned_minus_1_eq_mask mask_eq_exp_minus_1)
  ultimately have i: "i = - 1" by (metis word_unat_eq_iff)
  let ?d = "\<lparr>td_periodic = p, td_id = i, td_duration = d, td_expirationDate = e\<rparr>"
  have t': "t' = t\<lparr>ct_lastTimerId := i + 1, ct_stopped := False,
       ct_timeKeeperMap := AList.update i ?d (ct_timeKeeperMap t)\<rparr>"
    using assms(3,4) by (auto elim!: addTimer_split)
  have "timer_inv (ps @ [p]) t'" using timer_inv_add(1) [OF inv assms(3)] assms(2) by simp
  then have wf: "wf_map (ct_timeKeeperMap t')" by (simp add: timer_inv_def)
  have "i \<notin> fst ` set (ct_timeKeeperMap t)"
    using inv \<open>unat i = 65535\<close> assms(2) by (force simp: timer_inv_def)
  then have m: "ct_timeKeeperMap t' = ct_timeKeeperMap t @ [(i, ?d)]"
    using t' by (simp add: update_fresh)
  then have "ct_timeKeeperMap t' \<noteq> []" by simp
  from getClosest_first_min [OF wf this] obtain ys x zs where x: "ct_timeKeeperMap t' = ys @ x # zs"
    "getClosestTimerId (ct_timeKeeperMap t') = fst x" "\<forall>y \<in> set ys. due x < due y" "\<forall>z \<in> set zs. due x \<le> due z" .
  have "x = (i, ?d)"
  proof (rule ccontr)
    assume "x \<noteq> (i, ?d)"
    moreover have "(i, ?d) \<in> set (ys @ x # zs)" "x \<in> set (ct_timeKeeperMap t @ [(i, ?d)])"
      using x(1) m by (metis in_set_conv_decomp) (metis x(1) m in_set_conv_decomp)
    ultimately have "due x \<le> e" "e < due x" using x(3,4) assms(5) by auto
    then show False by simp
  qed
  then have "run_round n t' = Inr (t'\<lparr>ct_stopped := True\<rparr>)"
    using x(2) i by (simp add: run_round_def)
  moreover have "run_rounds ns (t'\<lparr>ct_stopped := True\<rparr>) = Inr (t'\<lparr>ct_stopped := True\<rparr>)"
    by (cases ns) simp_all
  ultimately show ?thesis
    using i m t' by simp
qed

theorem wrapped_id_stops_all_witness:
  "\<exists>ps t. timer_runs ([], new_timer) (ps, t) \<and> ct_timeKeeperMap t \<noteq> [] \<and>
    run_rounds [0] t = Inr (t\<lparr>ct_stopped := True\<rparr>)"
proof -
  obtain t where t: "timer_runs ([], new_timer) (replicate 65535 False, t)" "ct_timeKeeperMap t = []"
    using run_of_length by blast
  obtain t' i where t': "addTimer 0 5 True t = (t', Inr i)"
    by (simp add: addTimer_def expires_def in_int64_def stop_def start_def Let_def)
  have e: "expires 0 5 = Inr 5000000" by (simp add: expires_def in_int64_def)
  have "timer_runs ([], new_timer) (replicate 65535 False @ [True], t')"
    using t(1) timer_step.add [OF t'] by (rule rtranclp.rtrancl_into_rtrancl)
  moreover have "ct_timeKeeperMap t' \<noteq> [] \<and> run_rounds [0] t' = Inr (t'\<lparr>ct_stopped := True\<rparr>)"
    using wrapped_id_stops_all [OF t(1) _ t' e, of 0 "[]"] t(2) by (simp del: run_rounds.simps)
  ultimately show ?thesis by blast
qed

subsection \<open>The timer as a service\<close>

definition active_timers :: "combined_timer \<Rightarrow> timer_id set" where
  "active_timers t = fst ` set (ct_timeKeeperMap t)"

interpretation ct: timer_service "addTimer now d p" stopTimer active_timers for now d p
proof
  fix t t' :: combined_timer and i :: timer_id and b :: bool
  assume a: "addTimer now d p t = (t', Inr i)"
  obtain e where "t' = t\<lparr>ct_lastTimerId := i + 1, ct_stopped := False,
       ct_timeKeeperMap := AList.update i \<lparr>td_periodic = p, td_id = i, td_duration = d,
         td_expirationDate = e\<rparr> (ct_timeKeeperMap t)\<rparr>"
    by (rule addTimer_split [OF a])
  then show "active_timers t' = insert i (active_timers t)"
    by (simp add: active_timers_def dom_update)
next
  fix t t' :: combined_timer and i :: timer_id and b :: bool
  assume s: "stopTimer i t = (t', b)"
  then show "b = (i \<in> active_timers t)"
    by (auto simp: stopTimer_def active_timers_def map_of_eq_None_iff Let_def split: if_splits)
  have "fst ` set (AList.delete i m) = fst ` set m - {i}" for m :: "(timer_id \<times> timer_data) list"
    by (metis delete_keys list.set_map set_removeAll)
  moreover have "ct_timeKeeperMap t' = (if i \<in> active_timers t
      then AList.delete i (ct_timeKeeperMap t) else ct_timeKeeperMap t)"
    using s by (cases "map_of (ct_timeKeeperMap t) i = None")
      (auto simp: stopTimer_def active_timers_def map_of_eq_None_iff stop_def start_def Let_def)
  ultimately show "active_timers t' = active_timers t - {i}" by (simp add: active_timers_def)
qed

text \<open>The identifiers given so far, while they have not wrapped around.\<close>

definition issued_timers :: "combined_timer \<Rightarrow> timer_id set" where
  "issued_timers t = {i. unat i < unat (ct_lastTimerId t)}"

definition timer_ids_left :: "combined_timer \<Rightarrow> bool" where
  "timer_ids_left t \<longleftrightarrow> unat (ct_lastTimerId t) < 65535"

interpretation ctn: numbered_timers "addTimer now d p" stopTimer active_timers issued_timers timer_ids_left for now d p
proof
  fix t t' :: combined_timer and i :: timer_id and b :: bool
  assume l: "timer_ids_left t" and a: "addTimer now d p t = (t', Inr i)"
  have i: "i = ct_lastTimerId t" "ct_lastTimerId t' = i + 1" by (auto intro: addTimer_split [OF a])
  have "unat (i + 1) = Suc (unat i)"
    using l i(1) by (subst unat_add_lem [THEN iffD1]) (simp_all add: timer_ids_left_def)
  moreover have "unat j < Suc (unat i) \<longleftrightarrow> j = i \<or> unat j < unat i" for j
    by (metis less_Suc_eq word_unat_eq_iff)
  ultimately show "i \<notin> issued_timers t \<and> issued_timers t' = insert i (issued_timers t)"
    using i by (auto simp: issued_timers_def)
next
  fix t t' :: combined_timer and i :: timer_id and b :: bool
  assume "stopTimer i t = (t', b)"
  then show "issued_timers t' = issued_timers t"
    by (auto simp: stopTimer_def issued_timers_def stop_def start_def Let_def split: if_splits)
qed

lemma run_round_timers:
  assumes "run_round now t = Inr t'"
  shows "active_timers t' \<subseteq> active_timers t \<and> issued_timers t' = issued_timers t"
proof -
  have d: "fst ` set (AList.delete i m) \<subseteq> fst ` set m" for i and m :: "(timer_id \<times> timer_data) list"
    by (metis Diff_subset delete_keys list.set_map set_removeAll)
  have u: "fst ` set (AList.update i v m) = fst ` set m" if "map_of m i \<noteq> None"
    for i v and m :: "(timer_id \<times> timer_data) list"
    using that by (simp add: dom_update insert_absorb map_of_eq_None_iff)
  have d': "a \<in> fst ` set m" if "(a, b) \<in> set (AList.delete i m)"
    for a b i and m :: "(timer_id \<times> timer_data) list"
    using d [of i m] that by (force simp: image_iff)
  have u': "a \<in> fst ` set m" if "(a, b) \<in> set (AList.update i v m)" "map_of m i = Some y"
    for a b i v y and m :: "(timer_id \<times> timer_data) list"
    using u [of m i v] that by (force simp: image_iff)
  show ?thesis
    using assms by (auto intro: d' u' simp: run_round_def active_timers_def issued_timers_def Let_def bindR_Inr_iff
        split: if_splits option.splits)
qed

end
