(* ===== verification/Signals.thy ===== *)
theory Signals
  imports Prelude "HOL-Library.Multiset"
begin

text \<open>
  \<^verbatim>\<open>include/brutils/br_object.h\<close>: objects with a parent, objects that own a thread and an event
  loop, signals and slots.  An object is its chain of parents (\<^verbatim>\<open>nullptr\<close> is \<open>None\<close>); the
  parent never changes.  Slots and signals live at addresses of the store \<open>objects\<close>; a
  destroyed one is \<open>None\<close>, and reaching it is undefined.  The thread that executes an
  operation is its argument \<open>cur\<close>.  What a slot function does is the caller's: a call is
  logged in \<open>calls\<close> with the thread that runs it.

  Queued events capture the arguments by reference (\<^verbatim>\<open>[this, &args...]\<close>), so a captured argument
  is gone when the event runs; with an empty pack nothing but \<^verbatim>\<open>this\<close> is captured.
\<close>

type_synonym thread_id = nat
type_synonym slot_id = nat
type_synonym signal_id = nat

subsection \<open>Objects\<close>

datatype br_object = br_object "br_object option" | br_threaded_object thread_id

datatype ConnectionType = Auto | Direct | Queued

fun getThreadId :: "thread_id \<Rightarrow> br_object \<Rightarrow> thread_id" where
  "getThreadId cur (br_object None) = cur"
| "getThreadId cur (br_object (Some parent)) = getThreadId cur parent"
| "getThreadId cur (br_threaded_object thread) = thread"

fun getRootObject :: "br_object \<Rightarrow> br_object" where
  "getRootObject (br_object None) = br_object None"
| "getRootObject (br_object (Some parent)) = getRootObject parent"
| "getRootObject (br_threaded_object thread) = br_threaded_object thread"

text \<open>What a queued event holds, and the store.\<close>

datatype 'a event =
    SlotEvent slot_id "'a list"      \<comment> \<open>the lambda of \<^verbatim>\<open>addEventToParent\<close>\<close>
  | EmitEvent signal_id "'a list"    \<comment> \<open>the lambda of \<^verbatim>\<open>emit\<close>\<close>
  | UserEvent nat                    \<comment> \<open>a function given to \<^verbatim>\<open>addEvent\<close>\<close>

datatype 'a call = SlotCall thread_id slot_id "'a list" | UserCall thread_id nat

record slot =
  sl_init :: bool
  sl_parent :: "br_object option"
  sl_connectedSignals :: "signal_id list"

record signal =
  sg_parent :: "br_object option"
  sg_directConnections :: "slot_id list"
  sg_queuedConnections :: "slot_id list"

record 'a objects =
  slots :: "slot_id \<Rightarrow> slot option"
  signals :: "signal_id \<Rightarrow> signal option"
  eventLists :: "thread_id \<Rightarrow> 'a event list"
  running :: "thread_id \<Rightarrow> bool"
  calls :: "'a call list"

definition no_objects :: "'a objects" where
  "no_objects = \<lparr>slots = Map.empty, signals = Map.empty, eventLists = (\<lambda>_. []),
     running = (\<lambda>_. False), calls = []\<rparr>"

definition push_event :: "thread_id \<Rightarrow> 'a event \<Rightarrow> 'a objects \<Rightarrow> 'a objects" where
  "push_event t event w = w\<lparr>eventLists := (eventLists w)(t := eventLists w t @ [event])\<rparr>"

fun addEvent :: "br_object \<Rightarrow> 'a event \<Rightarrow> 'a objects \<Rightarrow> 'a objects \<times> fault option" where
  "addEvent (br_object None) event w = (w, Some RuntimeError)"
| "addEvent (br_object (Some parent)) event w = addEvent parent event w"
| "addEvent (br_threaded_object thread) event w = (push_event thread event w, None)"

text \<open>The overload with an error flag, which is returned beside the store.\<close>

fun addEvent_ec :: "br_object \<Rightarrow> 'a event \<Rightarrow> bool \<Rightarrow> 'a objects \<Rightarrow> 'a objects \<times> bool" where
  "addEvent_ec (br_object None) event ec w = (w, True)"
| "addEvent_ec (br_object (Some parent)) event ec w = addEvent_ec parent event ec w"
| "addEvent_ec (br_threaded_object thread) event ec w = (push_event thread event w, True)"

subsection \<open>Slots\<close>

definition slot_getThreadId :: "thread_id \<Rightarrow> slot \<Rightarrow> thread_id" where
  "slot_getThreadId cur sl =
     (case sl_parent sl of None \<Rightarrow> cur | Some p \<Rightarrow> getThreadId cur (getRootObject p))"

text \<open>A reference to a slot or a signal that must still be alive.\<close>

definition with_slot :: "slot_id \<Rightarrow> 'a objects \<Rightarrow> (slot \<Rightarrow> 'a objects \<times> fault option) \<Rightarrow> 'a objects \<times> fault option" where
  "with_slot s w f = (case slots w s of None \<Rightarrow> (w, Some Undefined) | Some sl \<Rightarrow> f sl)"

definition with_signal :: "signal_id \<Rightarrow> 'a objects \<Rightarrow> (signal \<Rightarrow> 'a objects \<times> fault option) \<Rightarrow> 'a objects \<times> fault option" where
  "with_signal g w f = (case signals w g of None \<Rightarrow> (w, Some Undefined) | Some sg \<Rightarrow> f sg)"

definition put_slot :: "slot_id \<Rightarrow> slot \<Rightarrow> 'a objects \<Rightarrow> 'a objects" where
  "put_slot s sl w = w\<lparr>slots := (slots w)(s \<mapsto> sl)\<rparr>"

definition put_signal :: "signal_id \<Rightarrow> signal \<Rightarrow> 'a objects \<Rightarrow> 'a objects" where
  "put_signal g sg w = w\<lparr>signals := (signals w)(g \<mapsto> sg)\<rparr>"

definition new_slot :: "bool \<Rightarrow> br_object option \<Rightarrow> slot" where
  "new_slot init parent = \<lparr>sl_init = init, sl_parent = parent, sl_connectedSignals = []\<rparr>"

definition setSlotFunction :: "slot_id \<Rightarrow> 'a objects \<Rightarrow> 'a objects \<times> fault option" where
  "setSlotFunction s w = with_slot s w (\<lambda>sl. (put_slot s (sl\<lparr>sl_init := True\<rparr>) w, None))"

definition run_function :: "thread_id \<Rightarrow> slot_id \<Rightarrow> 'a list \<Rightarrow> 'a objects \<Rightarrow> 'a objects" where
  "run_function cur s args w = w\<lparr>calls := calls w @ [SlotCall cur s args]\<rparr>"

definition slot_call :: "thread_id \<Rightarrow> 'a list \<Rightarrow> slot_id \<Rightarrow> 'a objects \<Rightarrow> 'a objects \<times> fault option" where
  "slot_call cur args s w = with_slot s w (\<lambda>sl.
     if \<not> sl_init sl then (w, Some RuntimeError) else (run_function cur s args w, None))"

definition addEventToParent :: "'a list \<Rightarrow> slot_id \<Rightarrow> 'a objects \<Rightarrow> 'a objects \<times> fault option" where
  "addEventToParent args s w = with_slot s w (\<lambda>sl.
     case sl_parent sl of
       None \<Rightarrow> (w, None)
     | Some p \<Rightarrow> addEvent (getRootObject p) (SlotEvent s args) w)"

definition signalConnected :: "signal_id \<Rightarrow> slot_id \<Rightarrow> 'a objects \<Rightarrow> 'a objects \<times> fault option" where
  "signalConnected g s w = with_slot s w (\<lambda>sl.
     (put_slot s (sl\<lparr>sl_connectedSignals := sl_connectedSignals sl @ [g]\<rparr>) w, None))"

definition signalDisconnected :: "signal_id \<Rightarrow> slot_id \<Rightarrow> 'a objects \<Rightarrow> 'a objects \<times> fault option" where
  "signalDisconnected g s w = with_slot s w (\<lambda>sl.
     (put_slot s (sl\<lparr>sl_connectedSignals := remove1 g (sl_connectedSignals sl)\<rparr>) w, None))"

subsection \<open>Signals\<close>

definition signal_getThreadId :: "thread_id \<Rightarrow> signal \<Rightarrow> thread_id res" where
  "signal_getThreadId cur sg =
     (case sg_parent sg of None \<Rightarrow> Inl Undefined | Some p \<Rightarrow> Inr (getThreadId cur (getRootObject p)))"

definition connection_type :: "thread_id \<Rightarrow> signal \<Rightarrow> slot \<Rightarrow> ConnectionType \<Rightarrow> ConnectionType res" where
  "connection_type cur sg sl type =
     (if sg_parent sg = None \<or> sl_parent sl = None then Inr Direct
      else if type = Auto then
        bindR (signal_getThreadId cur sg) (\<lambda>t.
          Inr (if t = slot_getThreadId cur sl then Direct else Queued))
      else Inr type)"

definition connect :: "thread_id \<Rightarrow> signal_id \<Rightarrow> slot_id \<Rightarrow> ConnectionType \<Rightarrow> 'a objects \<Rightarrow> 'a objects \<times> fault option" where
  "connect cur g s type w = with_signal g w (\<lambda>sg. with_slot s w (\<lambda>sl.
     case connection_type cur sg sl type of
       Inl e \<Rightarrow> (w, Some e)
     | Inr connectionType \<Rightarrow>
         signalConnected g s
           (put_signal g
             (if connectionType = Direct
              then sg\<lparr>sg_directConnections := sg_directConnections sg @ [s]\<rparr>
              else sg\<lparr>sg_queuedConnections := sg_queuedConnections sg @ [s]\<rparr>) w)))"

definition erase_direct :: "signal_id \<Rightarrow> slot_id \<Rightarrow> 'a objects \<Rightarrow> 'a objects \<times> fault option" where
  "erase_direct g s w = with_signal g w (\<lambda>sg.
     (put_signal g (sg\<lparr>sg_directConnections := remove1 s (sg_directConnections sg)\<rparr>) w, None))"

definition erase_queued :: "signal_id \<Rightarrow> slot_id \<Rightarrow> 'a objects \<Rightarrow> 'a objects \<times> fault option" where
  "erase_queued g s w = with_signal g w (\<lambda>sg.
     (put_signal g (sg\<lparr>sg_queuedConnections := remove1 s (sg_queuedConnections sg)\<rparr>) w, None))"

text \<open>
  \<^verbatim>\<open>disconnect()\<close> visits each vector from its front: the element visited is its first, which
  is told and erased.
\<close>

definition disconnect :: "signal_id \<Rightarrow> 'a objects \<Rightarrow> 'a objects \<times> fault option" where
  "disconnect g w = with_signal g w (\<lambda>sg.
     andThen
       (each (\<lambda>s w. andThen (signalDisconnected g s w) (erase_direct g s)) (sg_directConnections sg) w)
       (each (\<lambda>s w. andThen (signalDisconnected g s w) (erase_queued g s)) (sg_queuedConnections sg)))"

definition disconnect_slot :: "signal_id \<Rightarrow> slot_id \<Rightarrow> 'a objects \<Rightarrow> 'a objects \<times> fault option" where
  "disconnect_slot g s w = with_signal g w (\<lambda>sg.
     andThen
       (if s \<in> set (sg_directConnections sg)
        then andThen (signalDisconnected g s w) (erase_direct g s) else (w, None))
       (\<lambda>w. if s \<in> set (sg_queuedConnections sg)
        then andThen (signalDisconnected g s w) (erase_queued g s) else (w, None)))"

definition removeSlotConnection :: "slot_id \<Rightarrow> signal_id \<Rightarrow> 'a objects \<Rightarrow> 'a objects \<times> fault option" where
  "removeSlotConnection s g w = andThen (erase_direct g s w) (erase_queued g s)"

definition callDirectConnections :: "thread_id \<Rightarrow> signal_id \<Rightarrow> 'a list \<Rightarrow> 'a objects \<Rightarrow> 'a objects \<times> fault option" where
  "callDirectConnections cur g args w = with_signal g w (\<lambda>sg.
     each (slot_call cur args) (sg_directConnections sg) w)"

definition callQueuedConnections :: "signal_id \<Rightarrow> 'a list \<Rightarrow> 'a objects \<Rightarrow> 'a objects \<times> fault option" where
  "callQueuedConnections g args w = with_signal g w (\<lambda>sg.
     each (addEventToParent args) (sg_queuedConnections sg) w)"

definition emit :: "thread_id \<Rightarrow> signal_id \<Rightarrow> 'a list \<Rightarrow> 'a objects \<Rightarrow> 'a objects \<times> fault option" where
  "emit cur g args w = with_signal g w (\<lambda>sg.
     case sg_parent sg of
       None \<Rightarrow> callDirectConnections cur g args w
     | Some p \<Rightarrow>
         if cur = getThreadId cur p
         then andThen (callDirectConnections cur g args w) (callQueuedConnections g args)
         else addEvent (getRootObject p) (EmitEvent g args) w)"

subsection \<open>Destruction\<close>

definition removeThisFromConnectedSignals :: "slot_id \<Rightarrow> 'a objects \<Rightarrow> 'a objects \<times> fault option" where
  "removeThisFromConnectedSignals s w = with_slot s w (\<lambda>sl.
     each (removeSlotConnection s) (sl_connectedSignals sl) w)"

definition destroy_slot :: "slot_id \<Rightarrow> 'a objects \<Rightarrow> 'a objects \<times> fault option" where
  "destroy_slot s w = andThen (removeThisFromConnectedSignals s w)
     (\<lambda>w. (w\<lparr>slots := (slots w)(s := None)\<rparr>, None))"

definition destroy_signal :: "signal_id \<Rightarrow> 'a objects \<Rightarrow> 'a objects \<times> fault option" where
  "destroy_signal g w = andThen (disconnect g w)
     (\<lambda>w. (w\<lparr>signals := (signals w)(g := None)\<rparr>, None))"

subsection \<open>The event loop\<close>

text \<open>
  The thread \<open>t\<close> of a \<^verbatim>\<open>br_threaded_object\<close> executes an event.  A slot event calls the
  function itself, not \<^verbatim>\<open>call\<close>.
\<close>

fun execute_event :: "thread_id \<Rightarrow> 'a event \<Rightarrow> 'a objects \<Rightarrow> 'a objects \<times> fault option" where
  "execute_event t (SlotEvent s args) w = with_slot s w (\<lambda>sl.
     if args \<noteq> [] then (w, Some Undefined)
     else if \<not> sl_init sl then (w, Some BadFunctionCall)
     else (run_function t s args w, None))"
| "execute_event t (EmitEvent g args) w = with_signal g w (\<lambda>sg.
     if args \<noteq> [] then (w, Some Undefined)
     else andThen (callDirectConnections t g args w) (callQueuedConnections g args))"
| "execute_event t (UserEvent n) w = (w\<lparr>calls := calls w @ [UserCall t n]\<rparr>, None)"

definition pop_event :: "thread_id \<Rightarrow> 'a objects \<Rightarrow> 'a objects" where
  "pop_event t w = w\<lparr>eventLists := (eventLists w)(t := tl (eventLists w t))\<rparr>"

text \<open>
  One round of \<^verbatim>\<open>run\<close> behind the wait, which returns on an empty list only when the loop is to
  stop.
\<close>

definition run_iteration :: "thread_id \<Rightarrow> 'a objects \<Rightarrow> 'a objects \<times> fault option" where
  "run_iteration t w =
     (case eventLists w t of
        [] \<Rightarrow> (w, None)
      | event # _ \<Rightarrow> andThen (execute_event t event w) (\<lambda>w. (pop_event t w, None)))"

fun run_loop :: "nat \<Rightarrow> thread_id \<Rightarrow> 'a objects \<Rightarrow> 'a objects \<times> fault option" where
  "run_loop 0 t w = (w, None)"
| "run_loop (Suc n) t w =
     (if running w t then andThen (run_iteration t w) (run_loop n t) else (w, None))"

definition start_thread :: "thread_id \<Rightarrow> 'a objects \<Rightarrow> 'a objects" where
  "start_thread t w = w\<lparr>running := (running w)(t := True)\<rparr>"

definition stop_thread :: "thread_id \<Rightarrow> 'a objects \<Rightarrow> 'a objects" where
  "stop_thread t w = w\<lparr>running := (running w)(t := False)\<rparr>"

subsection \<open>Steps\<close>

text \<open>
  What clients and event loops do to the store, as long as nothing undefined happens.  An
  operation that throws keeps what it has done.
\<close>

inductive object_step :: "'a objects \<Rightarrow> 'a objects \<Rightarrow> bool" where
  create_slot: "slots w s = None \<Longrightarrow> object_step w (put_slot s (new_slot init p) w)"
| create_signal: "signals w g = None \<Longrightarrow>
    object_step w (put_signal g \<lparr>sg_parent = p, sg_directConnections = [], sg_queuedConnections = []\<rparr> w)"
| set_function: "setSlotFunction s w = (w', e) \<Longrightarrow> e \<noteq> Some Undefined \<Longrightarrow> object_step w w'"
| connect: "connect cur g s type w = (w', e) \<Longrightarrow> e \<noteq> Some Undefined \<Longrightarrow> object_step w w'"
| disconnect: "disconnect g w = (w', e) \<Longrightarrow> e \<noteq> Some Undefined \<Longrightarrow> object_step w w'"
| disconnect_slot: "disconnect_slot g s w = (w', e) \<Longrightarrow> e \<noteq> Some Undefined \<Longrightarrow> object_step w w'"
| destroy_slot: "destroy_slot s w = (w', e) \<Longrightarrow> e \<noteq> Some Undefined \<Longrightarrow> object_step w w'"
| destroy_signal: "destroy_signal g w = (w', e) \<Longrightarrow> e \<noteq> Some Undefined \<Longrightarrow> object_step w w'"
| emit: "emit cur g args w = (w', e) \<Longrightarrow> e \<noteq> Some Undefined \<Longrightarrow> object_step w w'"
| user_event: "addEvent p (UserEvent n) w = (w', e) \<Longrightarrow> object_step w w'"
| start: "object_step w (start_thread t w)"
| stop: "object_step w (stop_thread t w)"
| iteration: "run_iteration t w = (w', e) \<Longrightarrow> e \<noteq> Some Undefined \<Longrightarrow> object_step w w'"

inductive_cases object_stepE: "object_step w w'"

abbreviation object_run :: "'a objects \<Rightarrow> 'a objects \<Rightarrow> bool" where
  "object_run \<equiv> object_step\<^sup>*\<^sup>*"

text \<open>A round of the loop of some thread that has an event.\<close>

inductive loop_step :: "'a objects \<Rightarrow> 'a objects \<Rightarrow> bool" where
  round: "running w t \<Longrightarrow> eventLists w t \<noteq> [] \<Longrightarrow> run_iteration t w = (w', None) \<Longrightarrow> loop_step w w'"

inductive_cases loop_stepE: "loop_step w w'"

end
