(* ===== verification/SignalFacts.thy ===== *)
theory SignalFacts
  imports Signals
begin

text \<open>
  Facts about \<open>Signals\<close>: the two sides of every connection agree in every reachable store
  (\<open>linked\<close>), so that no live slot or signal refers to a destroyed one; who runs a slot
  function, when, and in which order; where queued deliveries go wrong.
\<close>

named_theorems object_defs "operations of objects, unfolded to the store"

lemmas [object_defs] = with_slot_def with_signal_def put_slot_def put_signal_def
  run_function_def push_event_def pop_event_def

subsection \<open>Connections\<close>

definition sg_links :: "'a objects \<Rightarrow> signal_id \<Rightarrow> slot_id \<Rightarrow> nat" where
  "sg_links w g s = (case signals w g of None \<Rightarrow> 0
     | Some sg \<Rightarrow> count (mset (sg_directConnections sg)) s + count (mset (sg_queuedConnections sg)) s)"

definition sl_links :: "'a objects \<Rightarrow> signal_id \<Rightarrow> slot_id \<Rightarrow> nat" where
  "sl_links w g s = (case slots w s of None \<Rightarrow> 0
     | Some sl \<Rightarrow> count (mset (sl_connectedSignals sl)) g)"

definition linked :: "'a objects \<Rightarrow> bool" where
  "linked w \<longleftrightarrow> (\<forall>g s. sg_links w g s = sl_links w g s)"

lemma linkedI: "(\<And>g s. sg_links w g s = sl_links w g s) \<Longrightarrow> linked w"
  by (simp add: linked_def)

lemma linkedD: "linked w \<Longrightarrow> sg_links w g s = sl_links w g s"
  by (simp add: linked_def)

lemma linked_cong: "slots w' = slots w \<Longrightarrow> signals w' = signals w \<Longrightarrow> linked w' = linked w"
  by (simp add: linked_def sg_links_def sl_links_def)

lemma linked_running [simp]: "linked (w\<lparr>running := r\<rparr>) = linked w"
  by (rule linked_cong) simp_all

lemma linked_slot_alive:
  assumes "linked w" "signals w g = Some sg"
    and "s \<in> set (sg_directConnections sg) \<or> s \<in> set (sg_queuedConnections sg)"
  obtains sl where "slots w s = Some sl" "g \<in> set (sl_connectedSignals sl)"
proof -
  have "0 < sg_links w g s" using assms(2,3) by (auto simp: sg_links_def)
  then have "0 < sl_links w g s" using linkedD [OF assms(1)] by metis
  then show thesis using that by (auto simp: sl_links_def split: option.splits)
qed

lemma linked_signal_alive:
  assumes "linked w" "slots w s = Some sl" "g \<in> set (sl_connectedSignals sl)"
  obtains sg where "signals w g = Some sg"
    "s \<in> set (sg_directConnections sg) \<or> s \<in> set (sg_queuedConnections sg)"
proof -
  have "0 < sl_links w g s" using assms(2,3) by (auto simp: sl_links_def)
  then have "0 < sg_links w g s" using linkedD [OF assms(1)] by metis
  then show thesis using that by (auto simp: sg_links_def split: option.splits)
qed

lemma linked_slotD:
  "linked w \<Longrightarrow> signals w g = Some sg \<Longrightarrow>
   s \<in> set (sg_directConnections sg @ sg_queuedConnections sg) \<Longrightarrow> slots w s \<noteq> None"
  by (metis Un_iff linked_slot_alive option.distinct(1) set_append)

lemma linked_signalD:
  "linked w \<Longrightarrow> slots w s = Some sl \<Longrightarrow> g \<in> set (sl_connectedSignals sl) \<Longrightarrow> signals w g \<noteq> None"
  by (metis linked_signal_alive option.distinct(1))

text \<open>Deliveries change no connection.\<close>

definition same_links :: "'a objects \<Rightarrow> 'a objects \<Rightarrow> bool" where
  "same_links w w' \<longleftrightarrow> slots w' = slots w \<and> signals w' = signals w"

lemma same_links_linked: "same_links w w' \<Longrightarrow> linked w \<Longrightarrow> linked w'"
  using linked_cong by (auto simp: same_links_def)

lemma same_links_refl [simp]: "same_links w w"
  by (simp add: same_links_def)

lemma same_links_slot_call: "same_links w0 w \<Longrightarrow> same_links w0 (fst (slot_call cur args s w))"
  by (auto simp: same_links_def slot_call_def object_defs split: option.splits)

lemma same_links_addEvent: "same_links w0 w \<Longrightarrow> same_links w0 (fst (addEvent p e w))"
  by (induction p e w rule: addEvent.induct) (auto simp: same_links_def object_defs)

lemma same_links_toParent: "same_links w0 w \<Longrightarrow> same_links w0 (fst (addEventToParent args s w))"
  by (simp add: addEventToParent_def with_slot_def same_links_addEvent split: option.split)

lemma same_links_direct: "same_links w0 w \<Longrightarrow> same_links w0 (fst (callDirectConnections cur g args w))"
  unfolding callDirectConnections_def with_signal_def
  by (cases "signals w g") (simp_all add: each_invariant [where P = "same_links w0"] same_links_slot_call)

lemma same_links_queued: "same_links w0 w \<Longrightarrow> same_links w0 (fst (callQueuedConnections g args w))"
  unfolding callQueuedConnections_def with_signal_def
  by (cases "signals w g") (simp_all add: each_invariant [where P = "same_links w0"] same_links_toParent)

lemma same_links_deliver:
  "same_links w0 w \<Longrightarrow>
   same_links w0 (fst (andThen (callDirectConnections cur g args w) (callQueuedConnections g args)))"
  by (rule andThen_invariant) (simp_all add: same_links_direct same_links_queued)

lemma same_links_emit: "same_links w0 w \<Longrightarrow> same_links w0 (fst (emit cur g args w))"
  unfolding emit_def with_signal_def
  by (simp add: same_links_direct same_links_deliver same_links_addEvent split: option.split)

lemma same_links_execute: "same_links w0 w \<Longrightarrow> same_links w0 (fst (execute_event t e w))"
  by (cases e) (simp_all add: with_signal_def with_slot_def same_links_deliver split: option.split,
      auto simp: same_links_def object_defs)

lemma same_links_iteration:
  assumes "same_links w0 w"
  shows "same_links w0 (fst (run_iteration t w))"
proof (cases "eventLists w t")
  case Nil
  with assms show ?thesis by (simp add: run_iteration_def)
next
  case (Cons e es)
  have "same_links w0 (pop_event t u)" if "same_links w0 u" for u
    using that by (simp add: same_links_def object_defs)
  then have "same_links w0 (fst (andThen (execute_event t e w) (\<lambda>w. (pop_event t w, None))))"
    using andThen_invariant [where P = "same_links w0", OF same_links_execute [OF assms]] by simp
  with Cons show ?thesis by (simp add: run_iteration_def)
qed

subsection \<open>Connecting and disconnecting\<close>

lemma connection_type_total: "\<exists>c. connection_type cur sg sl type = Inr c"
  by (cases "sg_parent sg") (auto simp: connection_type_def signal_getThreadId_def)

lemma connect_total:
  assumes "signals w g = Some sg" "slots w s = Some sl"
  shows "\<exists>sg'. sg_parent sg' = sg_parent sg \<and>
    (\<forall>x. count (mset (sg_directConnections sg')) x + count (mset (sg_queuedConnections sg')) x =
      count (mset (sg_directConnections sg)) x + count (mset (sg_queuedConnections sg)) x +
      (if x = s then 1 else 0)) \<and>
    connect cur g s type w = (w\<lparr>signals := (signals w)(g \<mapsto> sg'),
      slots := (slots w)(s \<mapsto> sl\<lparr>sl_connectedSignals := sl_connectedSignals sl @ [g]\<rparr>)\<rparr>, None)"
proof -
  obtain c where c: "connection_type cur sg sl type = Inr c" using connection_type_total by blast
  let ?sg = "if c = Direct then sg\<lparr>sg_directConnections := sg_directConnections sg @ [s]\<rparr>
    else sg\<lparr>sg_queuedConnections := sg_queuedConnections sg @ [s]\<rparr>"
  show ?thesis
    using assms c by (intro exI [of _ ?sg])
      (auto simp: connect_def signalConnected_def object_defs)
qed

lemma linked_connect:
  assumes "linked w"
  shows "linked (fst (connect cur g s type w))"
proof (cases "signals w g = None \<or> slots w s = None")
  case True
  with assms show ?thesis by (auto simp: connect_def object_defs split: option.splits)
next
  case False
  then obtain sg sl where a: "signals w g = Some sg" "slots w s = Some sl" by auto
  have "count (mset (sg_directConnections sg)) x + count (mset (sg_queuedConnections sg)) x =
      (case slots w x of None \<Rightarrow> 0 | Some sl \<Rightarrow> count (mset (sl_connectedSignals sl)) g)" for x
    using linkedD [OF assms, of g x] a(1) by (simp add: sg_links_def sl_links_def)
  with connect_total [OF a, of cur type] linkedD [OF assms] a show ?thesis
    by (auto simp: linked_def sg_links_def sl_links_def)
qed

text \<open>Telling a slot and erasing it from the vector it stands in.\<close>

lemma tell_erase_direct:
  assumes "linked w" "signals w g = Some sg" "s \<in> set (sg_directConnections sg)"
  obtains w' where "andThen (signalDisconnected g s w) (erase_direct g s) = (w', None)"
    "linked w'" "signals w' = (signals w)(g \<mapsto> sg\<lparr>sg_directConnections := remove1 s (sg_directConnections sg)\<rparr>)"
proof -
  obtain sl where sl: "slots w s = Some sl" "g \<in> set (sl_connectedSignals sl)"
    using linked_slot_alive assms by blast
  let ?w = "w\<lparr>slots := (slots w)(s \<mapsto> sl\<lparr>sl_connectedSignals := remove1 g (sl_connectedSignals sl)\<rparr>),
    signals := (signals w)(g \<mapsto> sg\<lparr>sg_directConnections := remove1 s (sg_directConnections sg)\<rparr>)\<rparr>"
  have "sg_links ?w h r = sl_links ?w h r" for h r
    using linkedD [OF assms(1), of h r] assms(2,3) sl
    by (auto simp: sg_links_def sl_links_def)
  then have "linked ?w" by (rule linkedI)
  moreover have "andThen (signalDisconnected g s w) (erase_direct g s) = (?w, None)"
    using assms(2) sl(1) by (simp add: signalDisconnected_def erase_direct_def object_defs)
  ultimately show thesis using that by simp
qed

lemma tell_erase_queued:
  assumes "linked w" "signals w g = Some sg" "s \<in> set (sg_queuedConnections sg)"
  obtains w' where "andThen (signalDisconnected g s w) (erase_queued g s) = (w', None)"
    "linked w'" "signals w' = (signals w)(g \<mapsto> sg\<lparr>sg_queuedConnections := remove1 s (sg_queuedConnections sg)\<rparr>)"
proof -
  obtain sl where sl: "slots w s = Some sl" "g \<in> set (sl_connectedSignals sl)"
    using linked_slot_alive assms by blast
  let ?w = "w\<lparr>slots := (slots w)(s \<mapsto> sl\<lparr>sl_connectedSignals := remove1 g (sl_connectedSignals sl)\<rparr>),
    signals := (signals w)(g \<mapsto> sg\<lparr>sg_queuedConnections := remove1 s (sg_queuedConnections sg)\<rparr>)\<rparr>"
  have "sg_links ?w h r = sl_links ?w h r" for h r
    using linkedD [OF assms(1), of h r] assms(2,3) sl
    by (auto simp: sg_links_def sl_links_def)
  then have "linked ?w" by (rule linkedI)
  moreover have "andThen (signalDisconnected g s w) (erase_queued g s) = (?w, None)"
    using assms(2) sl(1) by (simp add: signalDisconnected_def erase_queued_def object_defs)
  ultimately show thesis using that by simp
qed

lemma disconnect_direct_loop:
  "linked w \<Longrightarrow> signals w g = Some sg \<Longrightarrow> sg_directConnections sg = xs \<Longrightarrow>
   \<exists>w'. each (\<lambda>s w. andThen (signalDisconnected g s w) (erase_direct g s)) xs w = (w', None) \<and>
     linked w' \<and> signals w' = (signals w)(g \<mapsto> sg\<lparr>sg_directConnections := []\<rparr>)"
proof (induction xs arbitrary: w sg)
  case Nil
  then have "sg\<lparr>sg_directConnections := []\<rparr> = sg" by simp
  with Nil show ?case by (simp add: fun_upd_idem)
next
  case (Cons s xs)
  have "s \<in> set (sg_directConnections sg)" using Cons.prems(3) by simp
  then obtain w' where w': "andThen (signalDisconnected g s w) (erase_direct g s) = (w', None)"
    "linked w'" "signals w' = (signals w)(g \<mapsto> sg\<lparr>sg_directConnections := remove1 s (sg_directConnections sg)\<rparr>)"
    by (rule tell_erase_direct [OF Cons.prems(1,2)])
  have g: "signals w' g = Some (sg\<lparr>sg_directConnections := xs\<rparr>)"
    unfolding w'(3) using Cons.prems(3) by simp
  have "sg_directConnections (sg\<lparr>sg_directConnections := xs\<rparr>) = xs" by simp
  from Cons.IH [OF w'(2) g this] obtain w'' where w'':
    "each (\<lambda>s w. andThen (signalDisconnected g s w) (erase_direct g s)) xs w' = (w'', None)" "linked w''"
    "signals w'' = (signals w')(g \<mapsto> sg\<lparr>sg_directConnections := xs\<rparr>\<lparr>sg_directConnections := []\<rparr>)" by blast
  have "signals w'' = (signals w)(g \<mapsto> sg\<lparr>sg_directConnections := []\<rparr>)"
    unfolding w''(3) w'(3) by simp
  with w'(1) w''(1,2) show ?case by (intro exI [of _ w'']) simp
qed

lemma disconnect_queued_loop:
  "linked w \<Longrightarrow> signals w g = Some sg \<Longrightarrow> sg_queuedConnections sg = xs \<Longrightarrow>
   \<exists>w'. each (\<lambda>s w. andThen (signalDisconnected g s w) (erase_queued g s)) xs w = (w', None) \<and>
     linked w' \<and> signals w' = (signals w)(g \<mapsto> sg\<lparr>sg_queuedConnections := []\<rparr>)"
proof (induction xs arbitrary: w sg)
  case Nil
  then have "sg\<lparr>sg_queuedConnections := []\<rparr> = sg" by simp
  with Nil show ?case by (simp add: fun_upd_idem)
next
  case (Cons s xs)
  have "s \<in> set (sg_queuedConnections sg)" using Cons.prems(3) by simp
  then obtain w' where w': "andThen (signalDisconnected g s w) (erase_queued g s) = (w', None)"
    "linked w'" "signals w' = (signals w)(g \<mapsto> sg\<lparr>sg_queuedConnections := remove1 s (sg_queuedConnections sg)\<rparr>)"
    by (rule tell_erase_queued [OF Cons.prems(1,2)])
  have g: "signals w' g = Some (sg\<lparr>sg_queuedConnections := xs\<rparr>)"
    unfolding w'(3) using Cons.prems(3) by simp
  have "sg_queuedConnections (sg\<lparr>sg_queuedConnections := xs\<rparr>) = xs" by simp
  from Cons.IH [OF w'(2) g this] obtain w'' where w'':
    "each (\<lambda>s w. andThen (signalDisconnected g s w) (erase_queued g s)) xs w' = (w'', None)" "linked w''"
    "signals w'' = (signals w')(g \<mapsto> sg\<lparr>sg_queuedConnections := xs\<rparr>\<lparr>sg_queuedConnections := []\<rparr>)" by blast
  have "signals w'' = (signals w)(g \<mapsto> sg\<lparr>sg_queuedConnections := []\<rparr>)"
    unfolding w''(3) w'(3) by simp
  with w'(1) w''(1,2) show ?case by (intro exI [of _ w'']) simp
qed

lemma disconnect_all:
  assumes "linked w" "signals w g = Some sg"
  obtains w' where "disconnect g w = (w', None)" "linked w'"
    "signals w' = (signals w)(g \<mapsto> sg\<lparr>sg_directConnections := [], sg_queuedConnections := []\<rparr>)"
proof -
  from disconnect_direct_loop [OF assms refl] obtain w1 where
    w1: "each (\<lambda>s w. andThen (signalDisconnected g s w) (erase_direct g s)) (sg_directConnections sg) w = (w1, None)"
    "linked w1" "signals w1 = (signals w)(g \<mapsto> sg\<lparr>sg_directConnections := []\<rparr>)" by blast
  then have "signals w1 g = Some (sg\<lparr>sg_directConnections := []\<rparr>)" by simp
  from disconnect_queued_loop [OF w1(2) this] obtain w2 where
    w2: "each (\<lambda>s w. andThen (signalDisconnected g s w) (erase_queued g s)) (sg_queuedConnections sg) w1 = (w2, None)"
    "linked w2" "signals w2 = (signals w1)(g \<mapsto> sg\<lparr>sg_directConnections := [], sg_queuedConnections := []\<rparr>)" by auto
  show thesis
    by (rule that [of w2]) (use assms(2) w1 w2 in \<open>simp_all add: disconnect_def with_signal_def\<close>)
qed

lemma linked_disconnect_slot:
  assumes "linked w"
  shows "linked (fst (disconnect_slot g s w))"
proof (cases "signals w g")
  case None
  with assms show ?thesis by (simp add: disconnect_slot_def with_signal_def)
next
  case (Some sg)
  let ?a = "if s \<in> set (sg_directConnections sg)
    then andThen (signalDisconnected g s w) (erase_direct g s) else (w, None)"
  have "\<exists>w1 sg1. ?a = (w1, None) \<and> linked w1 \<and> signals w1 g = Some sg1 \<and>
      sg_queuedConnections sg1 = sg_queuedConnections sg"
  proof (cases "s \<in> set (sg_directConnections sg)")
    case True
    obtain w' where "andThen (signalDisconnected g s w) (erase_direct g s) = (w', None)" "linked w'"
      "signals w' = (signals w)(g \<mapsto> sg\<lparr>sg_directConnections := remove1 s (sg_directConnections sg)\<rparr>)"
      by (rule tell_erase_direct [OF assms Some True])
    with True show ?thesis by simp
  qed (use assms Some in simp)
  then obtain w1 sg1 where w1: "?a = (w1, None)" "linked w1" "signals w1 g = Some sg1"
    "sg_queuedConnections sg1 = sg_queuedConnections sg" by blast
  have "linked (fst (if s \<in> set (sg_queuedConnections sg)
    then andThen (signalDisconnected g s w1) (erase_queued g s) else (w1, None)))"
  proof (cases "s \<in> set (sg_queuedConnections sg)")
    case True
    with w1(4) have "s \<in> set (sg_queuedConnections sg1)" by simp
    then obtain w' where "andThen (signalDisconnected g s w1) (erase_queued g s) = (w', None)" "linked w'"
      by (rule tell_erase_queued [OF w1(2,3)])
    with True show ?thesis by simp
  qed (use w1(2) in simp)
  with Some w1(1) show ?thesis by (simp add: disconnect_slot_def with_signal_def)
qed

subsection \<open>Destruction\<close>

text \<open>A destroyed slot is taken out of every vector as often as it is connected.\<close>

lemma removeSlotConnection_eq:
  "signals w g = Some sg \<Longrightarrow> removeSlotConnection s g w =
    (w\<lparr>signals := (signals w)(g \<mapsto> sg\<lparr>sg_directConnections := remove1 s (sg_directConnections sg),
       sg_queuedConnections := remove1 s (sg_queuedConnections sg)\<rparr>)\<rparr>, None)"
  by (simp add: removeSlotConnection_def erase_direct_def erase_queued_def object_defs)

definition sg_count :: "'a objects \<Rightarrow> signal_id \<Rightarrow> slot_id \<Rightarrow> nat \<times> nat" where
  "sg_count w g s = (case signals w g of None \<Rightarrow> (0, 0)
     | Some sg \<Rightarrow> (count (mset (sg_directConnections sg)) s, count (mset (sg_queuedConnections sg)) s))"

lemma sg_links_count: "sg_links w g s = fst (sg_count w g s) + snd (sg_count w g s)"
  by (simp add: sg_links_def sg_count_def split: option.split)

lemma removals:
  "\<forall>g \<in> set gs. signals w g \<noteq> None \<Longrightarrow>
   \<exists>w'. each (removeSlotConnection s) gs w = (w', None) \<and> slots w' = slots w \<and>
     dom (signals w') = dom (signals w) \<and>
     (\<forall>h r. sg_count w' h r = (if r = s
        then (fst (sg_count w h s) - count (mset gs) h, snd (sg_count w h s) - count (mset gs) h)
        else sg_count w h r))"
proof (induction gs arbitrary: w)
  case Nil
  then show ?case by simp
next
  case (Cons g gs)
  then obtain sg where sg: "signals w g = Some sg" by auto
  let ?sg = "sg\<lparr>sg_directConnections := remove1 s (sg_directConnections sg),
       sg_queuedConnections := remove1 s (sg_queuedConnections sg)\<rparr>"
  let ?w = "w\<lparr>signals := (signals w)(g \<mapsto> ?sg)\<rparr>"
  have c: "sg_count ?w h r = (if h = g \<and> r = s
      then (fst (sg_count w g s) - 1, snd (sg_count w g s) - 1) else sg_count w h r)" for h r
    using sg by (simp add: sg_count_def)
  have "\<forall>h \<in> set gs. signals ?w h \<noteq> None" using Cons.prems by simp
  from Cons.IH [OF this] obtain w' where w': "each (removeSlotConnection s) gs ?w = (w', None)"
    "slots w' = slots ?w" "dom (signals w') = dom (signals ?w)"
    "\<forall>h r. sg_count w' h r = (if r = s
        then (fst (sg_count ?w h s) - count (mset gs) h, snd (sg_count ?w h s) - count (mset gs) h)
        else sg_count ?w h r)" by blast
  show ?case
  proof (intro exI conjI)
    show "each (removeSlotConnection s) (g # gs) w = (w', None)"
      using w'(1) removeSlotConnection_eq [OF sg] by simp
    show "slots w' = slots w" using w'(2) by simp
    show "dom (signals w') = dom (signals w)" using w'(3) sg by auto
    show "\<forall>h r. sg_count w' h r = (if r = s
        then (fst (sg_count w h s) - count (mset (g # gs)) h, snd (sg_count w h s) - count (mset (g # gs)) h)
        else sg_count w h r)"
      unfolding w'(4) [rule_format] c by simp
  qed
qed

lemma linked_destroy_slot:
  assumes "linked w" "slots w s = Some sl"
  obtains w' where "destroy_slot s w = (w', None)" "linked w'"
    "slots w' = (slots w)(s := None)" "dom (signals w') = dom (signals w)"
proof -
  have "\<forall>g \<in> set (sl_connectedSignals sl). signals w g \<noteq> None"
    using linked_signalD [OF assms] by blast
  from removals [OF this, of s] obtain w1 where w1:
    "each (removeSlotConnection s) (sl_connectedSignals sl) w = (w1, None)" "slots w1 = slots w"
    "dom (signals w1) = dom (signals w)"
    "\<forall>h r. sg_count w1 h r = (if r = s
        then (fst (sg_count w h s) - count (mset (sl_connectedSignals sl)) h,
              snd (sg_count w h s) - count (mset (sl_connectedSignals sl)) h)
        else sg_count w h r)" by blast
  let ?w = "w1\<lparr>slots := (slots w1)(s := None)\<rparr>"
  have l: "sg_links w g r = sl_links w g r" for g r using linkedD [OF assms(1)] .
  have cnt: "count (mset (sl_connectedSignals sl)) h = fst (sg_count w h s) + snd (sg_count w h s)" for h
    using l [of h s] assms(2) by (simp add: sl_links_def sg_links_count)
  have "sg_links ?w g r = sl_links ?w g r" for g r
  proof -
    have "sg_links ?w g r = sg_links w1 g r" by (simp add: sg_links_def)
    also have "\<dots> = (if r = s then 0 else sg_links w g r)"
      unfolding sg_links_count w1(4) [rule_format] cnt by simp
    also have "\<dots> = sl_links ?w g r" using l [of g r] w1(2) by (simp add: sl_links_def)
    finally show ?thesis .
  qed
  then have "linked ?w" by (rule linkedI)
  moreover have "destroy_slot s w = (?w, None)"
    using assms(2) w1(1)
    by (simp add: destroy_slot_def removeThisFromConnectedSignals_def with_slot_def)
  ultimately show thesis using that w1(2,3) by simp
qed

lemma linked_destroy_signal:
  assumes "linked w" "signals w g = Some sg"
  obtains w' where "destroy_signal g w = (w', None)" "linked w'" "signals w' = (signals w)(g := None)"
proof -
  obtain w1 where w1: "disconnect g w = (w1, None)" "linked w1"
    "signals w1 = (signals w)(g \<mapsto> sg\<lparr>sg_directConnections := [], sg_queuedConnections := []\<rparr>)"
    using disconnect_all [OF assms] .
  let ?w = "w1\<lparr>signals := (signals w1)(g := None)\<rparr>"
  have "sg_links ?w h s = sl_links ?w h s" for h s
    using linkedD [OF w1(2), of h s] w1(3) by (cases "h = g") (simp_all add: sg_links_def sl_links_def)
  then have "linked ?w" by (rule linkedI)
  with w1(1,3) show thesis by (intro that [of ?w]) (simp_all add: destroy_signal_def)
qed

lemma linked_disconnect: "linked w \<Longrightarrow> linked (fst (disconnect g w))"
  by (cases "signals w g") (simp add: disconnect_def with_signal_def, metis disconnect_all fst_conv)

lemma linked_destroy:
  "linked w \<Longrightarrow> linked (fst (destroy_signal g w))"
  "linked w \<Longrightarrow> linked (fst (destroy_slot s w))"
  by (cases "signals w g", simp add: destroy_signal_def disconnect_def with_signal_def,
      metis linked_destroy_signal fst_conv)
    (cases "slots w s", simp add: destroy_slot_def removeThisFromConnectedSignals_def with_slot_def,
      metis linked_destroy_slot fst_conv)

end
