(* ===== verification/SignalProperties.thy ===== *)
theory SignalProperties
  imports SignalFacts
begin

text \<open>
  The properties of signals and slots: reachable stores hold no dangling connection, a
  signal without arguments reaches every connected slot exactly once and in the slot's own
  thread whatever the interleaving of the event loops, and the ways in which queued
  deliveries fail.
\<close>

subsection \<open>Reachable stores\<close>

lemma linked_no_objects: "linked no_objects"
  by (simp add: linked_def sg_links_def sl_links_def no_objects_def)

lemma linked_step:
  assumes "object_step w w'" "linked w"
  shows "linked w'"
  using assms(1)
proof cases
  case (create_slot s init p)
  have "sg_links w' g r = sl_links w' g r" for g r
    using create_slot linkedD [OF assms(2), of g r]
    by (simp add: sg_links_def sl_links_def object_defs new_slot_def)
  then show ?thesis by (rule linkedI)
next
  case (create_signal g p)
  have "sg_links w' h s = sl_links w' h s" for h s
    using create_signal linkedD [OF assms(2), of h s] by (cases "h = g") (simp_all add: sg_links_def sl_links_def object_defs)
  then show ?thesis by (rule linkedI)
next
  case (set_function s e)
  have "sg_links w' g r = sl_links w' g r" for g r
    using set_function linkedD [OF assms(2), of g r]
    by (cases "slots w s"; cases "r = s") (auto simp: sg_links_def sl_links_def object_defs setSlotFunction_def)
  then show ?thesis by (rule linkedI)
next
  case (connect cur g s type e)
  then show ?thesis using linked_connect [OF assms(2)] by (metis fst_conv)
next
  case (disconnect g e)
  then show ?thesis using linked_disconnect [OF assms(2)] by (metis fst_conv)
next
  case (disconnect_slot g s e)
  then show ?thesis using linked_disconnect_slot [OF assms(2)] by (metis fst_conv)
next
  case (destroy_slot s e)
  then show ?thesis using linked_destroy(2) [OF assms(2)] by (metis fst_conv)
next
  case (destroy_signal g e)
  then show ?thesis using linked_destroy(1) [OF assms(2)] by (metis fst_conv)
next
  case (emit cur g args e)
  then show ?thesis using same_links_emit [OF same_links_refl] same_links_linked assms(2) by (metis fst_conv)
next
  case (user_event p n e)
  then show ?thesis using same_links_addEvent [OF same_links_refl] same_links_linked assms(2) by (metis fst_conv)
next
  case (iteration t e)
  then show ?thesis using same_links_iteration [OF same_links_refl] same_links_linked assms(2) by (metis fst_conv)
qed (use assms(2) in \<open>simp_all add: start_thread_def stop_thread_def\<close>)

lemma linked_run: "object_run no_objects w \<Longrightarrow> linked w"
  by (induction rule: rtranclp_induct) (auto intro: linked_no_objects linked_step)

text \<open>An emission from a store whose connections are linked reaches live slots only.\<close>

lemma each_no_undefined:
  assumes "P s" "\<And>x s. x \<in> set xs \<Longrightarrow> P s \<Longrightarrow> P (fst (f x s)) \<and> snd (f x s) \<noteq> Some Undefined"
  shows "snd (each f xs s) \<noteq> Some Undefined"
  using assms
proof (induction xs arbitrary: s)
  case (Cons x xs)
  have fx: "P (fst (f x s)) \<and> snd (f x s) \<noteq> Some Undefined"
    by (rule Cons.prems(2)) (simp_all add: Cons.prems(1))
  show ?case
  proof (cases "snd (f x s)")
    case None
    then have "f x s = (fst (f x s), None)" by (metis prod.collapse)
    moreover have "snd (each f xs (fst (f x s))) \<noteq> Some Undefined"
      by (rule Cons.IH) (use fx Cons.prems(2) in auto)
    ultimately show ?thesis by (metis andThen_simps(1) each.simps(2))
  next
    case (Some e)
    with fx show ?thesis by (simp add: andThen_def)
  qed
qed simp

lemma addEvent_no_undefined: "snd (addEvent p e w) \<noteq> Some Undefined"
  by (induction p e w rule: addEvent.induct) auto

lemma direct_no_undefined:
  assumes "linked w" "signals w g \<noteq> None"
  shows "snd (callDirectConnections cur g args w) \<noteq> Some Undefined"
proof -
  obtain sg where sg: "signals w g = Some sg" using assms(2) by blast
  have "snd (slot_call cur args s u) \<noteq> Some Undefined"
    if "s \<in> set (sg_directConnections sg)" "same_links w u" for s u
    using linked_slotD [OF assms(1) sg, of s] that
    by (auto simp: slot_call_def with_slot_def same_links_def split: if_splits)
  then have "snd (each (slot_call cur args) (sg_directConnections sg) w) \<noteq> Some Undefined"
    by (intro each_no_undefined [where P = "same_links w"]) (auto intro: same_links_slot_call)
  with sg show ?thesis by (simp add: callDirectConnections_def with_signal_def)
qed

lemma queued_no_undefined:
  assumes "linked w" "signals w g \<noteq> None"
  shows "snd (callQueuedConnections g args w) \<noteq> Some Undefined"
proof -
  obtain sg where sg: "signals w g = Some sg" using assms(2) by blast
  have "snd (addEventToParent args s u) \<noteq> Some Undefined"
    if "s \<in> set (sg_queuedConnections sg)" "same_links w u" for s u
    using linked_slotD [OF assms(1) sg, of s] that
    by (auto simp: addEventToParent_def with_slot_def same_links_def addEvent_no_undefined split: option.split)
  then have "snd (each (addEventToParent args) (sg_queuedConnections sg) w) \<noteq> Some Undefined"
    by (intro each_no_undefined [where P = "same_links w"]) (auto intro: same_links_toParent)
  with sg show ?thesis by (simp add: callQueuedConnections_def with_signal_def)
qed

lemma emit_no_undefined:
  assumes "linked w" "signals w g \<noteq> None"
  shows "snd (emit cur g args w) \<noteq> Some Undefined"
proof -
  obtain sg where sg: "signals w g = Some sg" using assms(2) by blast
  have "snd (andThen (callDirectConnections cur g args w) (callQueuedConnections g args)) \<noteq> Some Undefined"
  proof (cases "snd (callDirectConnections cur g args w)")
    case None
    obtain u where u: "callDirectConnections cur g args w = (u, None)" using None by (metis prod.collapse)
    then have "same_links w u" using same_links_direct [OF same_links_refl] by (metis fst_conv)
    then have "linked u" "signals u g \<noteq> None"
      using assms same_links_linked by (auto simp: same_links_def)
    with u show ?thesis using queued_no_undefined by simp
  next
    case (Some e)
    then show ?thesis using direct_no_undefined [OF assms, of cur args] by (simp add: andThen_def)
  qed
  with sg show ?thesis
    using direct_no_undefined [OF assms, of cur args] addEvent_no_undefined
    by (auto simp: emit_def with_signal_def split: option.split)
qed

text \<open>
  C4. In every store that creating, connecting, disconnecting, destroying, emitting and the rounds
  of the event loops can lead to, a signal holds a slot, in its two lists together, exactly as often
  as the slot holds the signal; so a live signal holds live slots only and a live slot live signals
  only, emitting a live signal reaches no destroyed slot, and destroying a live slot or signal always
  succeeds.  (Connections only: a queued event may outlive its slot, \<open>queued_event_outlives\<close>.)
\<close>

theorem no_dangling_connection:
  assumes "object_run no_objects w"
  shows "(\<forall>g s. sg_links w g s = sl_links w g s) \<and>
    (\<forall>g sg. signals w g = Some sg \<longrightarrow>
      (\<forall>s \<in> set (sg_directConnections sg @ sg_queuedConnections sg). slots w s \<noteq> None) \<and>
      (\<forall>cur args. snd (emit cur g args w) \<noteq> Some Undefined) \<and> snd (destroy_signal g w) = None) \<and>
    (\<forall>s sl. slots w s = Some sl \<longrightarrow>
      (\<forall>g \<in> set (sl_connectedSignals sl). signals w g \<noteq> None) \<and> snd (destroy_slot s w) = None)"
proof (intro conjI allI impI)
  have l: "linked w" by (rule linked_run [OF assms])
  show "sg_links w g s = sl_links w g s" for g s by (rule linkedD [OF l])
  fix g sg assume sg: "signals w g = Some sg"
  show "\<forall>s \<in> set (sg_directConnections sg @ sg_queuedConnections sg). slots w s \<noteq> None"
    using linked_slotD [OF l sg] by blast
  show "snd (emit cur g args w) \<noteq> Some Undefined" for cur args
    by (rule emit_no_undefined [OF l]) (simp add: sg)
  show "snd (destroy_signal g w) = None" using linked_destroy_signal [OF l sg] by (metis snd_conv)
next
  have l: "linked w" by (rule linked_run [OF assms])
  fix s sl assume sl: "slots w s = Some sl"
  show "\<forall>g \<in> set (sl_connectedSignals sl). signals w g \<noteq> None" using linked_signalD [OF l sl] by blast
  show "snd (destroy_slot s w) = None" using linked_destroy_slot [OF l sl] by (metis snd_conv)
qed

definition example_objects :: "nat objects" where
  "example_objects = put_slot 7 (new_slot True None)
     (put_signal 3 \<lparr>sg_parent = None, sg_directConnections = [], sg_queuedConnections = []\<rparr> no_objects)"

lemma example_objects_run: "object_run no_objects example_objects"
proof -
  let ?w = "put_signal 3 \<lparr>sg_parent = None, sg_directConnections = [], sg_queuedConnections = []\<rparr> no_objects :: nat objects"
  have "object_step no_objects ?w" by (rule create_signal) (simp add: no_objects_def)
  moreover have "object_step ?w example_objects"
    unfolding example_objects_def by (rule create_slot) (simp add: put_signal_def no_objects_def)
  ultimately show ?thesis by (meson rtranclp.simps)
qed

theorem no_dangling_connection_witness:
  "\<exists>w. connect 0 3 7 Auto example_objects = (w, None) \<and> snd (emit 0 3 [5] w) \<noteq> Some Undefined \<and>
     snd (destroy_slot 7 w) = None \<and> calls (fst (emit 0 3 [5] w)) = [SlotCall 0 7 [5]]"
proof -
  define w where "w = fst (connect 0 3 7 Auto example_objects)"
  have c: "connect 0 3 7 Auto example_objects = (w, None)"
    unfolding w_def
    by (simp add: connect_def connection_type_def signalConnected_def example_objects_def no_objects_def
        new_slot_def object_defs)
  then have "object_step example_objects w" by (rule object_step.connect) simp
  with example_objects_run have r: "object_run no_objects w" by simp
  have a: "signals w 3 \<noteq> None" "slots w 7 \<noteq> None"
    by (simp_all add: w_def connect_def connection_type_def signalConnected_def example_objects_def
        no_objects_def new_slot_def object_defs)
  moreover have "calls (fst (emit 0 3 [5] w)) = [SlotCall 0 7 [5]]"
    by (simp add: w_def connect_def connection_type_def signalConnected_def example_objects_def emit_def
        callDirectConnections_def slot_call_def no_objects_def new_slot_def object_defs)
  ultimately show ?thesis
    using c no_dangling_connection [OF r] by blast
qed

subsection \<open>Deliveries\<close>

text \<open>
  The calls that an event still owes, and the condition under which it pays them: the slots
  are live and initialised, queued slots belong to an object with an event loop, and no
  argument has been captured.
\<close>

definition slot_thread :: "'a objects \<Rightarrow> slot_id \<Rightarrow> thread_id" where
  "slot_thread w s = (case slots w s of None \<Rightarrow> 0 | Some sl \<Rightarrow> slot_getThreadId 0 sl)"

definition slot_ready :: "'a objects \<Rightarrow> slot_id \<Rightarrow> bool" where
  "slot_ready w s = (case slots w s of None \<Rightarrow> False | Some sl \<Rightarrow> sl_init sl)"

definition slot_queueable :: "'a objects \<Rightarrow> slot_id \<Rightarrow> bool" where
  "slot_queueable w s = (case slots w s of None \<Rightarrow> False | Some sl \<Rightarrow>
     sl_init sl \<and> (case sl_parent sl of None \<Rightarrow> False
       | Some p \<Rightarrow> (case getRootObject p of br_threaded_object _ \<Rightarrow> True | br_object _ \<Rightarrow> False)))"

definition signal_ready :: "thread_id set \<Rightarrow> 'a objects \<Rightarrow> signal_id \<Rightarrow> bool" where
  "signal_ready T w g = (case signals w g of None \<Rightarrow> False | Some sg \<Rightarrow>
     (\<forall>s \<in> set (sg_directConnections sg). slot_ready w s) \<and>
     (\<forall>s \<in> set (sg_queuedConnections sg). slot_queueable w s \<and> slot_thread w s \<in> T) \<and>
     (sg_parent sg = None \<longrightarrow> sg_queuedConnections sg = []))"

fun event_ready :: "thread_id set \<Rightarrow> 'a objects \<Rightarrow> thread_id \<Rightarrow> 'a event \<Rightarrow> bool" where
  "event_ready T w t (SlotEvent s args) = (args = [] \<and> slot_ready w s \<and> slot_thread w s = t)"
| "event_ready T w t (EmitEvent g args) = (args = [] \<and> signal_ready T w g)"
| "event_ready T w t (UserEvent n) = True"

definition store_ready :: "thread_id set \<Rightarrow> 'a objects \<Rightarrow> bool" where
  "store_ready T w \<longleftrightarrow> finite T \<and> (\<forall>t. eventLists w t \<noteq> [] \<longrightarrow> t \<in> T) \<and>
     (\<forall>t. \<forall>e \<in> set (eventLists w t). event_ready T w t e)"

definition signal_calls :: "'a objects \<Rightarrow> thread_id \<Rightarrow> signal_id \<Rightarrow> 'a call multiset" where
  "signal_calls w t g = (case signals w g of None \<Rightarrow> {#} | Some sg \<Rightarrow>
     mset (map (\<lambda>s. SlotCall t s []) (sg_directConnections sg)) +
     mset (map (\<lambda>s. SlotCall (slot_thread w s) s []) (sg_queuedConnections sg)))"

fun event_calls :: "'a objects \<Rightarrow> thread_id \<Rightarrow> 'a event \<Rightarrow> 'a call multiset" where
  "event_calls w t (SlotEvent s args) = {#SlotCall t s args#}"
| "event_calls w t (EmitEvent g args) = signal_calls w t g"
| "event_calls w t (UserEvent n) = {#UserCall t n#}"

fun event_work :: "'a objects \<Rightarrow> thread_id \<Rightarrow> 'a event \<Rightarrow> nat" where
  "event_work w t (EmitEvent g args) =
     (case signals w g of None \<Rightarrow> 1 | Some sg \<Rightarrow> Suc (length (sg_queuedConnections sg)))"
| "event_work w t _ = 1"

definition total :: "(thread_id \<Rightarrow> 'a event \<Rightarrow> 'm::comm_monoid_add) \<Rightarrow> thread_id set \<Rightarrow> 'a objects \<Rightarrow> 'm" where
  "total f T w = (\<Sum>t \<in> T. sum_list (map (f t) (eventLists w t)))"

lemma total_push:
  assumes "finite T" "t \<in> T"
  shows "total f T (push_event t e w) = total f T w + f t e"
proof -
  have "total f T (push_event t e w) =
      (\<Sum>u \<in> T. sum_list (map (f u) (eventLists w u)) + (if u = t then f u e else 0))"
    unfolding total_def by (rule sum.cong) (auto simp: push_event_def)
  then show ?thesis using assms by (simp add: sum.distrib total_def)
qed

lemma total_pop:
  assumes "finite T" "t \<in> T" "eventLists w t = e # es"
  shows "total f T w = total f T (pop_event t w) + f t e"
proof -
  have "total f T w =
      (\<Sum>u \<in> T. sum_list (map (f u) (eventLists (pop_event t w) u)) + (if u = t then f u e else 0))"
    unfolding total_def using assms(3) by (intro sum.cong) (auto simp: pop_event_def add.commute)
  then show ?thesis using assms by (simp add: sum.distrib total_def)
qed

text \<open>The readings above depend on the connections only.\<close>

lemma same_links_readings:
  assumes "same_links w w'"
  shows "slot_thread w' = slot_thread w" "slot_ready w' = slot_ready w"
    "slot_queueable w' = slot_queueable w" "signal_ready T w' = signal_ready T w"
    "event_ready T w' = event_ready T w" "event_calls w' = event_calls w" "event_work w' = event_work w"
    "signal_calls w' = signal_calls w"
proof -
  have eq: "slots w' = slots w" "signals w' = signals w" using assms by (simp_all add: same_links_def)
  show 1: "slot_thread w' = slot_thread w" "slot_ready w' = slot_ready w"
    "slot_queueable w' = slot_queueable w"
    by (simp_all add: fun_eq_iff slot_thread_def slot_ready_def slot_queueable_def eq)
  show 2: "signal_ready T w' = signal_ready T w"
    unfolding fun_eq_iff signal_ready_def 1 eq by simp
  show "signal_calls w' = signal_calls w" unfolding fun_eq_iff signal_calls_def 1 eq by simp
  then show "event_calls w' = event_calls w"
    by (intro ext) (rename_tac t e, case_tac e, simp_all)
  show "event_work w' = event_work w"
    by (intro ext) (rename_tac t e, case_tac e, simp_all add: eq)
  show "event_ready T w' = event_ready T w"
    by (intro ext) (rename_tac t e, case_tac e, simp_all add: 1 2)
qed

lemma slot_call_ready: "slot_ready w s \<Longrightarrow> slot_call cur args s w = (run_function cur s args w, None)"
  by (auto simp: slot_ready_def slot_call_def with_slot_def split: option.splits)

lemma each_slot_call:
  "\<forall>s \<in> set xs. slot_ready w s \<Longrightarrow>
   each (slot_call cur args) xs w = (w\<lparr>calls := calls w @ map (\<lambda>s. SlotCall cur s args) xs\<rparr>, None)"
proof (induction xs arbitrary: w)
  case (Cons s xs)
  have r: "slot_ready (run_function cur s args w) = slot_ready w"
    by (simp add: fun_eq_iff slot_ready_def run_function_def)
  have "each (slot_call cur args) (s # xs) w = each (slot_call cur args) xs (run_function cur s args w)"
    using Cons.prems slot_call_ready [of w s] by simp
  also have "\<dots> = (w\<lparr>calls := calls w @ map (\<lambda>s. SlotCall cur s args) (s # xs)\<rparr>, None)"
    using Cons.prems r by (subst Cons.IH) (simp_all add: run_function_def)
  finally show ?case .
qed simp

lemma getThreadId_root: "getRootObject p = br_threaded_object t \<Longrightarrow> getThreadId cur p = t"
  by (induction cur p rule: getThreadId.induct) auto

lemma addEvent_root: "getRootObject p = br_threaded_object t \<Longrightarrow>
    addEvent (getRootObject p) e w = (push_event t e w, None)"
  by simp

lemma addEventToParent_queueable:
  assumes "slot_queueable w s"
  shows "addEventToParent args s w = (push_event (slot_thread w s) (SlotEvent s args) w, None)"
    and "slot_ready w s"
proof -
  from assms obtain sl p t where "slots w s = Some sl" "sl_parent sl = Some p"
    "getRootObject p = br_threaded_object t" "sl_init sl"
    by (auto simp: slot_queueable_def split: option.splits br_object.splits)
  then show "addEventToParent args s w = (push_event (slot_thread w s) (SlotEvent s args) w, None)"
    "slot_ready w s"
    by (simp_all add: addEventToParent_def with_slot_def slot_thread_def slot_getThreadId_def slot_ready_def)
qed

fun push_all :: "slot_id list \<Rightarrow> 'a objects \<Rightarrow> 'a objects" where
  "push_all [] w = w"
| "push_all (s # ss) w = push_all ss (push_event (slot_thread w s) (SlotEvent s []) w)"

lemma same_links_push [simp]: "same_links w (push_event t e w)"
  by (simp add: same_links_def push_event_def)

lemma same_links_trans: "same_links a b \<Longrightarrow> same_links b c \<Longrightarrow> same_links a c"
  by (simp add: same_links_def)

lemma same_links_push_all: "same_links w (push_all ss w)"
  by (induction ss arbitrary: w) (auto intro: same_links_trans same_links_push)

lemma each_toParent:
  "\<forall>s \<in> set ss. slot_queueable w s \<Longrightarrow> each (addEventToParent []) ss w = (push_all ss w, None)"
proof (induction ss arbitrary: w)
  case (Cons s ss)
  have "slot_queueable (push_event t e w) = slot_queueable w" for t e
    by (rule same_links_readings) simp
  with Cons show ?case by (simp add: addEventToParent_queueable)
qed simp

lemma push_all_lists:
  "eventLists (push_all ss w) t =
     eventLists w t @ map (\<lambda>s. SlotEvent s []) (filter (\<lambda>s. slot_thread w s = t) ss)"
proof (induction ss arbitrary: w)
  case (Cons s ss)
  have "slot_thread (push_event u e w) = slot_thread w" for u e
    by (rule same_links_readings) simp
  with Cons show ?case by (simp add: push_event_def)
qed simp

lemma calls_push_all [simp]: "calls (push_all ss w) = calls w" "running (push_all ss w) = running w"
  by (induction ss arbitrary: w) (simp_all add: push_event_def)

lemma total_push_all:
  assumes "finite T" "\<forall>s \<in> set ss. slot_thread w s \<in> T"
  shows "total f T (push_all ss w) = total f T w + (\<Sum>s\<leftarrow>ss. f (slot_thread w s) (SlotEvent s []))"
  using assms(2)
proof (induction ss arbitrary: w)
  case (Cons s ss)
  have "slot_thread (push_event u e w) = slot_thread w" for u e
    by (rule same_links_readings) simp
  with Cons assms(1) show ?case by (simp add: total_push add.assoc)
qed simp

text \<open>A signal without arguments delivers: direct slots now, queued slots as events.\<close>

lemma deliver_signal:
  assumes "signal_ready T w g"
  obtains sg where "signals w g = Some sg"
    "andThen (callDirectConnections t g [] w) (callQueuedConnections g []) =
      (push_all (sg_queuedConnections sg)
        (w\<lparr>calls := calls w @ map (\<lambda>s. SlotCall t s []) (sg_directConnections sg)\<rparr>), None)"
proof -
  obtain sg where sg: "signals w g = Some sg" using assms by (auto simp: signal_ready_def split: option.splits)
  let ?w = "w\<lparr>calls := calls w @ map (\<lambda>s. SlotCall t s []) (sg_directConnections sg)\<rparr>"
  have d: "\<forall>s \<in> set (sg_directConnections sg). slot_ready w s"
    and q: "\<forall>s \<in> set (sg_queuedConnections sg). slot_queueable w s"
    using assms sg by (simp_all add: signal_ready_def)
  have "slot_queueable ?w = slot_queueable w" by (rule same_links_readings) (simp add: same_links_def)
  with q have "\<forall>s \<in> set (sg_queuedConnections sg). slot_queueable ?w s" by simp
  from each_toParent [OF this] each_slot_call [OF d] sg show thesis
    by (intro that [OF sg]) (simp add: callDirectConnections_def callQueuedConnections_def with_signal_def)
qed

lemma pending_push_all:
  assumes "finite T" "\<forall>s \<in> set ss. slot_thread w s \<in> T"
  shows "total (event_calls w) T (push_all ss w) =
    total (event_calls w) T w + mset (map (\<lambda>s. SlotCall (slot_thread w s) s []) ss)"
proof -
  have "(\<Sum>s\<leftarrow>ss. event_calls w (slot_thread w s) (SlotEvent s [])) =
      mset (map (\<lambda>s. SlotCall (slot_thread w s) s []) ss)" by (induction ss) auto
  with total_push_all [OF assms, of "event_calls w"] show ?thesis by simp
qed

text \<open>What every round of an event loop does to a store that is ready.\<close>

definition pays :: "thread_id set \<Rightarrow> 'a objects \<Rightarrow> 'a objects \<Rightarrow> bool" where
  "pays T w w' \<longleftrightarrow> same_links w w' \<and> running w' = running w \<and>
     mset (calls w') + total (event_calls w) T w' = mset (calls w) + total (event_calls w) T w \<and>
     total (event_work w) T w' < total (event_work w) T w \<and> store_ready T w'"

lemma store_ready_pop: "store_ready T w \<Longrightarrow> store_ready T (pop_event t w)"
proof -
  assume r: "store_ready T w"
  have "event_ready T (pop_event t w) = event_ready T w"
    by (rule same_links_readings) (simp add: same_links_def pop_event_def)
  with r show ?thesis
    by (cases "eventLists w t") (auto simp: store_ready_def pop_event_def split: if_splits)
qed

lemma store_ready_push:
  assumes "store_ready T w" "t \<in> T" "event_ready T w t e"
  shows "store_ready T (push_event t e w)"
proof -
  have "event_ready T (push_event t e w) = event_ready T w"
    by (rule same_links_readings) simp
  with assms show ?thesis by (auto simp: store_ready_def push_event_def split: if_splits)
qed

lemma store_ready_push_all:
  assumes "store_ready T w" "\<forall>s \<in> set ss. slot_queueable w s \<and> slot_thread w s \<in> T"
  shows "store_ready T (push_all ss w)"
  using assms
proof (induction ss arbitrary: w)
  case (Cons s ss)
  let ?w = "push_event (slot_thread w s) (SlotEvent s []) w"
  have "store_ready T ?w"
    using Cons.prems addEventToParent_queueable(2) by (intro store_ready_push) auto
  moreover have "slot_queueable ?w = slot_queueable w" "slot_thread ?w = slot_thread w"
    by (rule same_links_readings, simp)+
  ultimately show ?case using Cons by simp
qed simp

lemma store_ready_calls: "store_ready T w \<Longrightarrow> store_ready T (w\<lparr>calls := c\<rparr>)"
proof -
  assume r: "store_ready T w"
  have "event_ready T (w\<lparr>calls := c\<rparr>) = event_ready T w"
    by (rule same_links_readings) (simp add: same_links_def)
  with r show ?thesis by (simp add: store_ready_def)
qed

lemma total_calls [simp]: "total f T (w\<lparr>calls := c\<rparr>) = total f T w"
  by (simp add: total_def)

lemma event_work_pos: "0 < event_work w t e"
  by (cases e) (simp_all split: option.split)

lemma execute_pays:
  assumes r: "store_ready T w" and e: "event_ready T w t e"
  obtains w' where "execute_event t e w = (w', None)" "same_links w w'" "running w' = running w"
    "\<exists>new. eventLists w' t = eventLists w t @ new" "store_ready T w'"
    "mset (calls w') + total (event_calls w) T w' = mset (calls w) + total (event_calls w) T w + event_calls w t e"
    "total (event_work w) T w' < total (event_work w) T w + event_work w t e"
proof (cases e)
  case (SlotEvent s args)
  let ?w = "w\<lparr>calls := calls w @ [SlotCall t s []]\<rparr>"
  obtain sl where "slots w s = Some sl" "sl_init sl" "args = []"
    using e SlotEvent by (auto simp: slot_ready_def split: option.splits)
  with SlotEvent r show thesis
    by (intro that [of ?w])
      (simp_all add: with_slot_def run_function_def same_links_def store_ready_calls)
next
  case (UserEvent n)
  with r show thesis
    by (intro that [of "w\<lparr>calls := calls w @ [UserCall t n]\<rparr>"])
      (simp_all add: same_links_def store_ready_calls)
next
  case (EmitEvent g args)
  with e have g: "signal_ready T w g" "args = []" by simp_all
  obtain sg where sg: "signals w g = Some sg"
    "andThen (callDirectConnections t g [] w) (callQueuedConnections g []) =
      (push_all (sg_queuedConnections sg)
        (w\<lparr>calls := calls w @ map (\<lambda>s. SlotCall t s []) (sg_directConnections sg)\<rparr>), None)"
    using deliver_signal [OF g(1)] .
  let ?w = "w\<lparr>calls := calls w @ map (\<lambda>s. SlotCall t s []) (sg_directConnections sg)\<rparr>"
  let ?w' = "push_all (sg_queuedConnections sg) ?w"
  have sl: "same_links w ?w" by (simp add: same_links_def)
  note rd = same_links_readings [OF sl]
  have q: "\<forall>s \<in> set (sg_queuedConnections sg). slot_queueable ?w s \<and> slot_thread ?w s \<in> T"
    using g(1) sg(1) rd by (simp add: signal_ready_def)
  have fin: "finite T" using r by (simp add: store_ready_def)
  have thr: "\<forall>s \<in> set (sg_queuedConnections sg). slot_thread ?w s \<in> T" using q by blast
  show thesis
  proof (rule that [of ?w'])
    show "execute_event t e w = (?w', None)" using EmitEvent g(2) sg by (simp add: with_signal_def)
    show "same_links w ?w'" using sl same_links_push_all same_links_trans by blast
    show "running ?w' = running w" by simp
    show "\<exists>new. eventLists ?w' t = eventLists w t @ new" by (simp add: push_all_lists)
    show "store_ready T ?w'" by (rule store_ready_push_all [OF store_ready_calls [OF r] q])
    show "mset (calls ?w') + total (event_calls w) T ?w' =
        mset (calls w) + total (event_calls w) T w + event_calls w t e"
      using pending_push_all [OF fin thr] EmitEvent sg(1) by (simp add: rd signal_calls_def)
    have "(\<Sum>s\<leftarrow>ss. event_work w (slot_thread ?w s) (SlotEvent s [])) = length ss" for ss
      by (induction ss) auto
    then show "total (event_work w) T ?w' < total (event_work w) T w + event_work w t e"
      using total_push_all [OF fin thr, of "event_work w"] EmitEvent sg(1) by simp
  qed
qed

lemma loop_step_pays:
  assumes "loop_step w w'" "store_ready T w"
  shows "pays T w w'"
  using assms(1)
proof cases
  case (round t)
  obtain e es where e: "eventLists w t = e # es" using round(2) by (cases "eventLists w t") auto
  have T: "finite T" "t \<in> T" "event_ready T w t e"
    using assms(2) e by (auto simp: store_ready_def)
  obtain w1 where w1: "execute_event t e w = (w1, None)" "same_links w w1" "running w1 = running w"
    "\<exists>new. eventLists w1 t = eventLists w t @ new" "store_ready T w1"
    "mset (calls w1) + total (event_calls w) T w1 = mset (calls w) + total (event_calls w) T w + event_calls w t e"
    "total (event_work w) T w1 < total (event_work w) T w + event_work w t e"
    using execute_pays [OF assms(2) T(3)] .
  then obtain es' where es': "eventLists w1 t = e # es'" using e by auto
  have w': "w' = pop_event t w1" using round(3) e w1(1) by (simp add: run_iteration_def)
  have tot: "total (event_calls w) T w1 = total (event_calls w) T w' + event_calls w t e"
    "total (event_work w) T w1 = total (event_work w) T w' + event_work w t e"
    unfolding w' by (rule total_pop [OF T(1,2) es'])+
  have "mset (calls w') = mset (calls w1)" by (simp add: w' pop_event_def)
  with tot w1 show ?thesis
    unfolding pays_def w' by (auto simp: same_links_def pop_event_def store_ready_pop [unfolded pop_event_def])
qed

lemma loop_runs_pay:
  "(loop_step ^^ n) w w' \<Longrightarrow> store_ready T w \<Longrightarrow>
   same_links w w' \<and> store_ready T w' \<and> running w' = running w \<and>
   mset (calls w') + total (event_calls w) T w' = mset (calls w) + total (event_calls w) T w \<and>
   n + total (event_work w) T w' \<le> total (event_work w) T w"
proof (induction n arbitrary: w')
  case (Suc n)
  from Suc.prems(1) obtain u where u: "(loop_step ^^ n) w u" "loop_step u w'" by auto
  note IH = Suc.IH [OF u(1) Suc.prems(2)]
  then have s: "same_links w u" "store_ready T u" by simp_all
  note p = loop_step_pays [OF u(2) s(2)]
  from p IH same_links_trans [OF s(1)] show ?case
    unfolding pays_def same_links_readings [OF s(1)] by auto
qed simp

lemma loop_progress:
  assumes "store_ready T w" "\<forall>t \<in> T. running w t" "\<exists>t. eventLists w t \<noteq> []"
  shows "\<exists>w'. loop_step w w'"
proof -
  obtain t e es where e: "eventLists w t = e # es" using assms(3) by (meson list.exhaust)
  have t: "t \<in> T" "event_ready T w t e" using assms(1) e by (auto simp: store_ready_def)
  obtain w1 where "execute_event t e w = (w1, None)" using execute_pays [OF assms(1) t(2)] by blast
  with e have "run_iteration t w = (pop_event t w1, None)" by (simp add: run_iteration_def)
  with e t(1) assms(2) show ?thesis by (metis list.distinct(1) round)
qed

lemma loops_drain:
  assumes "store_ready T w" "\<forall>t \<in> T. running w t"
  shows "\<exists>w'. loop_step\<^sup>*\<^sup>* w w' \<and> (\<forall>t. eventLists w' t = [])"
  using assms
proof (induction "total (event_work w) T w" arbitrary: w rule: less_induct)
  case less
  show ?case
  proof (cases "\<exists>t. eventLists w t \<noteq> []")
    case True
    then obtain u where u: "loop_step w u" using loop_progress less.prems by blast
    note p = loop_step_pays [OF u less.prems(1), unfolded pays_def]
    then have "event_work u = event_work w" using same_links_readings(7) by blast
    with p less obtain w' where "loop_step\<^sup>*\<^sup>* u w'" "\<forall>t. eventLists w' t = []" by metis
    with u show ?thesis by (meson converse_rtranclp_into_rtranclp)
  qed blast
qed

lemma total_empty: "\<forall>t. eventLists w t = [] \<Longrightarrow> total f T w = 0"
  by (simp add: total_def)

definition emitting_thread :: "thread_id \<Rightarrow> signal \<Rightarrow> thread_id" where
  "emitting_thread cur sg = (case sg_parent sg of None \<Rightarrow> cur | Some p \<Rightarrow> getThreadId cur p)"

lemma emit_pays:
  assumes g: "signal_ready T w g" "signals w g = Some sg" "emitting_thread cur sg \<in> T"
    and w: "store_ready T w" "\<forall>t. eventLists w t = []"
  obtains w1 where "emit cur g [] w = (w1, None)" "same_links w w1" "store_ready T w1"
    "running w1 = running w"
    "mset (calls w1) + total (event_calls w) T w1 = mset (calls w) + signal_calls w (emitting_thread cur sg) g"
    "total (event_work w) T w1 \<le> Suc (length (sg_queuedConnections sg))"
proof -
  let ?t = "emitting_thread cur sg"
  have E: "event_ready T w ?t (EmitEvent g [])" using g by simp
  obtain u where u: "execute_event ?t (EmitEvent g []) w = (u, None)" "same_links w u" "running u = running w"
    "store_ready T u"
    "mset (calls u) + total (event_calls w) T u = mset (calls w) + total (event_calls w) T w + event_calls w ?t (EmitEvent g [])"
    "total (event_work w) T u < total (event_work w) T w + event_work w ?t (EmitEvent g [])"
    using execute_pays [OF w(1) E] .
  have z: "total (event_calls w) T w = {#}" "total (event_work w) T w = 0" by (simp_all add: total_def w(2))
  have direct: "emit cur g [] w = (u, None) \<Longrightarrow> thesis"
    by (rule that [of u]) (use u z g(2) in auto)
  show thesis
  proof (cases "sg_parent sg")
    case None
    with g have "callQueuedConnections g [] (fst (callDirectConnections cur g [] w)) =
        (fst (callDirectConnections cur g [] w), None)"
      using same_links_direct [OF same_links_refl [of w], of cur g "[]"]
      by (simp add: callQueuedConnections_def with_signal_def same_links_def signal_ready_def)
    with None u(1) g(2) have "emit cur g [] w = (u, None)"
      by (cases "callDirectConnections cur g [] w"; cases "snd (callDirectConnections cur g [] w)")
        (auto simp: emit_def with_signal_def emitting_thread_def)
    then show thesis by (rule direct)
  next
    case (Some p)
    show thesis
    proof (cases "cur = getThreadId cur p")
      case True
      with Some u(1) g(2) have "emit cur g [] w = (u, None)"
        by (simp add: emit_def with_signal_def emitting_thread_def)
      then show thesis by (rule direct)
    next
      case False
      then obtain t where t: "getRootObject p = br_threaded_object t"
        by (induction p rule: getRootObject.induct) auto
      with Some have et: "?t = t" by (simp add: emitting_thread_def getThreadId_root)
      let ?w = "push_event t (EmitEvent g []) w"
      have em: "emit cur g [] w = (?w, None)"
        using False Some g(2) t by (simp add: emit_def with_signal_def)
      have fin: "finite T" using w(1) by (simp add: store_ready_def)
      have "store_ready T ?w" using w(1) E g(3) et by (intro store_ready_push) auto
      moreover have "calls ?w = calls w" "running ?w = running w" by (simp_all add: push_event_def)
      ultimately show thesis
        using g em z et by (intro that [OF em]) (simp_all add: total_push [OF fin])
    qed
  qed
qed

text \<open>
  C11. A signal without arguments reaches every connected slot exactly once.  When no event is
  queued, the connected slots are alive and have functions, the queued ones belong to objects with
  an event loop, and the loops of these objects and of the signal's are running (\<open>signal_ready\<close>), then
  whichever thread emits and however the rounds of the loops interleave, there are at most one round
  more than queued slots until no event is left, and then each direct slot has been run once, by the
  thread of the signal, and each queued slot once, by the thread of its own object.  A round is taken
  when its loop has an event: that a loop may sleep through a notification is the matter of
  \<open>EventLoop\<close>.
\<close>

theorem delivered_exactly_once:
  assumes "signals w g = Some sg" "signal_ready T w g" "emitting_thread cur sg \<in> T" "finite T"
    and "\<forall>t. eventLists w t = []" "\<forall>t \<in> T. running w t"
  shows "\<exists>w1. emit cur g [] w = (w1, None) \<and>
    (\<exists>w2. loop_step\<^sup>*\<^sup>* w1 w2 \<and> (\<forall>t. eventLists w2 t = [])) \<and>
    (\<forall>n w2. (loop_step ^^ n) w1 w2 \<longrightarrow> n \<le> Suc (length (sg_queuedConnections sg)) \<and>
      ((\<forall>t. eventLists w2 t = []) \<longrightarrow>
        mset (calls w2) = mset (calls w) + signal_calls w (emitting_thread cur sg) g))"
proof -
  have r: "store_ready T w" using assms(4,5) by (simp add: store_ready_def)
  obtain w1 where w1: "emit cur g [] w = (w1, None)" "same_links w w1" "store_ready T w1"
    "running w1 = running w"
    "mset (calls w1) + total (event_calls w) T w1 = mset (calls w) + signal_calls w (emitting_thread cur sg) g"
    "total (event_work w) T w1 \<le> Suc (length (sg_queuedConnections sg))"
    using emit_pays [OF assms(2,1,3) r assms(5)] .
  note rd = same_links_readings [OF w1(2)]
  have "n \<le> Suc (length (sg_queuedConnections sg)) \<and> ((\<forall>t. eventLists w2 t = []) \<longrightarrow>
      mset (calls w2) = mset (calls w) + signal_calls w (emitting_thread cur sg) g)"
    if "(loop_step ^^ n) w1 w2" for n w2
    using loop_runs_pay [OF that w1(3)] w1(5,6) unfolding rd by (auto simp: total_empty)
  moreover have "\<exists>w2. loop_step\<^sup>*\<^sup>* w1 w2 \<and> (\<forall>t. eventLists w2 t = [])"
    by (rule loops_drain [OF w1(3)]) (simp add: w1(4) assms(6))
  ultimately show ?thesis using w1(1) by blast
qed

definition two_thread_objects :: "nat objects" where
  "two_thread_objects = start_thread 2 (start_thread 1
     (put_slot 8 (new_slot True (Some (br_threaded_object 2)))
     (put_slot 7 (new_slot True (Some (br_threaded_object 1)))
     (put_signal 3 \<lparr>sg_parent = Some (br_object (Some (br_threaded_object 1))),
        sg_directConnections = [7], sg_queuedConnections = [8]\<rparr> no_objects))))"

theorem delivered_exactly_once_witness:
  "\<exists>w1 w2. emit 0 3 [] two_thread_objects = (w1, None) \<and> loop_step\<^sup>*\<^sup>* w1 w2 \<and>
     mset (calls w2) = {#SlotCall 1 7 [], SlotCall 2 8 []#}"
proof -
  let ?sg = "\<lparr>sg_parent = Some (br_object (Some (br_threaded_object 1))),
        sg_directConnections = [7], sg_queuedConnections = [8]\<rparr>"
  have "signals two_thread_objects 3 = Some ?sg" "signal_ready {1, 2} two_thread_objects 3"
    "emitting_thread 0 ?sg \<in> {1, 2}" "finite {1::nat, 2}" "\<forall>t. eventLists two_thread_objects t = []"
    "\<forall>t \<in> {1, 2}. running two_thread_objects t"
    by (simp_all add: two_thread_objects_def signal_ready_def slot_ready_def slot_queueable_def
        slot_thread_def slot_getThreadId_def emitting_thread_def new_slot_def no_objects_def
        start_thread_def object_defs)
  from delivered_exactly_once [OF this] obtain w1 where w1: "emit 0 3 [] two_thread_objects = (w1, None)"
    "\<exists>w2. loop_step\<^sup>*\<^sup>* w1 w2 \<and> (\<forall>t. eventLists w2 t = [])"
    "\<forall>n w2. (loop_step ^^ n) w1 w2 \<longrightarrow> n \<le> Suc (length (sg_queuedConnections ?sg)) \<and>
      ((\<forall>t. eventLists w2 t = []) \<longrightarrow> mset (calls w2) =
        mset (calls two_thread_objects) + signal_calls two_thread_objects (emitting_thread 0 ?sg) 3)" by blast
  from w1(2) obtain w2 where w2: "loop_step\<^sup>*\<^sup>* w1 w2" "\<forall>t. eventLists w2 t = []" by blast
  then obtain n where "(loop_step ^^ n) w1 w2" by (metis rtranclp_imp_relpowp)
  with w1(3) w2(2) have "mset (calls w2) =
        mset (calls two_thread_objects) + signal_calls two_thread_objects (emitting_thread 0 ?sg) 3" by blast
  also have "\<dots> = {#SlotCall 1 7 [], SlotCall 2 8 []#}"
    by (simp add: two_thread_objects_def signal_calls_def
        slot_thread_def slot_getThreadId_def emitting_thread_def new_slot_def no_objects_def
        start_thread_def object_defs)
  finally show ?thesis using w1(1) w2(1) by blast
qed

subsection \<open>Where queued deliveries fail\<close>

text \<open>
  An argument never survives a queue: a signal emitted from another thread than its own,
  and a queued slot of a signal with arguments, make the event loop that is to deliver them
  reach undefined behaviour, because the event refers to parameters of a call that has
  returned.
\<close>

theorem queued_arguments_undefined:
  assumes "args \<noteq> []" "eventLists w t = []"
    and "signals w g = Some sg" "sg_parent sg = Some p" "getRootObject p = br_threaded_object t"
    and "slot_queueable w s" "slot_thread w s = t"
  shows "(cur \<noteq> t \<longrightarrow> (\<exists>w'. emit cur g args w = (w', None) \<and> calls w' = calls w \<and>
      snd (run_iteration t w') = Some Undefined)) \<and>
    (\<exists>w'. addEventToParent args s w = (w', None) \<and> snd (run_iteration t w') = Some Undefined)"
proof (intro conjI impI)
  assume "cur \<noteq> t"
  then have "emit cur g args w = (push_event t (EmitEvent g args) w, None)"
    using assms(3-5) by (simp add: emit_def with_signal_def getThreadId_root)
  then show "\<exists>w'. emit cur g args w = (w', None) \<and> calls w' = calls w \<and>
      snd (run_iteration t w') = Some Undefined"
    using assms(1-3) by (simp add: run_iteration_def with_signal_def push_event_def)
next
  have "\<exists>sl. slots w s = Some sl" using assms(6) by (simp add: slot_queueable_def split: option.splits)
  then show "\<exists>w'. addEventToParent args s w = (w', None) \<and> snd (run_iteration t w') = Some Undefined"
    using assms(1,2,7) addEventToParent_queueable(1) [OF assms(6)]
    by (auto simp: run_iteration_def with_slot_def push_event_def)
qed

theorem queued_arguments_undefined_witness:
  "\<exists>w'. emit 0 3 [5] two_thread_objects = (w', None) \<and> snd (run_iteration 1 w') = Some Undefined"
proof -
  let ?sg = "\<lparr>sg_parent = Some (br_object (Some (br_threaded_object 1))),
        sg_directConnections = [7], sg_queuedConnections = [8]\<rparr>"
  have "[5] \<noteq> []" "eventLists two_thread_objects 1 = []" "signals two_thread_objects 3 = Some ?sg"
    "sg_parent ?sg = Some (br_object (Some (br_threaded_object 1)))"
    "getRootObject (br_object (Some (br_threaded_object 1))) = br_threaded_object 1"
    "slot_queueable two_thread_objects 7" "slot_thread two_thread_objects 7 = 1"
    by (simp_all add: two_thread_objects_def slot_queueable_def slot_thread_def slot_getThreadId_def
        new_slot_def no_objects_def start_thread_def object_defs)
  from queued_arguments_undefined [OF this, of 0] show ?thesis by auto
qed

text \<open>
  A slot whose parent has no event loop, connected with the automatic type from another
  thread than the signal's, is connected for a queue that does not exist: every emission in
  the signal's thread throws \<^verbatim>\<open>std::runtime_error\<close> and the slot is never run.  Connected from the
  signal's own thread, the same slot is run directly.
\<close>

theorem loopless_slot_throws:
  assumes "signals w g = Some sg" "sg_parent sg = Some p" "getRootObject p = br_threaded_object t"
    and "sg_directConnections sg = []" "sg_queuedConnections sg = []"
    and "slots w s = Some sl" "sl_parent sl = Some q" "getRootObject q = br_object None" "sl_init sl"
    and "cur \<noteq> t"
  shows "(\<exists>w'. connect cur g s Auto w = (w', None) \<and> emit t g args w' = (w', Some RuntimeError)) \<and>
    (\<exists>w'. connect t g s Auto w = (w', None) \<and> emit t g args w' = (run_function t s args w', None))"
  using assms
  by (auto simp: connect_def connection_type_def signal_getThreadId_def slot_getThreadId_def emit_def
      callDirectConnections_def callQueuedConnections_def slot_call_def addEventToParent_def
      signalConnected_def getThreadId_root object_defs)

theorem loopless_slot_throws_witness:
  "\<exists>(w :: nat objects) w'. connect 0 3 7 Auto w = (w', None) \<and> emit 1 3 [5] w' = (w', Some RuntimeError)"
proof -
  let ?sg = "\<lparr>sg_parent = Some (br_threaded_object 1), sg_directConnections = [], sg_queuedConnections = []\<rparr>"
  let ?w = "put_slot 7 (new_slot True (Some (br_object None))) (put_signal 3 ?sg no_objects) :: nat objects"
  have "signals ?w 3 = Some ?sg" "sg_parent ?sg = Some (br_threaded_object 1)"
    "getRootObject (br_threaded_object 1) = br_threaded_object 1"
    "sg_directConnections ?sg = []" "sg_queuedConnections ?sg = []"
    "slots ?w 7 = Some (new_slot True (Some (br_object None)))"
    "sl_parent (new_slot True (Some (br_object None))) = Some (br_object None)"
    "getRootObject (br_object None) = br_object None" "sl_init (new_slot True (Some (br_object None)))"
    "(0::nat) \<noteq> 1"
    by (simp_all add: put_slot_def put_signal_def new_slot_def)
  from loopless_slot_throws [OF this, of "[5]"] show ?thesis by blast
qed

text \<open>
  The overload of \<^verbatim>\<open>addEvent\<close> with an error flag does what the throwing one does and
  reports an error in every case, also when the event has been queued.
\<close>

theorem addEvent_ec_always_error:
  "addEvent_ec p event ec w = (fst (addEvent p event w), True) \<and>
   (getRootObject p = br_threaded_object t \<longrightarrow> addEvent p event w = (push_event t event w, None))"
  by (induction p event ec w rule: addEvent_ec.induct) auto

theorem addEvent_ec_always_error_witness:
  "addEvent (br_object (Some (br_threaded_object 4))) (UserEvent 9) no_objects =
     (push_event 4 (UserEvent 9) no_objects :: nat objects, None)"
  using addEvent_ec_always_error [of "br_object (Some (br_threaded_object 4))" "UserEvent 9" False no_objects 4]
  by simp

lemma destroy_keeps_events:
  "eventLists (fst (destroy_slot s w)) = eventLists w"
  "eventLists (fst (destroy_signal g w)) = eventLists w"
proof -
  have P: "eventLists (fst (andThen r f)) = eventLists w"
    if "eventLists (fst r) = eventLists w" "\<And>u. eventLists u = eventLists w \<Longrightarrow> eventLists (fst (f u)) = eventLists w"
    for r :: "'a objects \<times> fault option" and f and w :: "'a objects"
    using that andThen_invariant [of "\<lambda>u. eventLists u = eventLists w" r f] by blast
  have E: "eventLists (fst (each f xs u)) = eventLists w"
    if "eventLists u = eventLists w" "\<And>x u. eventLists u = eventLists w \<Longrightarrow> eventLists (fst (f x u)) = eventLists w"
    for f :: "'x \<Rightarrow> 'a objects \<Rightarrow> 'a objects \<times> fault option" and xs u and w :: "'a objects"
    using that each_invariant [of "\<lambda>u. eventLists u = eventLists w" u xs f] by blast
  have e: "eventLists (fst (erase_direct g s u)) = eventLists u" "eventLists (fst (erase_queued g s u)) = eventLists u"
    "eventLists (fst (signalDisconnected g s u)) = eventLists u" for g s and u :: "'a objects"
    by (simp_all add: erase_direct_def erase_queued_def signalDisconnected_def object_defs split: option.split)
  have "eventLists (fst (removeSlotConnection s g u)) = eventLists u" for g and u :: "'a objects"
    unfolding removeSlotConnection_def by (rule P) (simp_all add: e)
  then have "eventLists (fst (removeThisFromConnectedSignals s w)) = eventLists w"
    unfolding removeThisFromConnectedSignals_def with_slot_def
    by (cases "slots w s") (auto intro!: E)
  then show "eventLists (fst (destroy_slot s w)) = eventLists w"
    unfolding destroy_slot_def by (rule P) simp
  have "eventLists (fst (disconnect g w)) = eventLists w"
    unfolding disconnect_def with_signal_def
    by (cases "signals w g") (auto intro!: P E simp: e)
  then show "eventLists (fst (destroy_signal g w)) = eventLists w"
    unfolding destroy_signal_def by (rule P) simp
qed

text \<open>
  C36. A queued event outlives the slot or the signal it names: destroying a slot that an event is
  queued for, or a signal whose emission is queued, succeeds, and the event loop then reaches the
  destroyed object.
\<close>

theorem queued_event_outlives:
  assumes "object_run no_objects w" "eventLists w t = []"
    and "slot_queueable w s" "slot_thread w s = t"
    and "signals w g = Some sg" "sg_parent sg = Some p" "getRootObject p = br_threaded_object t" "cur \<noteq> t"
  shows "(\<exists>w1 w2. addEventToParent [] s w = (w1, None) \<and> destroy_slot s w1 = (w2, None) \<and>
      snd (run_iteration t w2) = Some Undefined) \<and>
    (\<exists>w1 w2. emit cur g [] w = (w1, None) \<and> destroy_signal g w1 = (w2, None) \<and>
      snd (run_iteration t w2) = Some Undefined)"
proof
  have l: "linked w" by (rule linked_run [OF assms(1)])
  let ?w = "\<lambda>e. push_event t e w"
  have lw: "linked (?w e)" for e using l by (rule iffD2 [OF linked_cong, rotated 2]) (simp_all add: push_event_def)
  have a: "addEventToParent [] s w = (?w (SlotEvent s []), None)"
    using addEventToParent_queueable(1) [OF assms(3), of "[]"] assms(4) by simp
  obtain sl where "slots (?w (SlotEvent s [])) s = Some sl"
    using assms(3) by (auto simp: slot_queueable_def push_event_def split: option.splits)
  from linked_destroy_slot [OF lw this] obtain w2 where w2: "destroy_slot s (?w (SlotEvent s [])) = (w2, None)"
    "slots w2 s = None" by (metis fun_upd_same)
  moreover have "eventLists w2 t = [SlotEvent s []]"
    using destroy_keeps_events(1) [of s "?w (SlotEvent s [])"] w2(1) assms(2) by (simp add: push_event_def)
  ultimately show "\<exists>w1 w2. addEventToParent [] s w = (w1, None) \<and> destroy_slot s w1 = (w2, None) \<and>
      snd (run_iteration t w2) = Some Undefined"
    using a by (simp add: run_iteration_def with_slot_def)
  have b: "emit cur g [] w = (?w (EmitEvent g []), None)"
    using assms(5-8) by (simp add: emit_def with_signal_def getThreadId_root)
  have "signals (?w (EmitEvent g [])) g = Some sg" using assms(5) by (simp add: push_event_def)
  from linked_destroy_signal [OF lw this] obtain w3 where w3: "destroy_signal g (?w (EmitEvent g [])) = (w3, None)"
    "signals w3 g = None" by (metis fun_upd_same)
  moreover have "eventLists w3 t = [EmitEvent g []]"
    using destroy_keeps_events(2) [of g "?w (EmitEvent g [])"] w3(1) assms(2) by (simp add: push_event_def)
  ultimately show "\<exists>w1 w2. emit cur g [] w = (w1, None) \<and> destroy_signal g w1 = (w2, None) \<and>
      snd (run_iteration t w2) = Some Undefined"
    using b by (simp add: run_iteration_def with_signal_def)
qed

theorem queued_event_outlives_witness:
  "\<exists>(w :: nat objects) w1 w2. object_run no_objects w \<and> addEventToParent [] 7 w = (w1, None) \<and>
     destroy_slot 7 w1 = (w2, None) \<and> snd (run_iteration 1 w2) = Some Undefined"
proof -
  let ?sg = "\<lparr>sg_parent = Some (br_threaded_object 1), sg_directConnections = [], sg_queuedConnections = []\<rparr>"
  let ?v = "put_signal 3 ?sg no_objects :: nat objects"
  let ?w = "put_slot 7 (new_slot True (Some (br_threaded_object 1))) ?v"
  have "object_step no_objects ?v" by (rule create_signal) (simp add: no_objects_def)
  moreover have "object_step ?v ?w" by (rule create_slot) (simp add: put_signal_def no_objects_def)
  ultimately have r: "object_run no_objects ?w"
    by (rule converse_rtranclp_into_rtranclp [OF _ r_into_rtranclp])
  have "eventLists ?w 1 = []" "slot_queueable ?w 7" "slot_thread ?w 7 = 1" "signals ?w 3 = Some ?sg"
    "sg_parent ?sg = Some (br_threaded_object 1)" "getRootObject (br_threaded_object 1) = br_threaded_object 1"
    "(0 :: nat) \<noteq> 1"
    by (simp_all add: slot_queueable_def slot_thread_def slot_getThreadId_def new_slot_def no_objects_def object_defs)
  from queued_event_outlives [OF r this] r show ?thesis by blast
qed

end
