(* ===== verification/PosixCalls.thy ===== *)
theory PosixCalls
  imports Prelude
begin

unbundle bit_operations_syntax

text \<open>
  The system calls and library functions that \<^verbatim>\<open>TcpSocket\<close> and \<^verbatim>\<open>TcpServer\<close> make.  They are not
  part of the repository: a record of functions over a state \<open>'w\<close> of the operating system,
  each returning its result and the state behind it.  A received message is the bytes
  written into the buffer, \<open>None\<close> is the return value -1.  \<open>script_posix\<close> is an instance that
  plays back a list of results.
\<close>

record sockaddr_in =
  sin_family :: int
  sin_port :: "16 word"
  sin_addr :: "32 word"

record pollfd =
  pf_fd :: int
  pf_events :: "16 word"
  pf_revents :: "16 word"

record 'w posix =
  sys_socket :: "'w \<Rightarrow> int \<times> 'w"
  sys_setsockopt :: "int \<Rightarrow> 'w \<Rightarrow> int \<times> 'w"
  sys_fcntl_getfl :: "int \<Rightarrow> 'w \<Rightarrow> int \<times> 'w"
  sys_fcntl_setfl_nonblock :: "int \<Rightarrow> int \<Rightarrow> 'w \<Rightarrow> int \<times> 'w"
  sys_bind :: "int \<Rightarrow> sockaddr_in \<Rightarrow> 'w \<Rightarrow> int \<times> 'w"
  sys_listen :: "int \<Rightarrow> int \<Rightarrow> 'w \<Rightarrow> int \<times> 'w"
  sys_accept :: "int \<Rightarrow> 'w \<Rightarrow> int \<times> 'w"
  sys_connect :: "int \<Rightarrow> sockaddr_in \<Rightarrow> 'w \<Rightarrow> int \<times> 'w"
  sys_close :: "int \<Rightarrow> 'w \<Rightarrow> int \<times> 'w"
  sys_shutdown :: "int \<Rightarrow> 'w \<Rightarrow> int \<times> 'w"
  sys_recv :: "int \<Rightarrow> nat \<Rightarrow> 'w \<Rightarrow> string option \<times> 'w"
  sys_send :: "int \<Rightarrow> string \<Rightarrow> 'w \<Rightarrow> int \<times> 'w"
  sys_getpeername :: "int \<Rightarrow> 'w \<Rightarrow> sockaddr_in option \<times> 'w"
  sys_poll :: "pollfd list \<Rightarrow> 'w \<Rightarrow> (int \<times> (nat \<Rightarrow> 16 word)) \<times> 'w"
  sys_errno :: "'w \<Rightarrow> int"
  sys_now :: "'w \<Rightarrow> int"
  sys_inet_pton :: "string \<Rightarrow> 32 word option"
  sys_inet_ntoa :: "32 word \<Rightarrow> string"
  sys_strerror :: "int \<Rightarrow> string"

text \<open>Constants of the platform headers.\<close>

definition AF_INET :: int where "AF_INET = 2"
definition INADDR_ANY :: "32 word" where "INADDR_ANY = 0"
definition EAGAIN :: int where "EAGAIN = 11"
definition EWOULDBLOCK :: int where "EWOULDBLOCK = 11"
definition POLLIN :: "16 word" where "POLLIN = 1"
definition POLLHUP :: "16 word" where "POLLHUP = 16"
definition POLLNVAL :: "16 word" where "POLLNVAL = 32"

text \<open>\<^verbatim>\<open>htons\<close> on a little-endian machine swaps the two bytes.\<close>

definition htons :: "16 word \<Rightarrow> 16 word" where
  "htons p = push_bit 8 p OR drop_bit 8 p"

lemma htons_htons [simp]: "htons (htons p) = p"
  by (rule bit_word_eqI) (auto simp: htons_def bit_simps)

definition ntohs :: "16 word \<Rightarrow> 16 word" where
  "ntohs p = htons p"

text \<open>\<^verbatim>\<open>int res = ::send(...)\<close> narrows an \<^verbatim>\<open>ssize_t\<close>.\<close>

definition int_of_ssize :: "int \<Rightarrow> int" where
  "int_of_ssize r = sint (word_of_int r :: 32 word)"

lemma int_of_ssize_small [simp]: "- 2147483648 \<le> r \<Longrightarrow> r < 2147483648 \<Longrightarrow> int_of_ssize r = r"
  by (simp add: int_of_ssize_def signed_of_int signed_take_bit_int_eq_self)

subsection \<open>A scripted operating system\<close>

record script =
  sc_results :: "int list"            \<comment> \<open>what the next calls return\<close>
  sc_received :: "string option list" \<comment> \<open>what the next \<^verbatim>\<open>recv\<close> calls return\<close>
  sc_errno :: int
  sc_now :: int
  sc_closed :: "int list"             \<comment> \<open>the descriptors closed so far\<close>
  sc_sent :: string

definition next_result :: "script \<Rightarrow> int \<times> script" where
  "next_result w = (case sc_results w of [] \<Rightarrow> (- 1, w) | r # rs \<Rightarrow> (r, w\<lparr>sc_results := rs\<rparr>))"

definition next_received :: "script \<Rightarrow> string option \<times> script" where
  "next_received w = (case sc_received w of [] \<Rightarrow> (None, w) | r # rs \<Rightarrow> (r, w\<lparr>sc_received := rs\<rparr>))"

definition script_posix :: "script posix" where
  "script_posix = \<lparr>sys_socket = next_result, sys_setsockopt = (\<lambda>_. next_result),
     sys_fcntl_getfl = (\<lambda>_. next_result), sys_fcntl_setfl_nonblock = (\<lambda>_ _. next_result),
     sys_bind = (\<lambda>_ _. next_result), sys_listen = (\<lambda>_ _. next_result),
     sys_accept = (\<lambda>_. next_result), sys_connect = (\<lambda>_ _. next_result),
     sys_close = (\<lambda>fd w. (0, w\<lparr>sc_closed := sc_closed w @ [fd]\<rparr>)), sys_shutdown = (\<lambda>_ w. (0, w)),
     sys_recv = (\<lambda>_ _. next_received),
     sys_send = (\<lambda>_ d w. (int (length d), w\<lparr>sc_sent := sc_sent w @ d\<rparr>)),
     sys_getpeername = (\<lambda>_ w. (None, w)), sys_poll = (\<lambda>_ w. ((0, \<lambda>_. 0), w)),
     sys_errno = sc_errno, sys_now = sc_now,
     sys_inet_pton = (\<lambda>a. if a = ''127.0.0.1'' then Some 0x0100007F else None),
     sys_inet_ntoa = (\<lambda>_. []), sys_strerror = (\<lambda>_. ''error'')\<rparr>"

definition script_start :: script where
  "script_start = \<lparr>sc_results = [], sc_received = [], sc_errno = EAGAIN, sc_now = 0,
     sc_closed = [], sc_sent = []\<rparr>"

end
