(* ===== verification/TcpSocket.thy ===== *)
theory TcpSocket
  imports PosixCalls Signals
begin

text \<open>
  \<^verbatim>\<open>include/brutils/TcpSocket/TcpSocket.h\<close> and \<^verbatim>\<open>src/brutils/TcpSocket/TcpSocket.cpp\<close>: a TCP
  connection with a read buffer.  System calls are the record \<open>posix\<close>; an operation takes
  the state of the operating system and returns the one behind it.  Signals are a log of
  what was emitted.  \<open>cur\<close> is the thread that executes the operation.  The recursive mutex
  makes every operation atomic.

  \<^verbatim>\<open>_lastError\<close> is not initialised by the constructors: \<open>None\<close> until the first error.
  \<^verbatim>\<open>vector::max_size()\<close> is that of libstdc++; \<^verbatim>\<open>std::bad_alloc\<close> is not modelled.
\<close>

datatype ConnectionStatus = NOT_CONNECTED | CONNECTED

datatype TcpError_e =
    TCP_ERROR_NO_ERROR
  | TCP_ERROR_SYS_ERROR
  | TCP_ERROR_NOT_ALLOWED_IN_CURRENT_STATE
  | TCP_ERROR_NOT_ALLOWED_WHILE_BUFFER_IS_NOT_EMPTY
  | TCP_ERROR_BAD_SOCKET_DESCRIPTOR

record tcp_error =
  te_errorCode :: TcpError_e
  te_errorStr :: string

datatype socket_signal =
    sig_connected
  | sig_disconnected
  | sig_dataReady
  | sig_errorOccurred tcp_error
  | sig_destroyed

record tcp_socket =
  ts_parent :: "br_object option"
  ts_connectionStatus :: ConnectionStatus
  ts_lastError :: "tcp_error option"
  ts_readBufferSize :: "64 word"
  ts_dataBuffer :: string
  ts_socketD :: int
  ts_emitted :: "socket_signal list"

definition emit_signal :: "socket_signal \<Rightarrow> tcp_socket \<Rightarrow> tcp_socket" where
  "emit_signal g s = s\<lparr>ts_emitted := ts_emitted s @ [g]\<rparr>"

definition set_error :: "TcpError_e \<Rightarrow> string \<Rightarrow> tcp_socket \<Rightarrow> tcp_socket" where
  "set_error code str s =
     (let e = \<lparr>te_errorCode = code, te_errorStr = str\<rparr> in
      emit_signal (sig_errorOccurred e) (s\<lparr>ts_lastError := Some e\<rparr>))"

definition sys_error :: "'w posix \<Rightarrow> 'w \<Rightarrow> tcp_socket \<Rightarrow> tcp_socket" where
  "sys_error P w s =
     (let errNo = sys_errno P w in
      set_error TCP_ERROR_SYS_ERROR (show_int errNo @ '' - '' @ sys_strerror P errNo) s)"

subsection \<open>Construction and simple accessors\<close>

definition DEFAULT_READ_BUFFER_SIZE :: "64 word" where
  "DEFAULT_READ_BUFFER_SIZE = 1024 * 1024"

definition INCOMING_DATA_SIZE :: nat where
  "INCOMING_DATA_SIZE = 1024"

definition vector_max_size :: "64 word" where
  "vector_max_size = 9223372036854775807"

definition connectionStatus :: "tcp_socket \<Rightarrow> ConnectionStatus" where
  "connectionStatus s = ts_connectionStatus s"

definition last_error :: "tcp_socket \<Rightarrow> tcp_error res" where
  "last_error s = (case ts_lastError s of None \<Rightarrow> Inl Undefined | Some e \<Rightarrow> Inr e)"

definition readBufferSize :: "tcp_socket \<Rightarrow> 64 word" where
  "readBufferSize s = ts_readBufferSize s"

definition socketDescriptor :: "tcp_socket \<Rightarrow> int" where
  "socketDescriptor s = ts_socketD s"

definition setReadBufferSize :: "64 word \<Rightarrow> tcp_socket \<Rightarrow> bool \<times> tcp_socket" where
  "setReadBufferSize n s =
     (if ts_dataBuffer s \<noteq> [] then
        (False, set_error TCP_ERROR_NOT_ALLOWED_WHILE_BUFFER_IS_NOT_EMPTY
           ''Cannot modify read buffer size while buffer is not empty'' s)
      else (True, s\<lparr>ts_readBufferSize := min vector_max_size n\<rparr>))"

definition new_socket :: "int \<Rightarrow> ConnectionStatus \<Rightarrow> 64 word \<Rightarrow> br_object option \<Rightarrow> tcp_socket" where
  "new_socket sd status n parent =
     snd (setReadBufferSize n
       \<lparr>ts_parent = parent, ts_connectionStatus = status, ts_lastError = None,
        ts_readBufferSize = n, ts_dataBuffer = [], ts_socketD = sd, ts_emitted = []\<rparr>)"

definition new_unconnected :: "br_object option \<Rightarrow> tcp_socket" where
  "new_unconnected parent = new_socket (- 1) NOT_CONNECTED DEFAULT_READ_BUFFER_SIZE parent"

definition new_unconnected_size :: "64 word \<Rightarrow> br_object option \<Rightarrow> tcp_socket" where
  "new_unconnected_size n parent = new_socket (- 1) NOT_CONNECTED n parent"

definition new_default_size :: "int \<Rightarrow> ConnectionStatus \<Rightarrow> br_object option \<Rightarrow> tcp_socket" where
  "new_default_size sd status parent = new_socket sd status DEFAULT_READ_BUFFER_SIZE parent"

definition setSocketDescriptor :: "int \<Rightarrow> tcp_socket \<Rightarrow> bool \<times> tcp_socket" where
  "setSocketDescriptor sd s =
     (if connectionStatus s = NOT_CONNECTED then (True, s\<lparr>ts_socketD := sd\<rparr>)
      else (False, set_error TCP_ERROR_NOT_ALLOWED_IN_CURRENT_STATE
        ''Peer address is not available in not connected state'' s))"

type_synonym ('a, 'w) sock_op = "tcp_socket \<Rightarrow> 'w \<Rightarrow> 'a \<times> tcp_socket \<times> 'w"

definition peerAddress :: "'w posix \<Rightarrow> (string, 'w) sock_op" where
  "peerAddress P s w =
     (if connectionStatus s = CONNECTED then
        (case sys_getpeername P (ts_socketD s) w of
           (None, w) \<Rightarrow> ([], sys_error P w s, w)
         | (Some peer, w) \<Rightarrow> (sys_inet_ntoa P (sin_addr peer), s, w))
      else ([], set_error TCP_ERROR_NOT_ALLOWED_IN_CURRENT_STATE
        ''Peer address is not available in not connected state'' s, w))"

definition peerPort :: "'w posix \<Rightarrow> (16 word, 'w) sock_op" where
  "peerPort P s w =
     (if connectionStatus s = CONNECTED then
        (case sys_getpeername P (ts_socketD s) w of
           (None, w) \<Rightarrow> (0, sys_error P w s, w)
         | (Some peer, w) \<Rightarrow> (ntohs (sin_port peer), s, w))
      else (0, set_error TCP_ERROR_NOT_ALLOWED_IN_CURRENT_STATE
        ''Peer port is not available in not connected state'' s, w))"

subsection \<open>Connecting and disconnecting\<close>

text \<open>
  \<^verbatim>\<open>sockaddr_in addr{}\<close> is all zero; \<^verbatim>\<open>inet_pton\<close> leaves the address alone when it fails, and its
  result is not tested.
\<close>

definition connect_address :: "'w posix \<Rightarrow> string \<Rightarrow> 16 word \<Rightarrow> sockaddr_in" where
  "connect_address P address port =
     \<lparr>sin_family = 0, sin_port = port,
      sin_addr = (case sys_inet_pton P address of None \<Rightarrow> 0 | Some a \<Rightarrow> a)\<rparr>"

definition socket_connect :: "'w posix \<Rightarrow> string \<Rightarrow> 16 word \<Rightarrow> (bool, 'w) sock_op" where
  "socket_connect P address port s w =
     (if connectionStatus s \<noteq> NOT_CONNECTED then
        (False, set_error TCP_ERROR_NOT_ALLOWED_IN_CURRENT_STATE
           ''Cannot connect while already connected'' s, w)
      else if 0 < ts_socketD s then
        (False, set_error TCP_ERROR_BAD_SOCKET_DESCRIPTOR
           ''Cannot connected while socked descriptor is valid before connect operation'' s, w)
      else
        let (sd, w) = sys_socket P w;
            s = s\<lparr>ts_socketD := sd\<rparr>
        in if sd = - 1 then (False, sys_error P w s, w)
           else
             let (res, w) = sys_connect P sd (connect_address P address port) w
             in if res \<noteq> 0 then (False, sys_error P w s, w)
                else (True, emit_signal sig_connected (s\<lparr>ts_connectionStatus := CONNECTED\<rparr>), w))"

definition socket_getThreadId :: "thread_id \<Rightarrow> tcp_socket \<Rightarrow> thread_id" where
  "socket_getThreadId cur s = getThreadId cur (br_object (ts_parent s))"

definition socket_disconnect :: "'w posix \<Rightarrow> thread_id \<Rightarrow> (bool, 'w) sock_op" where
  "socket_disconnect P cur s w =
     (if connectionStatus s \<noteq> CONNECTED then
        (False, set_error TCP_ERROR_NOT_ALLOWED_IN_CURRENT_STATE
           ''Cannot disconnect while already disconnected'' s, w)
      else if socket_getThreadId cur s = cur then
        let (res, w) = sys_close P (ts_socketD s) w
        in if res \<noteq> 0 then (False, sys_error P w s, w)
           else (True, s\<lparr>ts_connectionStatus := NOT_CONNECTED\<rparr>, w)
      else
        let (res, w) = sys_shutdown P (ts_socketD s) w
        in if res \<noteq> 0 then (False, sys_error P w s, w) else (True, s, w))"

definition destroy_socket :: "'w posix \<Rightarrow> thread_id \<Rightarrow> tcp_socket \<Rightarrow> 'w \<Rightarrow> tcp_socket \<times> 'w" where
  "destroy_socket P cur s w =
     (let (s, w) = (if connectionStatus s = CONNECTED then snd (socket_disconnect P cur s w) else (s, w))
      in (emit_signal sig_destroyed s, w))"

subsection \<open>Reading and writing\<close>

definition socket_read :: "tcp_socket \<Rightarrow> string \<times> tcp_socket" where
  "socket_read s = (ts_dataBuffer s, s\<lparr>ts_dataBuffer := []\<rparr>)"

text \<open>The loop of \<^verbatim>\<open>readFromSocket\<close>: it goes on as long as the buffer on the stack is filled.\<close>

partial_function (option) read_loop ::
  "'w posix \<Rightarrow> thread_id \<Rightarrow> nat \<Rightarrow> tcp_socket \<Rightarrow> 'w \<Rightarrow> (nat \<times> tcp_socket \<times> 'w) option" where
  "read_loop P cur totalReceivedSize s w =
     (case sys_recv P (ts_socketD s) INCOMING_DATA_SIZE w of
        (None, w) \<Rightarrow>
          if sys_errno P w = EAGAIN \<or> sys_errno P w = EWOULDBLOCK then Some (totalReceivedSize, s, w)
          else Some (totalReceivedSize, sys_error P w s, w)
      | (Some incomingData, w) \<Rightarrow>
          if incomingData = [] then
            (case socket_disconnect P cur s w of
               (b, s, w) \<Rightarrow> Some (totalReceivedSize, emit_signal sig_disconnected s, w))
          else if length incomingData = INCOMING_DATA_SIZE then
            read_loop P cur (totalReceivedSize + length incomingData)
              (s\<lparr>ts_dataBuffer := ts_dataBuffer s @ incomingData\<rparr>) w
          else Some (totalReceivedSize + length incomingData,
              s\<lparr>ts_dataBuffer := ts_dataBuffer s @ incomingData\<rparr>, w))"

definition readFromSocket :: "'w posix \<Rightarrow> thread_id \<Rightarrow> tcp_socket \<Rightarrow> 'w \<Rightarrow> (bool \<times> tcp_socket \<times> 'w) option" where
  "readFromSocket P cur s w =
     (if connectionStatus s \<noteq> CONNECTED then
        Some (False, set_error TCP_ERROR_NOT_ALLOWED_IN_CURRENT_STATE
           ''Cannot read from socket while not connected'' s, w)
      else
        (case read_loop P cur 0 s w of
           None \<Rightarrow> None
         | Some (totalReceivedSize, s, w) \<Rightarrow>
             Some (True, if 0 < totalReceivedSize then emit_signal sig_dataReady s else s, w)))"

definition socket_write :: "'w posix \<Rightarrow> string \<Rightarrow> (bool, 'w) sock_op" where
  "socket_write P input s w =
     (if connectionStatus s \<noteq> CONNECTED then
        (False, set_error TCP_ERROR_NOT_ALLOWED_IN_CURRENT_STATE
           ''Cannot write while not connected'' s, w)
      else
        let (r, w) = sys_send P (ts_socketD s) input w
        in if int_of_ssize r \<noteq> 0 then (False, sys_error P w s, w) else (True, s, w))"

end
