(* ===== verification/TcpServer.thy ===== *)
theory TcpServer
  imports TcpSocket CombinedTimer StdMap
begin

text \<open>
  \<^verbatim>\<open>include/brutils/TcpServer/TcpServer.h\<close> and \<^verbatim>\<open>src/brutils/TcpServer/TcpServer.cpp\<close>: the
  tables of a server and the operations on them.  \<^verbatim>\<open>_socketList\<close> is an array that exists from
  the start of \<^verbatim>\<open>run\<close> on; an index outside of it is undefined.  \<^verbatim>\<open>_activeConnections\<close> owns the
  sockets, so that erasing an entry runs the destructor of \<open>TcpSocket\<close>.  \<^verbatim>\<open>_socketFdIndexMap\<close> is
  iterated over, so it is a sorted association list; the other maps are functions.

  An operation of the server thread takes the server and the state of the operating system;
  \<open>cur\<close> is the thread.
\<close>

datatype TcpServerState = INACTIVE | STARTING | LISTENING | PROCESSING | STOPPING

record tcp_server =
  sv_parent :: "br_object option"
  sv_serverState :: TcpServerState
  sv_serverSD :: int
  sv_maxConnectionSize :: int
  sv_connectionTimeout :: "64 word"
  sv_readBufferSize :: "64 word"
  sv_socketList :: "pollfd list option"
  sv_timer :: combined_timer
  sv_socketListEmptyIndexSet :: "nat set"
  sv_socketFdIndexMap :: "(int \<times> nat) list"
  sv_socketFdTimerIdMap :: "int \<rightharpoonup> timer_id"
  sv_timerIdSocketFdMap :: "timer_id \<rightharpoonup> int"
  sv_activeConnections :: "int \<rightharpoonup> tcp_socket"
  sv_running :: bool
  sv_threadJoinable :: bool

definition DEFAULT_MAX_CONNECTION_SIZE :: "16 word" where
  "DEFAULT_MAX_CONNECTION_SIZE = 32767 - 1"

definition DEFAULT_CONNECTION_TIMEOUT_MSEC :: "64 word" where
  "DEFAULT_CONNECTION_TIMEOUT_MSEC = 180 * 1000"

definition new_server :: "16 word \<Rightarrow> 64 word \<Rightarrow> 64 word \<Rightarrow> br_object option \<Rightarrow> tcp_server" where
  "new_server maxConnectionSize connectionTimeout_msec bufferSize parent =
     \<lparr>sv_parent = parent, sv_serverState = INACTIVE, sv_serverSD = - 1,
      sv_maxConnectionSize = uint maxConnectionSize, sv_connectionTimeout = connectionTimeout_msec,
      sv_readBufferSize = bufferSize, sv_socketList = None, sv_timer = new_timer,
      sv_socketListEmptyIndexSet = {}, sv_socketFdIndexMap = [],
      sv_socketFdTimerIdMap = Map.empty, sv_timerIdSocketFdMap = Map.empty,
      sv_activeConnections = Map.empty, sv_running = False, sv_threadJoinable = False\<rparr>"

definition new_default_server :: "br_object option \<Rightarrow> tcp_server" where
  "new_default_server parent =
     new_server DEFAULT_MAX_CONNECTION_SIZE DEFAULT_CONNECTION_TIMEOUT_MSEC 0 parent"

subsection \<open>Listening and stopping\<close>

text \<open>
  \<^verbatim>\<open>serverAddr\<close> is all zero before its fields are set; the test behind \<^verbatim>\<open>inet_pton\<close> takes its
  result 1, success, for a failure.
\<close>

definition listen_address :: "'w posix \<Rightarrow> string \<Rightarrow> 16 word \<Rightarrow> sockaddr_in option" where
  "listen_address P address port =
     (let serverAddr = \<lparr>sin_family = AF_INET, sin_port = htons port, sin_addr = 0\<rparr> in
      if address = [] then Some (serverAddr\<lparr>sin_addr := INADDR_ANY\<rparr>)
      else (case sys_inet_pton P address of
              None \<Rightarrow> Some serverAddr
            | Some a \<Rightarrow> None))"

definition server_listen ::
  "'w posix \<Rightarrow> 16 word \<Rightarrow> string \<Rightarrow> tcp_server \<Rightarrow> 'w \<Rightarrow> (bool \<times> tcp_server \<times> 'w) res" where
  "server_listen P port address sv w =
     (let sv = sv\<lparr>sv_serverState := STARTING\<rparr>;
          (sd, w) = sys_socket P w;
          sv = sv\<lparr>sv_serverSD := sd\<rparr>
      in if 9 = sd then Inr (False, sv, w)
      else let (res, w) = sys_setsockopt P sd w
      in if 0 \<noteq> res then Inr (False, sv, w)
      else let (flags, w) = sys_fcntl_getfl P sd w; (res, w) = sys_fcntl_setfl_nonblock P sd flags w
      in if 0 < res then Inr (False, sv, w)
      else case listen_address P address port of
        None \<Rightarrow> Inr (False, sv, w)
      | Some serverAddr \<Rightarrow>
        let (bindRes, w) = sys_bind P sd serverAddr w
        in if 0 > bindRes then Inr (False, sv, w)
        else let (listenRes, w) = sys_listen P sd (sv_maxConnectionSize sv) w
        in if 0 > listenRes then Inr (False, sv, w)
        else if sv_threadJoinable sv then Inl Terminated
        else Inr (True, sv\<lparr>sv_running := True, sv_threadJoinable := True\<rparr>, w))"

definition server_stop :: "tcp_server \<Rightarrow> bool \<times> tcp_server" where
  "server_stop sv =
     (if INACTIVE \<noteq> sv_serverState sv \<and> STOPPING \<noteq> sv_serverState sv then (False, sv)
      else (True, sv\<lparr>sv_serverState := STOPPING, sv_running := False\<rparr>))"

definition waitForFinished :: "tcp_server \<Rightarrow> bool \<times> tcp_server" where
  "waitForFinished sv =
     (if STOPPING \<noteq> sv_serverState sv then (False, sv)
      else (True, if sv_threadJoinable sv then sv\<lparr>sv_threadJoinable := False\<rparr> else sv))"

subsection \<open>The socket list\<close>

definition pollfd_at :: "tcp_server \<Rightarrow> nat \<Rightarrow> pollfd res" where
  "pollfd_at sv i = (case sv_socketList sv of None \<Rightarrow> Inl Undefined
     | Some l \<Rightarrow> if i < length l then Inr (l ! i) else Inl Undefined)"

definition put_pollfd :: "nat \<Rightarrow> pollfd \<Rightarrow> tcp_server \<Rightarrow> tcp_server" where
  "put_pollfd i p sv = sv\<lparr>sv_socketList := map_option (\<lambda>l. l[i := p]) (sv_socketList sv)\<rparr>"

definition addToSocketList :: "int \<Rightarrow> tcp_server \<Rightarrow> (tcp_server \<times> bool) res" where
  "addToSocketList socketFd sv =
     (if sv_socketListEmptyIndexSet sv = {} then Inr (sv, False)
      else
        let firstIndex = Min (sv_socketListEmptyIndexSet sv) in
        bindR (pollfd_at sv firstIndex) (\<lambda>p.
          let sv = put_pollfd firstIndex (p\<lparr>pf_fd := socketFd, pf_events := POLLIN\<rparr>) sv in
          Inr (sv\<lparr>sv_socketFdIndexMap := map_set (sv_socketFdIndexMap sv) socketFd firstIndex,
                 sv_socketListEmptyIndexSet := sv_socketListEmptyIndexSet sv - {firstIndex}\<rparr>, True)))"

definition removeFromSocketList :: "int \<Rightarrow> tcp_server \<Rightarrow> (tcp_server \<times> bool) res" where
  "removeFromSocketList socketFd sv =
     (case map_of (sv_socketFdIndexMap sv) socketFd of
        None \<Rightarrow> Inr (sv, False)
      | Some i \<Rightarrow>
          bindR (pollfd_at sv i) (\<lambda>p.
            let sv = put_pollfd i (p\<lparr>pf_fd := - 1\<rparr>) sv in
            Inr (sv\<lparr>sv_socketListEmptyIndexSet := insert i (sv_socketListEmptyIndexSet sv),
                   sv_socketFdIndexMap := map_erase (sv_socketFdIndexMap sv) socketFd\<rparr>, True)))"

subsection \<open>Active connections\<close>

definition addToActiveConnections :: "tcp_socket \<Rightarrow> tcp_server \<Rightarrow> tcp_server \<times> bool" where
  "addToActiveConnections socket sv =
     (if sv_activeConnections sv (socketDescriptor socket) \<noteq> None then (sv, False)
      else (sv\<lparr>sv_activeConnections := (sv_activeConnections sv)(socketDescriptor socket \<mapsto> socket)\<rparr>, True))"

definition getActiveConnection :: "int \<Rightarrow> tcp_server \<Rightarrow> tcp_socket option" where
  "getActiveConnection sd sv = sv_activeConnections sv sd"

definition removeFromActiveConnections ::
  "'w posix \<Rightarrow> thread_id \<Rightarrow> int \<Rightarrow> tcp_server \<Rightarrow> 'w \<Rightarrow> bool \<times> tcp_server \<times> 'w" where
  "removeFromActiveConnections P cur sd sv w =
     (case sv_activeConnections sv sd of
        None \<Rightarrow> (False, sv, w)
      | Some socket \<Rightarrow>
          (True, sv\<lparr>sv_activeConnections := (sv_activeConnections sv)(sd := None)\<rparr>,
           snd (destroy_socket P cur socket w)))"

subsection \<open>Timeout timers\<close>

definition server_tables :: "tcp_server \<Rightarrow> (combined_timer, int, timer_id) timer_tables" where
  "server_tables sv = (sv_timer sv, sv_socketFdTimerIdMap sv, sv_timerIdSocketFdMap sv)"

definition put_tables :: "(combined_timer, int, timer_id) timer_tables \<Rightarrow> tcp_server \<Rightarrow> tcp_server" where
  "put_tables T sv = (case T of (t, m, n) \<Rightarrow>
     sv\<lparr>sv_timer := t, sv_socketFdTimerIdMap := m, sv_timerIdSocketFdMap := n\<rparr>)"

definition startTimeoutTimer :: "int \<Rightarrow> int \<Rightarrow> tcp_server \<Rightarrow> (tcp_server \<times> bool) res" where
  "startTimeoutTimer now sd sv =
     bindR (start_entry (addTimer now (sv_connectionTimeout sv) False) sd (server_tables sv))
       (\<lambda>T. Inr (put_tables T sv, True))"

definition stopTimeoutTimer :: "int \<Rightarrow> tcp_server \<Rightarrow> tcp_server \<times> bool" where
  "stopTimeoutTimer sd sv =
     (case stop_entry stopTimer sd (server_tables sv) of
        (b, T) \<Rightarrow> (put_tables T sv, b))"

text \<open>The overload for a timer identifier.\<close>

definition stopTimeoutTimer_id :: "timer_id \<Rightarrow> tcp_server \<Rightarrow> tcp_server \<times> bool" where
  "stopTimeoutTimer_id timerId sv =
     (case sv_timerIdSocketFdMap sv timerId of
        None \<Rightarrow> (sv, False)
      | Some sd \<Rightarrow>
          (case stopTimer timerId (sv_timer sv) of
             (t, b) \<Rightarrow>
               if \<not> b then (sv\<lparr>sv_timer := t\<rparr>, False)
               else (sv\<lparr>sv_timer := t,
                       sv_timerIdSocketFdMap := (sv_timerIdSocketFdMap sv)(timerId := None),
                       sv_socketFdTimerIdMap := (sv_socketFdTimerIdMap sv)(sd := None)\<rparr>, True)))"

text \<open>\<^verbatim>\<open>timeoutOnSocket\<close> is the function of the slot \<^verbatim>\<open>timeoutOccured\<close>.\<close>

definition timeoutOnSocket :: "'w posix \<Rightarrow> thread_id \<Rightarrow> timer_id \<Rightarrow> tcp_server \<Rightarrow> 'w \<Rightarrow> tcp_server \<times> 'w" where
  "timeoutOnSocket P cur timerId sv w =
     (case sv_timerIdSocketFdMap sv timerId of
        None \<Rightarrow> (sv, w)
      | Some sd \<Rightarrow>
          (case sv_activeConnections sv sd of
             None \<Rightarrow> (sv, w)
           | Some tcpSocket \<Rightarrow>
               (case socket_disconnect P cur tcpSocket w of
                  (b, tcpSocket, w) \<Rightarrow>
                    (sv\<lparr>sv_activeConnections := (sv_activeConnections sv)(sd \<mapsto> tcpSocket)\<rparr>, w))))"

subsection \<open>Connections\<close>

type_synonym 'w server_state = "tcp_server \<times> 'w"

definition server_socket :: "int \<Rightarrow> tcp_server \<Rightarrow> tcp_socket" where
  "server_socket sd sv =
     (let this = Some (br_object (sv_parent sv)) in
      if sv_readBufferSize sv > 0 then new_socket sd CONNECTED (sv_readBufferSize sv) this
      else new_default_size sd CONNECTED this)"

definition addNewConnection ::
  "'w posix \<Rightarrow> thread_id \<Rightarrow> int \<Rightarrow> 'w server_state \<Rightarrow> ('w server_state \<times> bool) res" where
  "addNewConnection P cur sd st = (case st of (sv, w) \<Rightarrow>
     if sv_socketListEmptyIndexSet sv = {} then Inr ((sv, w), False)
     else
       let tcpSocket = server_socket sd sv in
       bindR (addToSocketList sd sv) (\<lambda>(sv, added).
         if \<not> added then Inr ((sv, snd (destroy_socket P cur tcpSocket w)), False)
         else case addToActiveConnections tcpSocket sv of (sv, added) \<Rightarrow>
           if \<not> added then Inr ((sv, snd (destroy_socket P cur tcpSocket w)), False)
           else bindR (startTimeoutTimer (sys_now P w) sd sv) (\<lambda>(sv, b). Inr ((sv, w), True))))"

definition server_newIncomingData ::
  "'w posix \<Rightarrow> thread_id \<Rightarrow> int \<Rightarrow> 'w server_state \<Rightarrow> ('w server_state \<times> bool) run" where
  "server_newIncomingData P cur sd st = (case st of (sv, w) \<Rightarrow>
     case sv_activeConnections sv sd of
       None \<Rightarrow> Some (Inr ((sv, w), False))
     | Some connection \<Rightarrow>
         let (sv, b) = stopTimeoutTimer sd sv in
         Option.bind (readFromSocket P cur connection w) (\<lambda>(b, connection, w).
           let sv = sv\<lparr>sv_activeConnections := (sv_activeConnections sv)(sd \<mapsto> connection)\<rparr> in
           Some (bindR (startTimeoutTimer (sys_now P w) sd sv) (\<lambda>(sv, b). Inr ((sv, w), True)))))"

definition connectionClosed ::
  "'w posix \<Rightarrow> thread_id \<Rightarrow> int \<Rightarrow> 'w server_state \<Rightarrow> ('w server_state \<times> bool) res" where
  "connectionClosed P cur sd st = (case st of (sv, w) \<Rightarrow>
     bindR (removeFromSocketList sd sv) (\<lambda>(sv, b).
       let (sv, b) = stopTimeoutTimer sd sv;
           (b, sv, w) = removeFromActiveConnections P cur sd sv w
       in Inr ((sv, w), True)))"

text \<open>The loop of \<^verbatim>\<open>acceptNewConnections\<close>.\<close>

partial_function (option) accept_loop ::
  "'w posix \<Rightarrow> thread_id \<Rightarrow> 'w server_state \<Rightarrow> ('w server_state \<times> bool) run" where
  "accept_loop S cur st =
     (if \<not> sv_running (fst st) then Some (Inr (st, True))
      else case pollfd_at (fst st) 0 of
        Inl e \<Rightarrow> Some (Inl e)
      | Inr p \<Rightarrow>
          (case sys_accept S (pf_fd p) (snd st) of (newSocket, w) \<Rightarrow>
             if 0 < newSocket then
               (case addNewConnection S cur newSocket (fst st, w) of
                  Inl e \<Rightarrow> Some (Inl e)
                | Inr (st, b) \<Rightarrow> accept_loop S cur st)
             else if newSocket = - 1 then Some (Inr ((fst st, w), True))
             else Some (Inr ((fst st, w), False))))"

definition acceptNewConnections ::
  "'w posix \<Rightarrow> thread_id \<Rightarrow> 'w server_state \<Rightarrow> ('w server_state \<times> bool) run" where
  "acceptNewConnections P cur st =
     (if sv_socketListEmptyIndexSet (fst st) = {} then Some (Inr (st, False)) else accept_loop P cur st)"

subsection \<open>The poll loop\<close>

text \<open>What a client socket's \<^verbatim>\<open>revents\<close> lead to.\<close>

definition data_event ::
  "'w posix \<Rightarrow> thread_id \<Rightarrow> pollfd \<Rightarrow> 'w server_state \<Rightarrow> ('w server_state \<times> bool) run" where
  "data_event P cur p st =
     (if pf_revents p AND POLLIN = POLLIN then server_newIncomingData P cur (pf_fd p) st
      else Some (Inr (st, False)))"

definition close_event ::
  "'w posix \<Rightarrow> thread_id \<Rightarrow> pollfd \<Rightarrow> 'w server_state \<Rightarrow> ('w server_state \<times> bool) run" where
  "close_event P cur p st =
     (if pf_revents p AND POLLHUP = POLLHUP then Some (connectionClosed P cur (pf_fd p) st)
      else Some (Inr (st, False)))"

text \<open>
  The range-for of \<^verbatim>\<open>processSockets\<close>.  Erasing the entry it stands on invalidates its iterator,
  and advancing that is undefined.
\<close>

fun process_clients ::
  "'w posix \<Rightarrow> thread_id \<Rightarrow> (int \<times> nat) list \<Rightarrow> 'w server_state \<Rightarrow> ('w server_state \<times> bool) run" where
  "process_clients P cur [] st = Some (Inr (st, True))"
| "process_clients P cur ((socketD, index) # its) st =
     bindO (Some (pollfd_at (fst st) index)) (\<lambda>p.
       if socketD \<noteq> pf_fd p then Some (Inr (st, False))
       else if 0 = pf_revents p then process_clients P cur its st
       else
         bindO (data_event P cur p st) (\<lambda>(st, dataReceived).
         bindO (Some (pollfd_at (fst st) index)) (\<lambda>p.
         bindO (close_event P cur p st) (\<lambda>(st, closed).
           if map_of (sv_socketFdIndexMap (fst st)) socketD = None then Some (Inl Undefined)
           else process_clients P cur its st))))"

text \<open>The listening socket.\<close>

definition listening_event ::
  "'w posix \<Rightarrow> thread_id \<Rightarrow> pollfd \<Rightarrow> 'w server_state \<Rightarrow> ('w server_state \<times> bool) run" where
  "listening_event P cur p st =
     (if pf_revents p = POLLIN then acceptNewConnections P cur st
      else if pf_revents p = 0 then Some (Inr (st, True))
      else Some (Inr (st, False)))"

definition processSockets ::
  "'w posix \<Rightarrow> thread_id \<Rightarrow> 'w server_state \<Rightarrow> ('w server_state \<times> bool) run" where
  "processSockets P cur st =
     (let st = ((fst st)\<lparr>sv_serverState := PROCESSING\<rparr>, snd st) in
      bindO (Some (pollfd_at (fst st) 0)) (\<lambda>p.
      bindO (listening_event P cur p st) (\<lambda>(st, ok).
        if \<not> ok then Some (Inr (st, False))
        else process_clients P cur (sv_socketFdIndexMap (fst st)) st)))"

definition empty_pollfd :: "int \<Rightarrow> pollfd" where
  "empty_pollfd fd = \<lparr>pf_fd = fd, pf_events = POLLIN, pf_revents = 0\<rparr>"

text \<open>The beginning of \<^verbatim>\<open>run\<close>, a round of its loop, and the loop for a number of rounds.\<close>

definition run_start :: "tcp_server \<Rightarrow> tcp_server res" where
  "run_start sv =
     (let n = nat (sv_maxConnectionSize sv) in
      if n = 0 then Inl Undefined
      else Inr (sv\<lparr>sv_socketList := Some (empty_pollfd (sv_serverSD sv) # replicate (n - 1) (empty_pollfd (- 1))),
             sv_socketListEmptyIndexSet := sv_socketListEmptyIndexSet sv \<union> {1..<n}\<rparr>))"

definition put_revents :: "(nat \<Rightarrow> 16 word) \<Rightarrow> tcp_server \<Rightarrow> tcp_server" where
  "put_revents r sv = sv\<lparr>sv_socketList :=
     map_option (\<lambda>l. map (\<lambda>i. (l ! i)\<lparr>pf_revents := r i\<rparr>) [0..<length l]) (sv_socketList sv)\<rparr>"

definition server_round ::
  "'w posix \<Rightarrow> thread_id \<Rightarrow> 'w server_state \<Rightarrow> ('w server_state \<times> bool) run" where
  "server_round P cur st = (case st of (sv, w) \<Rightarrow>
     let sv = sv\<lparr>sv_serverState := LISTENING\<rparr>;
         ((pollRes, revents), w) = sys_poll P (case sv_socketList sv of None \<Rightarrow> [] | Some l \<Rightarrow> l) w
     in if 0 > pollRes then Some (Inr ((sv, w), False))
        else
          let sv = put_revents revents sv in
          if 0 = pollRes then Some (Inr ((sv, w), True))
          else bindO (processSockets P cur (sv, w)) (\<lambda>(st, b). Some (Inr (st, True))))"

fun server_loop :: "'w posix \<Rightarrow> thread_id \<Rightarrow> nat \<Rightarrow> 'w server_state \<Rightarrow> 'w server_state run" where
  "server_loop P cur 0 st = Some (Inr st)"
| "server_loop P cur (Suc n) st =
     (if \<not> sv_running (fst st) then Some (Inr st)
      else bindO (server_round P cur st) (\<lambda>(st, continue).
        if \<not> continue then Some (Inr st) else server_loop P cur n st))"

definition server_run :: "'w posix \<Rightarrow> thread_id \<Rightarrow> nat \<Rightarrow> 'w server_state \<Rightarrow> 'w server_state run" where
  "server_run P cur n st = (case st of (sv, w) \<Rightarrow>
     bindO (Some (run_start sv)) (\<lambda>sv. server_loop P cur n (sv, w)))"

text \<open>
  The destructor stops the loop, joins the thread, and then the members are destroyed, the
  sockets of the active connections with them: \<open>fds\<close> are their descriptors in the order in
  which the map destroys its entries.
\<close>

definition destroy_server ::
  "'w posix \<Rightarrow> thread_id \<Rightarrow> int list \<Rightarrow> 'w server_state \<Rightarrow> 'w server_state" where
  "destroy_server P cur fds st = (case st of (sv, w) \<Rightarrow>
     let sv = sv\<lparr>sv_running := False, sv_threadJoinable := False, sv_socketList := None\<rparr> in
     fold (\<lambda>fd (sv, w). snd (removeFromActiveConnections P cur fd sv w)) fds (sv, w))"

end
