(* ===== verification/TcpServerFacts.thy ===== *)
theory TcpServerFacts
  imports TcpServer
begin

text \<open>
  The invariant of the server's tables, \<open>tables_ok\<close>: the map from descriptors to indices is
  injective, its indices lie inside the socket list behind the listening socket and are not
  free, and the socket list holds the descriptor at its index.  Every operation keeps it.
\<close>

definition tables_ok :: "tcp_server \<Rightarrow> bool" where
  "tables_ok sv \<longleftrightarrow> (\<exists>l. sv_socketList sv = Some l \<and> int (length l) = sv_maxConnectionSize sv \<and> l \<noteq> [] \<and>
     pf_fd (l ! 0) = sv_serverSD sv \<and>
     sorted_keys (sv_socketFdIndexMap sv) \<and> sv_socketListEmptyIndexSet sv \<subseteq> {1..<length l} \<and>
     (\<forall>fd i. map_of (sv_socketFdIndexMap sv) fd = Some i \<longrightarrow>
        0 < i \<and> i < length l \<and> i \<notin> sv_socketListEmptyIndexSet sv \<and> pf_fd (l ! i) = fd))"

lemma tables_okE:
  assumes "tables_ok sv"
  obtains l where "sv_socketList sv = Some l" "int (length l) = sv_maxConnectionSize sv" "l \<noteq> []"
    "pf_fd (l ! 0) = sv_serverSD sv"
    "sorted_keys (sv_socketFdIndexMap sv)" "sv_socketListEmptyIndexSet sv \<subseteq> {1..<length l}"
    "\<forall>fd i. map_of (sv_socketFdIndexMap sv) fd = Some i \<longrightarrow>
        0 < i \<and> i < length l \<and> i \<notin> sv_socketListEmptyIndexSet sv \<and> pf_fd (l ! i) = fd"
proof -
  from assms obtain l where "sv_socketList sv = Some l \<and> int (length l) = sv_maxConnectionSize sv \<and> l \<noteq> [] \<and>
     pf_fd (l ! 0) = sv_serverSD sv \<and>
     sorted_keys (sv_socketFdIndexMap sv) \<and> sv_socketListEmptyIndexSet sv \<subseteq> {1..<length l} \<and>
     (\<forall>fd i. map_of (sv_socketFdIndexMap sv) fd = Some i \<longrightarrow>
        0 < i \<and> i < length l \<and> i \<notin> sv_socketListEmptyIndexSet sv \<and> pf_fd (l ! i) = fd)"
    unfolding tables_ok_def ..
  then show thesis by (intro that [of l]) simp_all
qed

lemma tables_ok_inj:
  assumes "tables_ok sv" "map_of (sv_socketFdIndexMap sv) fd = Some i"
    "map_of (sv_socketFdIndexMap sv) fd' = Some i"
  shows "fd = fd'"
  using assms by (metis tables_okE)

text \<open>The invariant depends on six fields only.\<close>

definition same_tables :: "tcp_server \<Rightarrow> tcp_server \<Rightarrow> bool" where
  "same_tables sv sv' \<longleftrightarrow> sv_socketList sv' = sv_socketList sv \<and>
     sv_maxConnectionSize sv' = sv_maxConnectionSize sv \<and> sv_serverSD sv' = sv_serverSD sv \<and>
     sv_socketFdIndexMap sv' = sv_socketFdIndexMap sv \<and>
     sv_socketListEmptyIndexSet sv' = sv_socketListEmptyIndexSet sv"

lemma same_tables_ok: "same_tables sv sv' \<Longrightarrow> tables_ok sv' = tables_ok sv"
  by (simp add: same_tables_def tables_ok_def)

lemma same_tables_refl [simp]: "same_tables sv sv"
  by (simp add: same_tables_def)

lemma same_tables_trans: "same_tables a b \<Longrightarrow> same_tables b c \<Longrightarrow> same_tables a c"
  by (simp add: same_tables_def)

lemma same_tables_put_tables [simp]: "same_tables sv (put_tables T sv)"
  by (cases T) (simp add: same_tables_def put_tables_def)

lemma same_tables_start: "startTimeoutTimer now sd sv = Inr (sv', b) \<Longrightarrow> same_tables sv sv'"
  by (auto simp: startTimeoutTimer_def bindR_Inr_iff)

lemma same_tables_stop: "stopTimeoutTimer sd sv = (sv', b) \<Longrightarrow> same_tables sv sv'"
  by (auto simp: stopTimeoutTimer_def split: prod.splits)

lemma same_tables_remove_active:
  "removeFromActiveConnections P cur sd sv w = (b, sv', w') \<Longrightarrow> same_tables sv sv'"
  by (auto simp: removeFromActiveConnections_def same_tables_def split: option.splits)

lemma same_tables_timeout: "timeoutOnSocket P cur i sv w = (sv', w') \<Longrightarrow> same_tables sv sv'"
  by (auto simp: timeoutOnSocket_def same_tables_def split: option.splits prod.splits)

lemma same_tables_add_active: "addToActiveConnections s sv = (sv', b) \<Longrightarrow> same_tables sv sv'"
  by (auto simp: addToActiveConnections_def same_tables_def split: if_splits)

lemma same_tables_data:
  "server_newIncomingData P cur sd (sv, w) = Some (Inr ((sv', w'), b)) \<Longrightarrow> same_tables sv sv'"
proof (cases "sv_activeConnections sv sd")
  case (Some connection)
  assume a: "server_newIncomingData P cur sd (sv, w) = Some (Inr ((sv', w'), b))"
  obtain sv1 b1 where s: "stopTimeoutTimer sd sv = (sv1, b1)" by (cases "stopTimeoutTimer sd sv")
  obtain b2 c2 w2 where r: "readFromSocket P cur connection w = Some (b2, c2, w2)"
    using a Some s by (cases "readFromSocket P cur connection w") (auto simp: server_newIncomingData_def)
  let ?sv = "sv1\<lparr>sv_activeConnections := (sv_activeConnections sv1)(sd \<mapsto> c2)\<rparr>"
  obtain b3 where "startTimeoutTimer (sys_now P w2) sd ?sv = Inr (sv', b3)"
    using a Some s r by (auto simp: server_newIncomingData_def bindR_Inr_iff)
  then have "same_tables ?sv sv'" by (rule same_tables_start)
  moreover have "same_tables sv1 ?sv" by (simp add: same_tables_def)
  ultimately show ?thesis using same_tables_stop [OF s] same_tables_trans by blast
qed (simp add: server_newIncomingData_def)

subsection \<open>Adding and removing descriptors\<close>

lemma pollfd_at_ok: "sv_socketList sv = Some l \<Longrightarrow> i < length l \<Longrightarrow> pollfd_at sv i = Inr (l ! i)"
  by (simp add: pollfd_at_def)

lemma addToSocketList_ok:
  assumes "tables_ok sv" "sv_socketListEmptyIndexSet sv \<noteq> {}"
  obtains l i where "i \<in> sv_socketListEmptyIndexSet sv"
    "addToSocketList sd sv = Inr (sv\<lparr>sv_socketList := Some l,
       sv_socketFdIndexMap := map_set (sv_socketFdIndexMap sv) sd i,
       sv_socketListEmptyIndexSet := sv_socketListEmptyIndexSet sv - {i}\<rparr>, True)"
    "tables_ok (sv\<lparr>sv_socketList := Some l, sv_socketFdIndexMap := map_set (sv_socketFdIndexMap sv) sd i,
       sv_socketListEmptyIndexSet := sv_socketListEmptyIndexSet sv - {i}\<rparr>)"
proof -
  obtain l where l: "sv_socketList sv = Some l" "int (length l) = sv_maxConnectionSize sv" "l \<noteq> []"
    "pf_fd (l ! 0) = sv_serverSD sv"
    "sorted_keys (sv_socketFdIndexMap sv)" "sv_socketListEmptyIndexSet sv \<subseteq> {1..<length l}"
    "\<forall>fd i. map_of (sv_socketFdIndexMap sv) fd = Some i \<longrightarrow>
        0 < i \<and> i < length l \<and> i \<notin> sv_socketListEmptyIndexSet sv \<and> pf_fd (l ! i) = fd"
    using tables_okE [OF assms(1)] .
  let ?i = "Min (sv_socketListEmptyIndexSet sv)"
  have "finite (sv_socketListEmptyIndexSet sv)" using l(6) finite_subset by blast
  then have i: "?i \<in> sv_socketListEmptyIndexSet sv" using assms(2) by simp
  then have b: "0 < ?i" "?i < length l" using l(6) by auto
  let ?p = "(l ! ?i)\<lparr>pf_fd := sd, pf_events := POLLIN\<rparr>"
  let ?sv = "sv\<lparr>sv_socketList := Some (l[?i := ?p]), sv_socketFdIndexMap := map_set (sv_socketFdIndexMap sv) sd ?i,
      sv_socketListEmptyIndexSet := sv_socketListEmptyIndexSet sv - {?i}\<rparr>"
  have "addToSocketList sd sv = Inr (?sv, True)"
    using assms(2) pollfd_at_ok [OF l(1) b(2)] l(1) by (simp add: addToSocketList_def put_pollfd_def Let_def)
  moreover have "tables_ok ?sv"
    unfolding tables_ok_def using l i b by (auto simp: nth_list_update)
  ultimately show thesis by (intro that [OF i])
qed

lemma removeFromSocketList_ok:
  assumes "tables_ok sv" "map_of (sv_socketFdIndexMap sv) sd = Some i"
  obtains l where
    "removeFromSocketList sd sv = Inr (sv\<lparr>sv_socketList := Some l,
       sv_socketListEmptyIndexSet := insert i (sv_socketListEmptyIndexSet sv),
       sv_socketFdIndexMap := map_erase (sv_socketFdIndexMap sv) sd\<rparr>, True)"
    "tables_ok (sv\<lparr>sv_socketList := Some l,
       sv_socketListEmptyIndexSet := insert i (sv_socketListEmptyIndexSet sv),
       sv_socketFdIndexMap := map_erase (sv_socketFdIndexMap sv) sd\<rparr>)"
proof -
  obtain l where l: "sv_socketList sv = Some l" "int (length l) = sv_maxConnectionSize sv" "l \<noteq> []"
    "pf_fd (l ! 0) = sv_serverSD sv"
    "sorted_keys (sv_socketFdIndexMap sv)" "sv_socketListEmptyIndexSet sv \<subseteq> {1..<length l}"
    "\<forall>fd i. map_of (sv_socketFdIndexMap sv) fd = Some i \<longrightarrow>
        0 < i \<and> i < length l \<and> i \<notin> sv_socketListEmptyIndexSet sv \<and> pf_fd (l ! i) = fd"
    using tables_okE [OF assms(1)] .
  have i: "0 < i" "i < length l" "i \<notin> sv_socketListEmptyIndexSet sv" using l(7) assms(2) by auto
  have other: "map_of (sv_socketFdIndexMap sv) fd \<noteq> Some i" if "fd \<noteq> sd" for fd
    using tables_ok_inj [OF assms] that by blast
  let ?sv = "sv\<lparr>sv_socketList := Some (l[i := (l ! i)\<lparr>pf_fd := - 1\<rparr>]),
      sv_socketListEmptyIndexSet := insert i (sv_socketListEmptyIndexSet sv),
      sv_socketFdIndexMap := map_erase (sv_socketFdIndexMap sv) sd\<rparr>"
  have "removeFromSocketList sd sv = Inr (?sv, True)"
    using assms(2) pollfd_at_ok [OF l(1) i(2)] l(1) by (simp add: removeFromSocketList_def put_pollfd_def)
  moreover have "tables_ok ?sv"
    unfolding tables_ok_def using l i other by (auto simp: nth_list_update)
  ultimately show thesis by (intro that)
qed

lemma tables_ok_add:
  assumes "tables_ok sv" "addNewConnection P cur sd (sv, w) = Inr ((sv', w'), b)"
  shows "tables_ok sv'"
proof (cases "sv_socketListEmptyIndexSet sv = {}")
  case True
  with assms show ?thesis by (simp add: addNewConnection_def)
next
  case False
  obtain sv1 where sv1: "addToSocketList sd sv = Inr (sv1, True)" "tables_ok sv1"
    using addToSocketList_ok [OF assms(1) False] by metis
  obtain sv2 b2 where sv2: "addToActiveConnections (server_socket sd sv) sv1 = (sv2, b2)"
    by (cases "addToActiveConnections (server_socket sd sv) sv1")
  have ok: "tables_ok sv2" using same_tables_ok [OF same_tables_add_active [OF sv2]] sv1(2) by simp
  show ?thesis
  proof (cases b2)
    case True
    with assms(2) False sv1 sv2 obtain b3 where "startTimeoutTimer (sys_now P w) sd sv2 = Inr (sv', b3)"
      by (auto simp: addNewConnection_def bindR_Inr_iff)
    from same_tables_ok [OF same_tables_start [OF this]] ok show ?thesis by simp
  next
    case False': False
    with assms(2) False sv1 sv2 have "sv' = sv2" by (auto simp: addNewConnection_def)
    with ok show ?thesis by simp
  qed
qed

lemma tables_ok_closed:
  assumes "tables_ok sv" "connectionClosed P cur sd (sv, w) = Inr ((sv', w'), b)"
  shows "tables_ok sv'"
proof -
  have "\<exists>sv1 b1. removeFromSocketList sd sv = Inr (sv1, b1) \<and> tables_ok sv1"
  proof (cases "map_of (sv_socketFdIndexMap sv) sd")
    case None
    with assms(1) show ?thesis by (intro exI [of _ sv] exI [of _ False]) (simp add: removeFromSocketList_def)
  next
    case (Some i)
    obtain sv1 where "removeFromSocketList sd sv = Inr (sv1, True)" "tables_ok sv1"
      using removeFromSocketList_ok [OF assms(1) Some] by metis
    then show ?thesis by blast
  qed
  then obtain sv1 b1 where sv1: "removeFromSocketList sd sv = Inr (sv1, b1)" "tables_ok sv1" by blast
  obtain sv2 b2 where sv2: "stopTimeoutTimer sd sv1 = (sv2, b2)" by (cases "stopTimeoutTimer sd sv1")
  obtain b3 where "removeFromActiveConnections P cur sd sv2 w = (b3, sv', w')"
    using assms(2) sv1(1) sv2 by (auto simp: connectionClosed_def split: prod.splits)
  from same_tables_ok [OF same_tables_remove_active [OF this]] same_tables_ok [OF same_tables_stop [OF sv2]] sv1(2)
  show ?thesis by simp
qed

lemma tables_ok_data:
  "tables_ok sv \<Longrightarrow> server_newIncomingData P cur sd (sv, w) = Some (Inr ((sv', w'), b)) \<Longrightarrow> tables_ok sv'"
  using same_tables_ok [OF same_tables_data] by metis

lemma tables_ok_revents: "tables_ok sv \<Longrightarrow> tables_ok (put_revents r sv)"
proof -
  assume "tables_ok sv"
  then obtain l where l: "sv_socketList sv = Some l" "int (length l) = sv_maxConnectionSize sv" "l \<noteq> []"
    "pf_fd (l ! 0) = sv_serverSD sv"
    "sorted_keys (sv_socketFdIndexMap sv)" "sv_socketListEmptyIndexSet sv \<subseteq> {1..<length l}"
    "\<forall>fd i. map_of (sv_socketFdIndexMap sv) fd = Some i \<longrightarrow>
        0 < i \<and> i < length l \<and> i \<notin> sv_socketListEmptyIndexSet sv \<and> pf_fd (l ! i) = fd"
    by (rule tables_okE)
  let ?l = "map (\<lambda>i. (l ! i)\<lparr>pf_revents := r i\<rparr>) [0..<length l]"
  have "pf_fd (?l ! i) = pf_fd (l ! i)" if "i < length l" for i using that by simp
  with l show ?thesis
    unfolding tables_ok_def put_revents_def by (intro exI [of _ ?l]) simp
qed

lemma run_start_ok:
  assumes "run_start sv = Inr sv'" "sv_socketFdIndexMap sv = []" "sv_socketListEmptyIndexSet sv = {}"
  shows "tables_ok sv'"
  using assms
  by (auto simp: run_start_def tables_ok_def empty_pollfd_def Let_def nth_Cons' split: if_splits)

end
