(* ===== verification/TcpSocketProperties.thy ===== *)
theory TcpSocketProperties
  imports TcpSocket
begin

text \<open>
  What a socket promises: the bytes a call of \<^verbatim>\<open>readFromSocket\<close> collects and the signals it
  emits, how the result of \<^verbatim>\<open>write\<close> relates to what was sent, and why a socket connects at
  most once in its life.
\<close>

subsection \<open>Reading\<close>

text \<open>The operating system delivers the messages \<open>cs\<close>, one per call.\<close>

fun receives :: "'w posix \<Rightarrow> int \<Rightarrow> 'w \<Rightarrow> string list \<Rightarrow> 'w \<Rightarrow> bool" where
  "receives P fd w [] w' \<longleftrightarrow> w' = w"
| "receives P fd w (c # cs) w' \<longleftrightarrow>
     fst (sys_recv P fd INCOMING_DATA_SIZE w) = Some c \<and>
     receives P fd (snd (sys_recv P fd INCOMING_DATA_SIZE w)) cs w'"

text \<open>What the loop does with the answer that ends it.\<close>

definition read_end :: "'w posix \<Rightarrow> thread_id \<Rightarrow> string option \<Rightarrow> tcp_socket \<Rightarrow> 'w \<Rightarrow> tcp_socket \<times> 'w" where
  "read_end P cur r s w =
     (case r of
        None \<Rightarrow> (if sys_errno P w = EAGAIN then s else sys_error P w s, w)
      | Some d \<Rightarrow> if d = [] then
            (case socket_disconnect P cur s w of (b, s, w) \<Rightarrow> (emit_signal sig_disconnected s, w))
          else (s\<lparr>ts_dataBuffer := ts_dataBuffer s @ d\<rparr>, w))"

abbreviation received_bytes :: "string option \<Rightarrow> string" where
  "received_bytes r \<equiv> case r of None \<Rightarrow> [] | Some d \<Rightarrow> d"

lemma read_loop_collects:
  assumes "receives P fd w cs w1" "\<forall>c \<in> set cs. length c = INCOMING_DATA_SIZE"
    and "sys_recv P fd INCOMING_DATA_SIZE w1 = (r, w2)" "length (received_bytes r) \<noteq> INCOMING_DATA_SIZE"
    and "ts_socketD s = fd"
  shows "read_loop P cur n s w =
    Some (n + length (concat cs) + length (received_bytes r),
      read_end P cur r (s\<lparr>ts_dataBuffer := ts_dataBuffer s @ concat cs\<rparr>) w2)"
  using assms
proof (induction cs arbitrary: n s w)
  case Nil
  then show ?case
    by (subst read_loop.simps)
      (auto simp: read_end_def EAGAIN_def EWOULDBLOCK_def split: option.splits prod.splits)
next
  case (Cons c cs)
  obtain w' where w': "sys_recv P fd INCOMING_DATA_SIZE w = (Some c, w')" "receives P fd w' cs w1"
    using Cons.prems(1) by (metis prod.collapse receives.simps(2))
  have c: "length c = INCOMING_DATA_SIZE" "c \<noteq> []"
    using Cons.prems(2) by (auto simp: INCOMING_DATA_SIZE_def)
  let ?s = "s\<lparr>ts_dataBuffer := ts_dataBuffer s @ c\<rparr>"
  have "read_loop P cur n s w = read_loop P cur (n + length c) ?s w'"
    using Cons.prems(5) w'(1) c by (subst read_loop.simps) simp
  also have "\<dots> = Some (n + length c + length (concat cs) + length (received_bytes r),
      read_end P cur r (?s\<lparr>ts_dataBuffer := ts_dataBuffer ?s @ concat cs\<rparr>) w2)"
    using Cons.prems w'(2) by (intro Cons.IH) simp_all
  finally show ?case by (simp add: add.assoc)
qed

lemma socket_disconnect_buffer:
  "socket_disconnect P cur s w = (b, s', w') \<Longrightarrow>
   ts_dataBuffer s' = ts_dataBuffer s \<and> ts_socketD s' = ts_socketD s \<and>
   (\<exists>e. ts_emitted s' = ts_emitted s @ e \<and> sig_dataReady \<notin> set e \<and> sig_disconnected \<notin> set e) \<and>
   ts_connectionStatus s' = (if ts_connectionStatus s = CONNECTED \<and> \<not> (b \<and> socket_getThreadId cur s = cur)
     then CONNECTED else NOT_CONNECTED) \<and> ts_parent s' = ts_parent s"
  by (cases "ts_connectionStatus s")
    (auto simp: socket_disconnect_def connectionStatus_def set_error_def sys_error_def emit_signal_def Let_def
      socket_getThreadId_def split: if_splits prod.splits)

text \<open>
  C19. \<^verbatim>\<open>readFromSocket\<close> on a connected socket keeps reading as long as the operating system
  fills its kilobyte buffer: all bytes received are appended to the read buffer in their
  order, whatever the read buffer size; \<^verbatim>\<open>dataReady\<close> is emitted exactly once, behind every other
  signal of the call, if there were any bytes, and not at all otherwise; \<^verbatim>\<open>disconnected\<close> is emitted
  exactly once if the peer had closed, and not at all otherwise; and the result is true in every
  case, an error of \<^verbatim>\<open>recv\<close> included.
\<close>

theorem readFromSocket_collects:
  assumes "ts_connectionStatus s = CONNECTED" "receives P (ts_socketD s) w cs w1"
    and "\<forall>c \<in> set cs. length c = 1024"
    and "sys_recv P (ts_socketD s) 1024 w1 = (r, w2)" "length (received_bytes r) \<noteq> 1024"
  shows "\<exists>s' w' e. readFromSocket P cur s w = Some (True, s', w') \<and>
    ts_dataBuffer s' = ts_dataBuffer s @ concat cs @ received_bytes r \<and>
    ts_emitted s' = ts_emitted s @ e @ (if concat cs @ received_bytes r \<noteq> [] then [sig_dataReady] else []) \<and>
    sig_dataReady \<notin> set e \<and> count_list e sig_disconnected = (if r = Some [] then 1 else 0)"
proof -
  let ?s = "s\<lparr>ts_dataBuffer := ts_dataBuffer s @ concat cs\<rparr>"
  obtain s1 w' where e: "read_end P cur r ?s w2 = (s1, w')" by (cases "read_end P cur r ?s w2")
  have loop: "read_loop P cur 0 s w = Some (length (concat cs @ received_bytes r), s1, w')"
    using read_loop_collects [of P "ts_socketD s" w cs w1 r w2 s cur 0] assms e
    by (simp add: INCOMING_DATA_SIZE_def)
  have s1: "ts_dataBuffer s1 = ts_dataBuffer s @ concat cs @ received_bytes r \<and>
    (\<exists>e. ts_emitted s1 = ts_emitted s @ e \<and> sig_dataReady \<notin> set e \<and>
      count_list e sig_disconnected = (if r = Some [] then 1 else 0))"
  proof (cases "r = Some []")
    case True
    obtain b s2 w3 where d: "socket_disconnect P cur ?s w2 = (b, s2, w3)" by (cases "socket_disconnect P cur ?s w2")
    with True e have "s1 = emit_signal sig_disconnected s2" by (simp add: read_end_def)
    with True socket_disconnect_buffer [OF d] show ?thesis by (auto simp: emit_signal_def)
  next
    case False
    with e show ?thesis
      by (cases r) (auto simp: read_end_def sys_error_def set_error_def emit_signal_def Let_def split: if_splits)
  qed
  then obtain f where f: "ts_emitted s1 = ts_emitted s @ f" "sig_dataReady \<notin> set f"
    "count_list f sig_disconnected = (if r = Some [] then 1 else 0)" by blast
  let ?n = "0 < length (concat cs @ received_bytes r)"
  have "readFromSocket P cur s w = Some (True, if ?n then emit_signal sig_dataReady s1 else s1, w')"
    using assms(1) loop by (simp add: readFromSocket_def connectionStatus_def)
  with s1 f show ?thesis
    by (intro exI [of _ "if ?n then emit_signal sig_dataReady s1 else s1"] exI [of _ w'] exI [of _ f])
      (auto simp: emit_signal_def)
qed

theorem readFromSocket_collects_witness:
  "\<exists>s' w'. readFromSocket script_posix 0 (new_socket 5 CONNECTED 16 None)
       (script_start\<lparr>sc_received := [Some (replicate 1024 CHR ''x''), Some []]\<rparr>) = Some (True, s', w') \<and>
     ts_dataBuffer s' = replicate 1024 CHR ''x'' \<and> sig_dataReady \<in> set (ts_emitted s') \<and>
     sig_disconnected \<in> set (ts_emitted s')"
proof -
  let ?s = "new_socket 5 CONNECTED 16 None" and ?x = "replicate 1024 CHR ''x''"
  let ?w = "script_start\<lparr>sc_received := [Some ?x, Some []]\<rparr>"
  have "ts_connectionStatus ?s = CONNECTED"
    "receives script_posix (ts_socketD ?s) ?w [?x] (script_start\<lparr>sc_received := [Some []]\<rparr>)"
    "\<forall>c \<in> set [?x]. length c = 1024"
    "sys_recv script_posix (ts_socketD ?s) 1024 (script_start\<lparr>sc_received := [Some []]\<rparr>) =
      (Some [], script_start\<lparr>sc_received := []\<rparr>)" "length (received_bytes (Some [])) \<noteq> 1024"
    by (simp_all add: new_socket_def setReadBufferSize_def script_posix_def next_received_def)
  from readFromSocket_collects [OF this, of 0] obtain s' w' e where e:
    "readFromSocket script_posix 0 ?s ?w = Some (True, s', w')" "ts_dataBuffer s' = ?x"
    "ts_emitted s' = e @ [sig_dataReady]" "count_list e sig_disconnected = 1"
    by (auto simp: new_socket_def setReadBufferSize_def)
  have "sig_disconnected \<in> set e" using e(4) count_notin [of sig_disconnected e] by auto
  with e show ?thesis by auto
qed

subsection \<open>Writing\<close>

lemma sys_error_record:
  obtains e where "te_errorCode e = TCP_ERROR_SYS_ERROR"
    "sys_error P w s = s\<lparr>ts_lastError := Some e, ts_emitted := ts_emitted s @ [sig_errorOccurred e]\<rparr>"
  by (rule that [of "\<lparr>te_errorCode = TCP_ERROR_SYS_ERROR,
      te_errorStr = show_int (sys_errno P w) @ '' - '' @ sys_strerror P (sys_errno P w)\<rparr>"])
    (simp_all add: sys_error_def set_error_def emit_signal_def Let_def)

text \<open>
  C35. \<^verbatim>\<open>write\<close> takes the number of bytes that \<^verbatim>\<open>send\<close> returns for an error number: a connected
  socket reports success only when nothing was sent, and reports every message that went
  out, in full or in part, as a system error.
\<close>

theorem write_reports_sent_as_error:
  assumes "ts_connectionStatus s = CONNECTED" "sys_send P (ts_socketD s) d w = (r, w')"
    and "- 1 \<le> r" "r < 2147483648"
  shows "\<exists>s'. socket_write P d s w = (r = 0, s', w') \<and>
    (if r = 0 then s' = s else \<exists>e. te_errorCode e = TCP_ERROR_SYS_ERROR \<and>
      s' = s\<lparr>ts_lastError := Some e, ts_emitted := ts_emitted s @ [sig_errorOccurred e]\<rparr>)"
proof -
  obtain e where "te_errorCode e = TCP_ERROR_SYS_ERROR"
    "sys_error P w' s = s\<lparr>ts_lastError := Some e, ts_emitted := ts_emitted s @ [sig_errorOccurred e]\<rparr>"
    by (rule sys_error_record)
  with assms show ?thesis by (auto simp: socket_write_def connectionStatus_def)
qed

theorem write_reports_sent_as_error_witness:
  "\<exists>s'. socket_write script_posix ''hello'' (new_socket 5 CONNECTED 16 None) script_start =
     (False, s', script_start\<lparr>sc_sent := ''hello''\<rparr>)"
proof -
  have "ts_connectionStatus (new_socket 5 CONNECTED 16 None) = CONNECTED"
    "sys_send script_posix (ts_socketD (new_socket 5 CONNECTED 16 None)) ''hello'' script_start =
      (5, script_start\<lparr>sc_sent := ''hello''\<rparr>)" "- 1 \<le> (5::int)" "5 < (2147483648::int)"
    by (simp_all add: new_socket_def setReadBufferSize_def script_posix_def script_start_def)
  from write_reports_sent_as_error [OF this] show ?thesis by auto
qed

subsection \<open>A socket connects once\<close>

text \<open>What a client can do to a socket, \<^verbatim>\<open>setSocketDescriptor\<close> apart, and the operating system.\<close>

inductive socket_step :: "'w posix \<Rightarrow> tcp_socket \<times> 'w \<Rightarrow> tcp_socket \<times> 'w \<Rightarrow> bool" for P where
  connect: "socket_connect P a p s w = (b, s', w') \<Longrightarrow> socket_step P (s, w) (s', w')"
| disconnect: "socket_disconnect P cur s w = (b, s', w') \<Longrightarrow> socket_step P (s, w) (s', w')"
| read: "socket_read s = (d, s') \<Longrightarrow> socket_step P (s, w) (s', w)"
| receive: "readFromSocket P cur s w = Some (b, s', w') \<Longrightarrow> socket_step P (s, w) (s', w')"
| transmit: "socket_write P d s w = (b, s', w') \<Longrightarrow> socket_step P (s, w) (s', w')"
| resize: "setReadBufferSize n s = (b, s') \<Longrightarrow> socket_step P (s, w) (s', w)"
| address: "peerAddress P s w = (a, s', w') \<Longrightarrow> socket_step P (s, w) (s', w')"
| port: "peerPort P s w = (p, s', w') \<Longrightarrow> socket_step P (s, w) (s', w')"
| system: "socket_step P (s, w) (s, w')"

inductive_cases socket_stepE: "socket_step P (s, w) (s', w')"

abbreviation socket_run :: "'w posix \<Rightarrow> tcp_socket \<times> 'w \<Rightarrow> tcp_socket \<times> 'w \<Rightarrow> bool" where
  "socket_run P \<equiv> (socket_step P)\<^sup>*\<^sup>*"

definition spent :: "int \<Rightarrow> tcp_socket \<Rightarrow> bool" where
  "spent sd s \<longleftrightarrow> ts_connectionStatus s = NOT_CONNECTED \<and> ts_socketD s = sd"

lemma spent_step:
  "socket_step P (s, w) (s', w') \<Longrightarrow> spent sd s \<Longrightarrow> 0 < sd \<Longrightarrow> spent sd s'"
  by (erule socket_stepE)
    (auto simp: spent_def socket_connect_def socket_disconnect_def socket_read_def readFromSocket_def
      socket_write_def setReadBufferSize_def peerAddress_def peerPort_def connectionStatus_def
      set_error_def emit_signal_def Let_def split: if_splits)

lemma spent_run:
  assumes "socket_run P (s, w) (s', w')" "spent sd s" "0 < sd"
  shows "spent sd s'"
proof -
  have "spent sd (fst t)" if "socket_run P t0 t" "spent sd (fst t0)" for t0 t
    using that by (induction rule: rtranclp_induct) (metis prod.collapse spent_step assms(3))+
  from this [OF assms(1)] assms(2) show ?thesis by simp
qed

text \<open>
  A socket that holds a descriptor and is not connected, because \<^verbatim>\<open>connect\<close> has failed or
  because it has been disconnected, stays so whatever is done with it short of
  \<^verbatim>\<open>setSocketDescriptor\<close>: every later \<^verbatim>\<open>connect\<close> is refused without a system call, and the
  destructor does not close the descriptor.
\<close>

theorem socket_connects_once:
  assumes "ts_connectionStatus s = NOT_CONNECTED" "0 < ts_socketD s" "socket_run P (s, w) (s', w')"
  shows "ts_connectionStatus s' = NOT_CONNECTED \<and>
    (\<exists>s''. socket_connect P a p s' w' = (False, s'', w') \<and>
      map_option te_errorCode (ts_lastError s'') = Some TCP_ERROR_BAD_SOCKET_DESCRIPTOR) \<and>
    snd (destroy_socket P cur s' w') = w'"
proof -
  have "spent (ts_socketD s) s'"
    by (rule spent_run [OF assms(3)]) (simp_all add: spent_def assms(1,2))
  with assms(2) show ?thesis
    by (simp add: spent_def socket_connect_def destroy_socket_def connectionStatus_def set_error_def
        emit_signal_def Let_def)
qed

theorem socket_connects_once_witness:
  "\<exists>s w. socket_connect script_posix ''127.0.0.1'' 80 (new_unconnected None)
       (script_start\<lparr>sc_results := [5, - 1]\<rparr>) = (False, s, w) \<and> sc_closed w = [] \<and>
     fst (socket_connect script_posix ''127.0.0.1'' 80 s (w\<lparr>sc_results := [6, 0]\<rparr>)) = False \<and>
     sc_closed (snd (destroy_socket script_posix 0 s w)) = []"
proof -
  let ?r = "socket_connect script_posix ''127.0.0.1'' 80 (new_unconnected None)
       (script_start\<lparr>sc_results := [5, - 1]\<rparr>)"
  obtain b s w where r: "?r = (b, s, w)" by (cases ?r)
  have s: "b = False" "ts_connectionStatus s = NOT_CONNECTED" "ts_socketD s = 5" "sc_closed w = []"
    using r by (auto simp: socket_connect_def new_unconnected_def new_socket_def setReadBufferSize_def
        connectionStatus_def script_posix_def next_result_def script_start_def sys_error_def set_error_def
        emit_signal_def Let_def)
  have "socket_run script_posix (s, w) (s, w\<lparr>sc_results := [6, 0]\<rparr>)"
    by (rule r_into_rtranclp) (rule system)
  then have pos: "0 < ts_socketD s" and run: "socket_run script_posix (s, w) (s, w\<lparr>sc_results := [6, 0]\<rparr>)"
    using s(3) by simp_all
  have "fst (socket_connect script_posix ''127.0.0.1'' 80 s (w\<lparr>sc_results := [6, 0]\<rparr>)) = False"
    using socket_connects_once [OF s(2) pos run, of "''127.0.0.1''" 80] by force
  moreover have "sc_closed (snd (destroy_socket script_posix 0 s w)) = []"
    using socket_connects_once [OF s(2) pos rtranclp.rtrancl_refl, of script_posix] s(4) by metis
  ultimately show ?thesis using r s(1,4) by blast
qed

end
