(* ===== verification/TcpServerInvariants.thy ===== *)
theory TcpServerInvariants
  imports TcpServerFacts TcpSocketProperties
begin

text \<open>
  Invariants of a running server.  \<open>server_invariant\<close> is the contract of an invariant of the
  poll loop: what the three operations on connections keep, every number of rounds keeps.
  It is interpreted for the tables and for the state in which a server cannot be stopped.
\<close>

subsection \<open>Invariants of the poll loop\<close>

locale server_invariant =
  fixes P :: "'w posix" and cur :: thread_id and I :: "tcp_server \<Rightarrow> bool"
  assumes add: "I sv \<Longrightarrow> addNewConnection P cur sd (sv, w) = Inr ((sv', w'), b) \<Longrightarrow> I sv'"
    and data: "I sv \<Longrightarrow> server_newIncomingData P cur sd (sv, w) = Some (Inr ((sv', w'), b)) \<Longrightarrow> I sv'"
    and closed: "I sv \<Longrightarrow> connectionClosed P cur sd (sv, w) = Inr ((sv', w'), b) \<Longrightarrow> I sv'"
    and processing: "I sv \<Longrightarrow> I (sv\<lparr>sv_serverState := PROCESSING\<rparr>)"
    and listening: "I sv \<Longrightarrow> I (sv\<lparr>sv_serverState := LISTENING\<rparr>)"
    and revents: "I sv \<Longrightarrow> I (put_revents r sv)"
begin

lemma accept_loop_keeps:
  assumes "accept_loop P cur st = Some (Inr (st', b))" "I (fst st)"
  shows "I (fst st')"
proof -
  have "Q = P \<and> c = cur \<and> I (fst st) \<longrightarrow> (\<forall>st' b. r = Inr (st', b) \<longrightarrow> I (fst st'))"
    if "accept_loop Q c st = Some r" for Q c st r
  proof (rule accept_loop.raw_induct [where P = "\<lambda>Q c st r. Q = P \<and> c = cur \<and> I (fst st) \<longrightarrow>
      (\<forall>st' b. r = Inr (st', b) \<longrightarrow> I (fst st'))", OF _ that])
    fix loop :: "'w posix \<Rightarrow> thread_id \<Rightarrow> 'w server_state \<Rightarrow> ('w server_state \<times> bool) run"
      and Q c st and r :: "('w server_state \<times> bool) res"
    assume IH: "\<And>Q c st r. loop Q c st = Some r \<Longrightarrow>
        Q = P \<and> c = cur \<and> I (fst st) \<longrightarrow> (\<forall>st' b. r = Inr (st', b) \<longrightarrow> I (fst st'))"
      and eq: "(if \<not> sv_running (fst st) then Some (Inr (st, True))
      else case pollfd_at (fst st) 0 of
        Inl e \<Rightarrow> Some (Inl e)
      | Inr p \<Rightarrow>
          (case sys_accept Q (pf_fd p) (snd st) of (newSocket, w) \<Rightarrow>
             if 0 < newSocket then
               (case addNewConnection Q c newSocket (fst st, w) of
                  Inl e \<Rightarrow> Some (Inl e)
                | Inr (st, b) \<Rightarrow> loop Q c st)
             else if newSocket = - 1 then Some (Inr ((fst st, w), True))
             else Some (Inr ((fst st, w), False)))) = Some r"
    show "Q = P \<and> c = cur \<and> I (fst st) \<longrightarrow> (\<forall>st' b. r = Inr (st', b) \<longrightarrow> I (fst st'))"
    proof (intro impI allI)
      fix st' b assume q: "Q = P \<and> c = cur \<and> I (fst st)" and r: "r = Inr (st', b)"
      show "I (fst st')"
      proof (cases "\<exists>p fd w st1 b1. pollfd_at (fst st) 0 = Inr p \<and> sys_accept P (pf_fd p) (snd st) = (fd, w) \<and>
          0 < fd \<and> sv_running (fst st) \<and> addNewConnection P cur fd (fst st, w) = Inr (st1, b1)")
        case True
        then obtain p fd w st1 b1 where a: "pollfd_at (fst st) 0 = Inr p" "sys_accept P (pf_fd p) (snd st) = (fd, w)"
          "0 < fd" "sv_running (fst st)" "addNewConnection P cur fd (fst st, w) = Inr (st1, b1)" by blast
        have "I (fst st1)" using add [of "fst st" fd w "fst st1" "snd st1" b1] q a(5) by simp
        moreover have "loop P cur st1 = Some r" using eq a q by simp
        ultimately show ?thesis using IH r by blast
      next
        case False
        with eq q r show ?thesis by (auto split: if_splits sum.splits prod.splits)
      qed
    qed
  qed
  with assms show ?thesis by blast
qed

lemma accept_keeps:
  "acceptNewConnections P cur st = Some (Inr (st', b)) \<Longrightarrow> I (fst st) \<Longrightarrow> I (fst st')"
  using accept_loop_keeps by (auto simp: acceptNewConnections_def split: if_splits)

lemma data_keeps: "data_event P cur p st = Some (Inr (st', b)) \<Longrightarrow> I (fst st) \<Longrightarrow> I (fst st')"
  using data [of "fst st" "pf_fd p" "snd st" "fst st'" "snd st'" b]
  by (auto simp: data_event_def split: if_splits)

lemma close_keeps: "close_event P cur p st = Some (Inr (st', b)) \<Longrightarrow> I (fst st) \<Longrightarrow> I (fst st')"
  using closed [of "fst st" "pf_fd p" "snd st" "fst st'" "snd st'" b]
  by (auto simp: close_event_def split: if_splits)

lemma clients_keep:
  "process_clients P cur its st = Some (Inr (st', b)) \<Longrightarrow> I (fst st) \<Longrightarrow> I (fst st')"
proof (induction its arbitrary: st)
  case (Cons it its)
  obtain fd i where it: "it = (fd, i)" by (cases it)
  obtain p where p: "pollfd_at (fst st) i = Inr p"
    using Cons.prems(1) it by (cases "pollfd_at (fst st) i") auto
  show ?case
  proof (cases "fd \<noteq> pf_fd p \<or> pf_revents p = 0")
    case True
    with Cons it p show ?thesis by (auto split: if_splits)
  next
    case False
    then obtain st1 d p1 st2 e where "data_event P cur p st = Some (Inr (st1, d))"
      "close_event P cur p1 st1 = Some (Inr (st2, e))" "process_clients P cur its st2 = Some (Inr (st', b))"
      using Cons.prems(1) it p by (auto simp: bindO_Inr split: if_splits)
    with data_keeps close_keeps Cons.prems(2) Cons.IH show ?thesis by blast
  qed
qed simp

lemma process_keeps:
  assumes "processSockets P cur st = Some (Inr (st', b))" "I (fst st)"
  shows "I (fst st')"
proof -
  let ?st = "((fst st)\<lparr>sv_serverState := PROCESSING\<rparr>, snd st)"
  have I0: "I (fst ?st)" using processing [OF assms(2)] by simp
  obtain p where p: "pollfd_at (fst ?st) 0 = Inr p"
    using assms(1) by (cases "pollfd_at (fst ?st) 0") (auto simp: processSockets_def)
  obtain st1 ok where st1: "listening_event P cur p ?st = Some (Inr (st1, ok))"
    and rest: "(if \<not> ok then Some (Inr (st1, False))
        else process_clients P cur (sv_socketFdIndexMap (fst st1)) st1) = Some (Inr (st', b))"
    using assms(1) p by (auto simp: processSockets_def Let_def bindO_Inr)
  have "I (fst st1)" using st1 I0 accept_keeps [of ?st st1 ok] by (auto simp: listening_event_def split: if_splits)
  with rest clients_keep show ?thesis by (auto split: if_splits)
qed

lemma round_keeps:
  assumes "server_round P cur st = Some (Inr (st', b))" "I (fst st)"
  shows "I (fst st')"
proof -
  obtain sv w where st: "st = (sv, w)" by (cases st)
  let ?sv = "sv\<lparr>sv_serverState := LISTENING\<rparr>"
  obtain n r w1 where poll: "sys_poll P (case sv_socketList ?sv of None \<Rightarrow> [] | Some l \<Rightarrow> l) w = ((n, r), w1)"
    by (metis prod.collapse)
  have "I ?sv" "I (put_revents r ?sv)" using assms(2) st listening revents by simp_all
  with assms(1) st poll show ?thesis
    by (auto simp: server_round_def Let_def bindO_Inr split: if_splits dest: process_keeps)
qed

lemma loop_keeps:
  "server_loop P cur n st = Some (Inr st') \<Longrightarrow> I (fst st) \<Longrightarrow> I (fst st')"
proof (induction n arbitrary: st)
  case (Suc n)
  show ?case
  proof (cases "sv_running (fst st)")
    case True
    then obtain st1 c where st1: "server_round P cur st = Some (Inr (st1, c))"
      "(if \<not> c then Some (Inr st1) else server_loop P cur n st1) = Some (Inr st')"
      using Suc.prems(1) by (auto simp: bindO_Inr)
    from round_keeps [OF st1(1) Suc.prems(2)] st1(2) Suc.IH show ?thesis by (auto split: if_splits)
  next
    case False
    with Suc.prems show ?thesis by simp
  qed
qed simp

end

interpretation tables: server_invariant P cur tables_ok for P :: "'w posix" and cur
proof
  fix sv :: tcp_server
  show "tables_ok sv \<Longrightarrow> tables_ok (sv\<lparr>sv_serverState := PROCESSING\<rparr>)"
    "tables_ok sv \<Longrightarrow> tables_ok (sv\<lparr>sv_serverState := LISTENING\<rparr>)"
    by (simp_all add: tables_ok_def)
qed (fact tables_ok_add tables_ok_data tables_ok_closed tables_ok_revents)+

text \<open>The state in which a server runs, for the purposes of \<^verbatim>\<open>stop\<close>.\<close>

definition unstoppable :: "tcp_server \<Rightarrow> bool" where
  "unstoppable sv \<longleftrightarrow> sv_running sv \<and> sv_serverState sv \<in> {STARTING, LISTENING, PROCESSING}"

lemma same_state_unstoppable:
  "sv_running sv' = sv_running sv \<Longrightarrow> sv_serverState sv' = sv_serverState sv \<Longrightarrow>
   unstoppable sv' = unstoppable sv"
  by (simp add: unstoppable_def)

definition same_state :: "tcp_server \<Rightarrow> tcp_server \<Rightarrow> bool" where
  "same_state sv sv' \<longleftrightarrow> sv_running sv' = sv_running sv \<and> sv_serverState sv' = sv_serverState sv"

lemma same_state_simps [simp]:
  "same_state sv sv" "same_state sv (put_tables T sv)" "same_state sv (put_pollfd i p sv)"
  "same_state sv (put_revents r sv)"
  by (simp_all add: same_state_def put_tables_def put_pollfd_def put_revents_def split: prod.split)

lemma same_state_trans: "same_state a b \<Longrightarrow> same_state b c \<Longrightarrow> same_state a c"
  by (simp add: same_state_def)

lemma same_state_ops:
  "startTimeoutTimer now sd sv = Inr (sv', b) \<Longrightarrow> same_state sv sv'"
  "stopTimeoutTimer sd sv = (sv', b) \<Longrightarrow> same_state sv sv'"
  "removeFromActiveConnections P cur sd sv w = (b, sv', w') \<Longrightarrow> same_state sv sv'"
  "addToActiveConnections s sv = (sv', b) \<Longrightarrow> same_state sv sv'"
  "addToSocketList sd sv = Inr (sv', b) \<Longrightarrow> same_state sv sv'"
  "removeFromSocketList sd sv = Inr (sv', b) \<Longrightarrow> same_state sv sv'"
  by (auto simp: startTimeoutTimer_def stopTimeoutTimer_def removeFromActiveConnections_def
      addToActiveConnections_def addToSocketList_def removeFromSocketList_def bindR_Inr_iff Let_def
      split: prod.splits option.splits if_splits)
    (auto simp: same_state_def put_pollfd_def)

lemma same_state_add:
  assumes "addNewConnection P cur sd (sv, w) = Inr ((sv', w'), b)"
  shows "same_state sv sv'"
proof (cases "sv_socketListEmptyIndexSet sv = {}")
  case True
  with assms show ?thesis by (simp add: addNewConnection_def)
next
  case False
  obtain sv1 b1 where sv1: "addToSocketList sd sv = Inr (sv1, b1)"
    using assms False by (auto simp: addNewConnection_def bindR_Inr_iff Let_def)
  obtain sv2 b2 where sv2: "addToActiveConnections (server_socket sd sv) sv1 = (sv2, b2)"
    by (cases "addToActiveConnections (server_socket sd sv) sv1")
  have s: "same_state sv sv1" "same_state sv sv2"
    using same_state_ops(5) [OF sv1] same_state_ops(4) [OF sv2] same_state_trans by blast+
  show ?thesis
  proof (cases "b1 \<and> b2")
    case True
    with assms False sv1 sv2 obtain b3 where "startTimeoutTimer (sys_now P w) sd sv2 = Inr (sv', b3)"
      by (auto simp: addNewConnection_def bindR_Inr_iff)
    from same_state_trans [OF s(2) same_state_ops(1) [OF this]] show ?thesis .
  next
    case F: False
    with assms False sv1 sv2 have "sv' = sv1 \<or> sv' = sv2"
      by (auto simp: addNewConnection_def Let_def split: if_splits)
    with s show ?thesis by auto
  qed
qed

lemma same_state_data:
  assumes "server_newIncomingData P cur sd (sv, w) = Some (Inr ((sv', w'), b))"
  shows "same_state sv sv'"
proof (cases "sv_activeConnections sv sd")
  case (Some connection)
  obtain sv1 b1 where s: "stopTimeoutTimer sd sv = (sv1, b1)" by (cases "stopTimeoutTimer sd sv")
  obtain b2 c2 w2 where r: "readFromSocket P cur connection w = Some (b2, c2, w2)"
    using assms Some s by (cases "readFromSocket P cur connection w") (auto simp: server_newIncomingData_def)
  let ?sv = "sv1\<lparr>sv_activeConnections := (sv_activeConnections sv1)(sd \<mapsto> c2)\<rparr>"
  obtain b3 where "startTimeoutTimer (sys_now P w2) sd ?sv = Inr (sv', b3)"
    using assms Some s r by (auto simp: server_newIncomingData_def bindR_Inr_iff)
  then have "same_state ?sv sv'" by (rule same_state_ops)
  then show ?thesis using same_state_ops(2) [OF s] by (simp add: same_state_def)
qed (use assms in \<open>simp add: server_newIncomingData_def\<close>)

lemma same_state_closed:
  assumes "connectionClosed P cur sd (sv, w) = Inr ((sv', w'), b)"
  shows "same_state sv sv'"
proof -
  obtain sv1 b1 where sv1: "removeFromSocketList sd sv = Inr (sv1, b1)"
    using assms by (auto simp: connectionClosed_def bindR_Inr_iff)
  obtain sv2 b2 where sv2: "stopTimeoutTimer sd sv1 = (sv2, b2)" by (cases "stopTimeoutTimer sd sv1")
  obtain b3 where "removeFromActiveConnections P cur sd sv2 w = (b3, sv', w')"
    using assms sv1 sv2 by (auto simp: connectionClosed_def split: prod.splits)
  with sv1 sv2 same_state_ops same_state_trans show ?thesis by metis
qed

interpretation running: server_invariant P cur unstoppable for P :: "'w posix" and cur
proof
  fix sv sv' :: tcp_server and w w' :: 'w and sd b r
  show "unstoppable sv \<Longrightarrow> addNewConnection P cur sd (sv, w) = Inr ((sv', w'), b) \<Longrightarrow> unstoppable sv'"
    using same_state_add same_state_unstoppable unfolding same_state_def by metis
  show "unstoppable sv \<Longrightarrow> server_newIncomingData P cur sd (sv, w) = Some (Inr ((sv', w'), b)) \<Longrightarrow> unstoppable sv'"
    using same_state_data same_state_unstoppable unfolding same_state_def by metis
  show "unstoppable sv \<Longrightarrow> connectionClosed P cur sd (sv, w) = Inr ((sv', w'), b) \<Longrightarrow> unstoppable sv'"
    using same_state_closed same_state_unstoppable unfolding same_state_def by metis
qed (simp_all add: unstoppable_def put_revents_def)

lemma server_listen_ok:
  assumes "server_listen P port address sv w = Inr (True, sv', w')"
  shows "\<exists>sd a w1 r w2. sys_bind P sd a w1 = (r, w2) \<and> 0 \<le> r \<and> listen_address P address port = Some a \<and>
    sv' = sv\<lparr>sv_serverState := STARTING, sv_serverSD := sd, sv_running := True, sv_threadJoinable := True\<rparr>"
proof -
  obtain sd w1 where s: "sys_socket P w = (sd, w1)" by (cases "sys_socket P w")
  obtain r2 w2 where o: "sys_setsockopt P sd w1 = (r2, w2)" by (cases "sys_setsockopt P sd w1")
  obtain fl w3 where f: "sys_fcntl_getfl P sd w2 = (fl, w3)" by (cases "sys_fcntl_getfl P sd w2")
  obtain r4 w4 where g: "sys_fcntl_setfl_nonblock P sd fl w3 = (r4, w4)" by (cases "sys_fcntl_setfl_nonblock P sd fl w3")
  obtain a where a: "listen_address P address port = Some a"
    using assms s o f g by (auto simp: server_listen_def Let_def split: if_splits option.splits)
  obtain r5 w5 where b: "sys_bind P sd a w4 = (r5, w5)" by (cases "sys_bind P sd a w4")
  obtain r6 w6 where l: "sys_listen P sd (sv_maxConnectionSize sv) w5 = (r6, w6)"
    by (cases "sys_listen P sd (sv_maxConnectionSize sv) w5")
  show ?thesis
    by (rule exI [of _ sd], rule exI [of _ a], rule exI [of _ w4], rule exI [of _ r5], rule exI [of _ w5])
      (use assms s o f g a b l in \<open>auto simp: server_listen_def Let_def split: if_splits\<close>)
qed

lemma run_start_fields:
  "run_start sv = Inr sv' \<Longrightarrow> sv_running sv' = sv_running sv \<and> sv_serverState sv' = sv_serverState sv \<and>
   sv_socketFdIndexMap sv' = sv_socketFdIndexMap sv"
  by (auto simp: run_start_def Let_def split: if_splits)

end
