(* ===== verification/TcpServerProperties.thy ===== *)
theory TcpServerProperties
  imports TcpServerInvariants
begin

text \<open>
  The properties of the server: its tables, accepting, connections closed by their peers,
  stopping, addresses, hang-ups and timeouts, with the scripted server of the witnesses.
\<close>

subsection \<open>The tables\<close>

text \<open>
  C7. However many rounds the thread of a server has run and whatever clients did, every
  registered descriptor has its own place in the socket list, inside its bounds, behind the
  listening socket and not among the free ones, and the list holds that descriptor there.
\<close>

theorem server_tables_sound:
  assumes "server_listen P port address (new_server n timeout bufSize parent) w = Inr (True, sv, w1)"
    and "server_run P cur k (sv, w1) = Some (Inr (sv', w2))"
  shows "\<exists>l. sv_socketList sv' = Some l \<and> sv_socketListEmptyIndexSet sv' \<subseteq> {1..<length l} \<and>
    inj_on (map_of (sv_socketFdIndexMap sv')) (dom (map_of (sv_socketFdIndexMap sv'))) \<and>
    (\<forall>fd i. map_of (sv_socketFdIndexMap sv') fd = Some i \<longrightarrow>
      0 < i \<and> i < length l \<and> i \<notin> sv_socketListEmptyIndexSet sv' \<and> pf_fd (l ! i) = fd)"
proof -
  have f: "sv_socketFdIndexMap sv = []" "sv_socketListEmptyIndexSet sv = {}"
    using server_listen_ok [OF assms(1)] by (auto simp: new_server_def)
  obtain sv0 where sv0: "run_start sv = Inr sv0" "server_loop P cur k (sv0, w1) = Some (Inr (sv', w2))"
    using assms(2) by (auto simp: server_run_def bindO_Inr)
  have ok: "tables_ok sv'" using tables.loop_keeps [OF sv0(2)] run_start_ok [OF sv0(1) f] by simp
  have "inj_on (map_of (sv_socketFdIndexMap sv')) (dom (map_of (sv_socketFdIndexMap sv')))"
    using tables_ok_inj [OF ok] by (auto simp: inj_on_def)
  then show ?thesis by (rule_tac tables_okE [OF ok]) blast
qed

text \<open>A scripted run: one client connects, sends a message, and is closed by its peer.\<close>

definition poll_script :: "(int \<times> (nat \<Rightarrow> 16 word)) \<Rightarrow> script posix" where
  "poll_script r = script_posix\<lparr>sys_poll := (\<lambda>_ w. (r, w))\<rparr>"

definition listening_script :: script where
  "listening_script = script_start\<lparr>sc_results := [3, 0, 0, 0, 0, 0, 5, - 1]\<rparr>"

definition accept_poll :: "int \<times> (nat \<Rightarrow> 16 word)" where
  "accept_poll = (1, \<lambda>i. if i = 0 then POLLIN else 0)"

definition demo_server :: tcp_server where
  "demo_server = (new_server 3 1000 0 None)\<lparr>sv_serverState := STARTING, sv_serverSD := 3,
     sv_running := True, sv_threadJoinable := True\<rparr>"

lemma demo_listen:
  "server_listen (poll_script accept_poll) 80 [] (new_server 3 1000 0 None) listening_script =
     Inr (True, demo_server, script_start\<lparr>sc_results := [5, - 1]\<rparr>)"
  by (simp add: server_listen_def listen_address_def poll_script_def script_posix_def next_result_def
      listening_script_def script_start_def new_server_def demo_server_def Let_def)

subsection \<open>Accepting connections\<close>

definition clock_ok :: "'w posix \<Rightarrow> tcp_server \<Rightarrow> bool" where
  "clock_ok P sv \<longleftrightarrow> (\<forall>w. \<exists>e. expires (sys_now P w) (sv_connectionTimeout sv) = Inr e)"

lemma startTimeoutTimer_ok:
  assumes "clock_ok P sv"
  obtains sv' where "startTimeoutTimer (sys_now P w) sd sv = Inr (sv', True)" "same_tables sv sv'"
    "same_state sv sv'" "sv_activeConnections sv' = sv_activeConnections sv"
    "sv_connectionTimeout sv' = sv_connectionTimeout sv" "sv_parent sv' = sv_parent sv"
    "sv_readBufferSize sv' = sv_readBufferSize sv"
proof -
  obtain e where "expires (sys_now P w) (sv_connectionTimeout sv) = Inr e"
    using assms by (auto simp: clock_ok_def)
  then obtain t i where "addTimer (sys_now P w) (sv_connectionTimeout sv) False (sv_timer sv) = (t, Inr i)"
    by (auto simp: addTimer_def Let_def)
  then have "\<exists>T. startTimeoutTimer (sys_now P w) sd sv = Inr (put_tables T sv, True)"
    by (auto simp: startTimeoutTimer_def start_entry_def server_tables_def)
  then obtain T where "startTimeoutTimer (sys_now P w) sd sv = Inr (put_tables T sv, True)" ..
  then show thesis
    by (rule that) (simp_all, simp_all add: put_tables_def split: prod.split)
qed

lemma addNewConnection_ok:
  assumes "tables_ok sv" "sv_socketListEmptyIndexSet sv \<noteq> {}" "sv_activeConnections sv sd = None"
    and "clock_ok P sv"
  obtains sv' i where "addNewConnection P cur sd (sv, w) = Inr ((sv', w), True)" "tables_ok sv'"
    "i \<in> sv_socketListEmptyIndexSet sv" "sv_socketListEmptyIndexSet sv' = sv_socketListEmptyIndexSet sv - {i}"
    "sv_socketFdIndexMap sv' = map_set (sv_socketFdIndexMap sv) sd i"
    "dom (sv_activeConnections sv') = insert sd (dom (sv_activeConnections sv))"
    "same_state sv sv'" "sv_connectionTimeout sv' = sv_connectionTimeout sv" "sv_serverSD sv' = sv_serverSD sv"
proof -
  obtain l i where i: "i \<in> sv_socketListEmptyIndexSet sv"
    "addToSocketList sd sv = Inr (sv\<lparr>sv_socketList := Some l,
       sv_socketFdIndexMap := map_set (sv_socketFdIndexMap sv) sd i,
       sv_socketListEmptyIndexSet := sv_socketListEmptyIndexSet sv - {i}\<rparr>, True)"
    "tables_ok (sv\<lparr>sv_socketList := Some l, sv_socketFdIndexMap := map_set (sv_socketFdIndexMap sv) sd i,
       sv_socketListEmptyIndexSet := sv_socketListEmptyIndexSet sv - {i}\<rparr>)"
    by (rule addToSocketList_ok [OF assms(1,2)])
  let ?s = "server_socket sd sv"
  let ?sv = "sv\<lparr>sv_socketList := Some l, sv_socketFdIndexMap := map_set (sv_socketFdIndexMap sv) sd i,
       sv_socketListEmptyIndexSet := sv_socketListEmptyIndexSet sv - {i},
       sv_activeConnections := (sv_activeConnections sv)(sd \<mapsto> ?s)\<rparr>"
  have sd: "socketDescriptor ?s = sd"
    by (simp add: server_socket_def socketDescriptor_def new_socket_def new_default_size_def
        setReadBufferSize_def Let_def)
  have "clock_ok P ?sv" using assms(4) by (simp add: clock_ok_def)
  then obtain sv' where sv': "startTimeoutTimer (sys_now P w) sd ?sv = Inr (sv', True)" "same_tables ?sv sv'"
    "same_state ?sv sv'" "sv_activeConnections sv' = sv_activeConnections ?sv"
    "sv_connectionTimeout sv' = sv_connectionTimeout ?sv" "sv_parent sv' = sv_parent ?sv"
    "sv_readBufferSize sv' = sv_readBufferSize ?sv"
    by (rule startTimeoutTimer_ok)
  show thesis
  proof (rule that [of sv' i])
    show "addNewConnection P cur sd (sv, w) = Inr ((sv', w), True)"
      using assms(2,3) i(2) sd sv'(1)
      by (simp add: addNewConnection_def addToActiveConnections_def Let_def)
    have "tables_ok ?sv" using i(3) by (simp add: tables_ok_def)
    then show "tables_ok sv'" using same_tables_ok [OF sv'(2)] by simp
    show "i \<in> sv_socketListEmptyIndexSet sv" by (rule i(1))
    show "dom (sv_activeConnections sv') = insert sd (dom (sv_activeConnections sv))"
      using sv'(4) by simp
  qed (use sv'(2,3,5) in \<open>simp_all add: same_tables_def same_state_def\<close>)
qed

text \<open>The operating system accepts the connections \<open>fds\<close>, then has no more.\<close>

fun sys_accepts :: "'w posix \<Rightarrow> int \<Rightarrow> 'w \<Rightarrow> int list \<Rightarrow> 'w \<Rightarrow> bool" where
  "sys_accepts P sd w [] w' \<longleftrightarrow> sys_accept P sd w = (- 1, w')"
| "sys_accepts P sd w (fd # fds) w' \<longleftrightarrow>
     fst (sys_accept P sd w) = fd \<and> 0 < fd \<and> sys_accepts P sd (snd (sys_accept P sd w)) fds w'"

lemma accept_loop_fills:
  assumes "sys_accepts P (sv_serverSD sv) w fds w'" "tables_ok sv" "sv_running sv" "clock_ok P sv" "distinct fds"
    and "\<forall>fd \<in> set fds. sv_activeConnections sv fd = None"
  shows "\<exists>sv'. accept_loop P cur (sv, w) = Some (Inr ((sv', w'), True)) \<and>
    dom (sv_activeConnections sv') =
      dom (sv_activeConnections sv) \<union> set (take (card (sv_socketListEmptyIndexSet sv)) fds) \<and>
    dom (map_of (sv_socketFdIndexMap sv')) =
      dom (map_of (sv_socketFdIndexMap sv)) \<union> set (take (card (sv_socketListEmptyIndexSet sv)) fds) \<and>
    card (sv_socketListEmptyIndexSet sv') = card (sv_socketListEmptyIndexSet sv) - length fds"
  using assms
proof (induction fds arbitrary: sv w)
  case Nil
  have "\<exists>p. pollfd_at sv 0 = Inr p \<and> pf_fd p = sv_serverSD sv"
    using Nil.prems(2) by (rule tables_okE) (auto simp: pollfd_at_def)
  with Nil.prems show ?case by (subst accept_loop.simps) auto
next
  case (Cons fd fds)
  obtain p where p: "pollfd_at sv 0 = Inr p" "pf_fd p = sv_serverSD sv"
    using Cons.prems(2) by (rule tables_okE) (auto simp: pollfd_at_def)
  obtain w1 where w1: "sys_accept P (sv_serverSD sv) w = (fd, w1)" "0 < fd"
    "sys_accepts P (sv_serverSD sv) w1 fds w'"
    using Cons.prems(1) by (cases "sys_accept P (sv_serverSD sv) w") auto
  have fin: "finite (sv_socketListEmptyIndexSet sv)"
    using Cons.prems(2) by (rule tables_okE) (meson finite_atLeastLessThan finite_subset)
  have srt: "sorted_keys (sv_socketFdIndexMap sv)" using Cons.prems(2) by (rule tables_okE)
  let ?E = "sv_socketListEmptyIndexSet sv"
  have loop: "accept_loop P cur (sv, w) = accept_loop P cur st"
    if "addNewConnection P cur fd (sv, w1) = Inr (st, b)" for st b
    using Cons.prems(3) p w1 that by (subst accept_loop.simps) simp
  show ?case
  proof (cases "?E = {}")
    case True
    then have "addNewConnection P cur fd (sv, w1) = Inr ((sv, w1), False)" by (simp add: addNewConnection_def)
    from loop [OF this] Cons.IH [OF w1(3) Cons.prems(2-4)] Cons.prems(5,6) True show ?thesis by simp
  next
    case False
    have "sv_activeConnections sv fd = None" using Cons.prems(6) by simp
    then obtain sv1 i where sv1: "addNewConnection P cur fd (sv, w1) = Inr ((sv1, w1), True)" "tables_ok sv1"
      "i \<in> ?E" "sv_socketListEmptyIndexSet sv1 = ?E - {i}"
      "sv_socketFdIndexMap sv1 = map_set (sv_socketFdIndexMap sv) fd i"
      "dom (sv_activeConnections sv1) = insert fd (dom (sv_activeConnections sv))"
      "same_state sv sv1" "sv_connectionTimeout sv1 = sv_connectionTimeout sv" "sv_serverSD sv1 = sv_serverSD sv"
      by (rule addNewConnection_ok [OF Cons.prems(2) False _ Cons.prems(4)])
    have card: "card ?E = Suc (card (sv_socketListEmptyIndexSet sv1))"
      using sv1(3,4) fin by (metis card_Suc_Diff1)
    have "sys_accepts P (sv_serverSD sv1) w1 fds w'" using w1(3) sv1(9) by simp
    moreover have "sv_running sv1" using sv1(7) Cons.prems(3) by (simp add: same_state_def)
    moreover have "clock_ok P sv1" using sv1(8) Cons.prems(4) by (simp add: clock_ok_def)
    moreover have "\<forall>g \<in> set fds. sv_activeConnections sv1 g = None"
      using sv1(6) Cons.prems(5,6) by (metis distinct.simps(2) domIff insert_iff list.set_intros(2))
    ultimately obtain sv' where sv': "accept_loop P cur (sv1, w1) = Some (Inr ((sv', w'), True))"
      "dom (sv_activeConnections sv') = dom (sv_activeConnections sv1) \<union> set (take (card (sv_socketListEmptyIndexSet sv1)) fds)"
      "dom (map_of (sv_socketFdIndexMap sv')) = dom (map_of (sv_socketFdIndexMap sv1)) \<union> set (take (card (sv_socketListEmptyIndexSet sv1)) fds)"
      "card (sv_socketListEmptyIndexSet sv') = card (sv_socketListEmptyIndexSet sv1) - length fds"
      using Cons.IH [of sv1 w1] sv1(2) Cons.prems(5) by auto
    show ?thesis
      using loop [OF sv1(1)] sv' sv1(5,6) card srt by (intro exI [of _ sv']) simp
  qed
qed

text \<open>
  C32. A call of \<^verbatim>\<open>acceptNewConnections\<close> takes every waiting connection from the operating
  system, but registers only as many as there are free places: the others are neither
  registered nor closed, and nothing refers to them any more.
\<close>

theorem accept_drops_overflow:
  assumes "tables_ok sv" "sv_running sv" "sv_socketListEmptyIndexSet sv \<noteq> {}"
    and "sys_accepts P (sv_serverSD sv) w fds w'" "distinct fds"
    and "\<forall>fd \<in> set fds. sv_activeConnections sv fd = None"
    and "\<forall>w. \<exists>e. expires (sys_now P w) (sv_connectionTimeout sv) = Inr e"
    and "k = card (sv_socketListEmptyIndexSet sv)"
  shows "\<exists>sv'. acceptNewConnections P cur (sv, w) = Some (Inr ((sv', w'), True)) \<and>
    dom (sv_activeConnections sv') = dom (sv_activeConnections sv) \<union> set (take k fds) \<and>
    dom (map_of (sv_socketFdIndexMap sv')) = dom (map_of (sv_socketFdIndexMap sv)) \<union> set (take k fds) \<and>
    card (sv_socketListEmptyIndexSet sv') = k - length fds"
  using accept_loop_fills [OF assms(4,1,2) _ assms(5,6), of cur] assms(3,7,8)
  by (simp add: acceptNewConnections_def clock_ok_def)


subsection \<open>Connections closed by their peers\<close>

text \<open>
  C31. When the peer closes a connection, the socket closes its descriptor, but the server
  keeps the descriptor in all its tables.  As soon as the operating system hands out the same
  descriptor again, the new connection is closed and refused, and one place of the socket
  list is lost: it is neither free nor does any descriptor refer to it.
\<close>

theorem peer_close_loses_descriptor:
  assumes "tables_ok sv" "map_of (sv_socketFdIndexMap sv) sd \<noteq> None"
    and "sv_activeConnections sv sd = Some s" "ts_socketD s = sd" "ts_connectionStatus s = CONNECTED"
    and "socket_getThreadId cur s = cur" "getThreadId cur (br_object (sv_parent sv)) = cur"
    and "sys_recv P sd 1024 w = (Some [], w1)" "sys_close P sd w1 = (0, w2)"
    and "\<forall>w. \<exists>e. expires (sys_now P w) (sv_connectionTimeout sv) = Inr e"
    and "sv_socketListEmptyIndexSet sv \<noteq> {}"
  shows "\<exists>sv1 s1. server_newIncomingData P cur sd (sv, w) = Some (Inr ((sv1, w2), True)) \<and>
    sv_activeConnections sv1 sd = Some s1 \<and> ts_connectionStatus s1 = NOT_CONNECTED \<and>
    (\<forall>v. \<exists>sv2. addNewConnection P cur sd (sv1, v) = Inr ((sv2, snd (sys_close P sd v)), False) \<and>
      sv_activeConnections sv2 = sv_activeConnections sv1 \<and>
      dom (map_of (sv_socketFdIndexMap sv2)) = dom (map_of (sv_socketFdIndexMap sv)) \<and>
      Suc (card (sv_socketListEmptyIndexSet sv2)) = card (sv_socketListEmptyIndexSet sv))"
proof -
  obtain sv0 b0 where sv0: "stopTimeoutTimer sd sv = (sv0, b0)" by (cases "stopTimeoutTimer sd sv")
  have f0: "same_tables sv sv0" "sv_activeConnections sv0 = sv_activeConnections sv"
    "sv_connectionTimeout sv0 = sv_connectionTimeout sv" "sv_parent sv0 = sv_parent sv"
    "sv_readBufferSize sv0 = sv_readBufferSize sv"
    using sv0 by (auto simp: stopTimeoutTimer_def put_tables_def same_tables_def split: prod.splits)
  let ?s1 = "emit_signal sig_disconnected (s\<lparr>ts_connectionStatus := NOT_CONNECTED\<rparr>)"
  have "read_loop P cur 0 s w = Some (0, ?s1, w2)"
    using assms(4-6,8,9)
    by (subst read_loop.simps) (simp add: INCOMING_DATA_SIZE_def socket_disconnect_def connectionStatus_def)
  then have r: "readFromSocket P cur s w = Some (True, ?s1, w2)"
    using assms(5) by (simp add: readFromSocket_def connectionStatus_def)
  let ?sv = "sv0\<lparr>sv_activeConnections := (sv_activeConnections sv0)(sd \<mapsto> ?s1)\<rparr>"
  have "clock_ok P ?sv" using assms(10) f0(3) by (simp add: clock_ok_def)
  then obtain sv1 where sv1: "startTimeoutTimer (sys_now P w2) sd ?sv = Inr (sv1, True)" "same_tables ?sv sv1"
    "same_state ?sv sv1" "sv_activeConnections sv1 = sv_activeConnections ?sv"
    "sv_connectionTimeout sv1 = sv_connectionTimeout ?sv" "sv_parent sv1 = sv_parent ?sv"
    "sv_readBufferSize sv1 = sv_readBufferSize ?sv"
    by (rule startTimeoutTimer_ok)
  have in1: "server_newIncomingData P cur sd (sv, w) = Some (Inr ((sv1, w2), True))"
    using assms(3) sv0 r sv1(1) by (simp add: server_newIncomingData_def)
  have t1: "same_tables sv sv1" using f0(1) sv1(2) by (simp add: same_tables_def)
  then have E: "tables_ok sv1" "sv_socketListEmptyIndexSet sv1 = sv_socketListEmptyIndexSet sv"
    "sv_socketFdIndexMap sv1 = sv_socketFdIndexMap sv"
    using same_tables_ok [OF t1] assms(1) by (simp_all add: same_tables_def)
  have a1: "sv_activeConnections sv1 sd = Some ?s1" using sv1(4) by simp
  have second: "\<exists>sv2. addNewConnection P cur sd (sv1, v) = Inr ((sv2, snd (sys_close P sd v)), False) \<and>
      sv_activeConnections sv2 = sv_activeConnections sv1 \<and>
      dom (map_of (sv_socketFdIndexMap sv2)) = dom (map_of (sv_socketFdIndexMap sv)) \<and>
      Suc (card (sv_socketListEmptyIndexSet sv2)) = card (sv_socketListEmptyIndexSet sv)" for v
  proof -
    have ne: "sv_socketListEmptyIndexSet sv1 \<noteq> {}" using E(2) assms(11) by simp
    obtain l i where i: "i \<in> sv_socketListEmptyIndexSet sv1"
      "addToSocketList sd sv1 = Inr (sv1\<lparr>sv_socketList := Some l,
         sv_socketFdIndexMap := map_set (sv_socketFdIndexMap sv1) sd i,
         sv_socketListEmptyIndexSet := sv_socketListEmptyIndexSet sv1 - {i}\<rparr>, True)"
      "tables_ok (sv1\<lparr>sv_socketList := Some l, sv_socketFdIndexMap := map_set (sv_socketFdIndexMap sv1) sd i,
         sv_socketListEmptyIndexSet := sv_socketListEmptyIndexSet sv1 - {i}\<rparr>)"
      by (rule addToSocketList_ok [OF E(1) ne])
    let ?sv2 = "sv1\<lparr>sv_socketList := Some l, sv_socketFdIndexMap := map_set (sv_socketFdIndexMap sv1) sd i,
         sv_socketListEmptyIndexSet := sv_socketListEmptyIndexSet sv1 - {i}\<rparr>"
    let ?n = "server_socket sd sv1"
    have n: "socketDescriptor ?n = sd" "ts_socketD ?n = sd" "ts_connectionStatus ?n = CONNECTED"
      "ts_parent ?n = Some (br_object (sv_parent sv))"
      using sv1(6) f0(4)
      by (simp_all add: server_socket_def socketDescriptor_def new_socket_def new_default_size_def
          setReadBufferSize_def Let_def)
    then have d: "snd (destroy_socket P cur ?n v) = snd (sys_close P sd v)"
      using assms(7)
      by (auto simp: destroy_socket_def socket_disconnect_def connectionStatus_def socket_getThreadId_def
          Let_def split: prod.split)
    have "addNewConnection P cur sd (sv1, v) = Inr ((?sv2, snd (sys_close P sd v)), False)"
      using ne i(2) n(1) d a1 by (simp add: addNewConnection_def addToActiveConnections_def Let_def)
    moreover have "dom (map_of (sv_socketFdIndexMap ?sv2)) = dom (map_of (sv_socketFdIndexMap sv))"
    proof -
      have "sorted_keys (sv_socketFdIndexMap sv1)" using E(1) by (rule tables_okE)
      then show ?thesis using E(3) assms(2) by auto
    qed
    moreover have "finite (sv_socketListEmptyIndexSet sv1)"
      using E(1) by (rule tables_okE) (meson finite_atLeastLessThan finite_subset)
    then have "Suc (card (sv_socketListEmptyIndexSet ?sv2)) = card (sv_socketListEmptyIndexSet sv)"
      using i(1) E(2) by (simp add: card_Suc_Diff1 del: card_Diff_insert)
    ultimately show ?thesis by (intro exI [of _ ?sv2]) simp
  qed
  show ?thesis
    using in1 a1 second by (intro exI [of _ sv1] exI [of _ ?s1]) (simp add: emit_signal_def)
qed

text \<open>The scripted server behind \<^verbatim>\<open>run_start\<close>, and with one connection.\<close>

definition demo_started :: tcp_server where
  "demo_started = demo_server\<lparr>sv_socketList := Some [empty_pollfd 3, empty_pollfd (- 1), empty_pollfd (- 1)],
     sv_socketListEmptyIndexSet := {1, 2}\<rparr>"

definition demo_timer :: combined_timer where
  "demo_timer = \<lparr>ct_lastTimerId = 1, ct_timeKeeperMap =
     [(0, \<lparr>td_periodic = False, td_id = 0, td_duration = 1000, td_expirationDate = 1000000000\<rparr>)],
     ct_stopped = False, ct_timeout = []\<rparr>"

definition demo_connected :: tcp_server where
  "demo_connected = demo_server\<lparr>sv_serverState := PROCESSING,
     sv_socketList := Some [(empty_pollfd 3)\<lparr>pf_revents := POLLIN\<rparr>, empty_pollfd 5, empty_pollfd (- 1)],
     sv_socketListEmptyIndexSet := {2}, sv_socketFdIndexMap := [(5, 1)],
     sv_timer := demo_timer, sv_socketFdTimerIdMap := [5 \<mapsto> 0], sv_timerIdSocketFdMap := [0 \<mapsto> 5],
     sv_activeConnections := [5 \<mapsto> new_default_size 5 CONNECTED (Some (br_object None))]\<rparr>"

lemma demo_run_start: "run_start demo_server = Inr demo_started"
proof -
  have "{Suc 0..<3} = {1, 2::nat}" by auto
  moreover have "replicate 2 x = [x, x]" for x :: pollfd by (simp add: numeral_2_eq_2)
  ultimately show ?thesis
    by (simp add: run_start_def demo_started_def demo_server_def new_server_def Let_def)
qed

lemma demo_tables_ok: "tables_ok demo_started" "tables_ok demo_connected"
  by (simp_all add: tables_ok_def demo_started_def demo_connected_def demo_server_def new_server_def
      empty_pollfd_def nth_Cons')

lemma demo_process:
  "processSockets (poll_script accept_poll) 0
     (put_revents (snd accept_poll) demo_started, script_start\<lparr>sc_results := [5, - 1]\<rparr>) =
   Some (Inr ((demo_connected, script_start\<lparr>sc_results := []\<rparr>), True))"
proof -
  let ?P = "poll_script accept_poll"
  let ?s0 = "(put_revents (snd accept_poll) demo_started)\<lparr>sv_serverState := PROCESSING\<rparr>"
  let ?w0 = "script_start\<lparr>sc_results := [5, - 1]\<rparr>" and ?w1 = "script_start\<lparr>sc_results := [- 1]\<rparr>"
  have add: "addNewConnection ?P 0 5 (?s0, ?w1) = Inr ((demo_connected, ?w1), True)"
    by (simp add: addNewConnection_def addToSocketList_def addToActiveConnections_def startTimeoutTimer_def
        start_entry_def server_tables_def put_tables_def addTimer_def expires_def start_def stop_def
        in_int64_def server_socket_def socketDescriptor_def new_socket_def new_default_size_def
        setReadBufferSize_def pollfd_at_def put_pollfd_def put_revents_def
        demo_started_def demo_connected_def demo_server_def new_server_def new_timer_def demo_timer_def
        empty_pollfd_def poll_script_def script_posix_def script_start_def accept_poll_def Let_def upt_rec)
  have "accept_loop ?P 0 (?s0, ?w0) = accept_loop ?P 0 (demo_connected, ?w1)"
    using add
    by (subst accept_loop.simps)
      (simp add: pollfd_at_def put_revents_def demo_started_def demo_server_def new_server_def
        empty_pollfd_def poll_script_def script_posix_def next_result_def)
  also have "\<dots> = Some (Inr ((demo_connected, script_start\<lparr>sc_results := []\<rparr>), True))"
    by (subst accept_loop.simps)
      (simp add: pollfd_at_def demo_connected_def demo_server_def new_server_def
        empty_pollfd_def poll_script_def script_posix_def next_result_def)
  finally have acc: "accept_loop ?P 0 (?s0, ?w0) = Some (Inr ((demo_connected, script_start\<lparr>sc_results := []\<rparr>), True))" .
  have "pollfd_at ?s0 0 = Inr ((empty_pollfd 3)\<lparr>pf_revents := POLLIN\<rparr>)" "sv_socketListEmptyIndexSet ?s0 \<noteq> {}"
    "pollfd_at demo_connected 1 = Inr (empty_pollfd 5)" "sv_socketFdIndexMap demo_connected = [(5, 1)]"
    by (simp_all add: pollfd_at_def put_revents_def demo_started_def demo_server_def new_server_def
        demo_connected_def accept_poll_def empty_pollfd_def)
  with acc show ?thesis
    by (simp add: processSockets_def listening_event_def acceptNewConnections_def empty_pollfd_def)
qed

lemma demo_run:
  "server_run (poll_script accept_poll) 0 1 (demo_server, script_start\<lparr>sc_results := [5, - 1]\<rparr>) =
     Some (Inr (demo_connected, script_start\<lparr>sc_results := []\<rparr>))"
proof -
  have "(put_revents (snd accept_poll) (demo_started\<lparr>sv_serverState := LISTENING\<rparr>))\<lparr>sv_serverState := PROCESSING\<rparr> =
      (put_revents (snd accept_poll) demo_started)\<lparr>sv_serverState := PROCESSING\<rparr>"
    by (simp add: put_revents_def)
  then have "processSockets (poll_script accept_poll) 0
     (put_revents (snd accept_poll) (demo_started\<lparr>sv_serverState := LISTENING\<rparr>), script_start\<lparr>sc_results := [5, - 1]\<rparr>) =
   Some (Inr ((demo_connected, script_start\<lparr>sc_results := []\<rparr>), True))"
    using demo_process by (simp add: processSockets_def)
  moreover have "sv_running demo_started" by (simp add: demo_started_def demo_server_def)
  ultimately have "server_round (poll_script accept_poll) 0 (demo_started, script_start\<lparr>sc_results := [5, - 1]\<rparr>) =
      Some (Inr ((demo_connected, script_start\<lparr>sc_results := []\<rparr>), True))"
    by (simp add: server_round_def poll_script_def accept_poll_def Let_def)
  with \<open>sv_running demo_started\<close> show ?thesis by (simp add: server_run_def demo_run_start)
qed

theorem server_tables_sound_witness:
  "\<exists>l. sv_socketList demo_connected = Some l \<and> map_of (sv_socketFdIndexMap demo_connected) 5 = Some 1 \<and>
     pf_fd (l ! 1) = 5"
proof -
  have "map_of (sv_socketFdIndexMap demo_connected) 5 = Some 1" by (simp add: demo_connected_def)
  with server_tables_sound [OF demo_listen demo_run] show ?thesis by metis
qed

text \<open>The scripted operating system with its clock standing still.\<close>

definition still_posix :: "script posix" where
  "still_posix = script_posix\<lparr>sys_now := (\<lambda>_. 0)\<rparr>"

lemma still_clock:
  "\<forall>w. \<exists>e. expires (sys_now still_posix w) (sv_connectionTimeout demo_started) = Inr e"
  "\<forall>w. \<exists>e. expires (sys_now still_posix w) (sv_connectionTimeout demo_connected) = Inr e"
  by (simp_all add: still_posix_def expires_def in_int64_def demo_started_def demo_connected_def
      demo_server_def new_server_def)

theorem accept_drops_overflow_witness:
  "\<exists>sv' w'. acceptNewConnections still_posix 0 (demo_started, script_start\<lparr>sc_results := [5, 6, 7]\<rparr>) =
     Some (Inr ((sv', w'), True)) \<and> dom (sv_activeConnections sv') = {5, 6} \<and>
     card (sv_socketListEmptyIndexSet sv') = 0 \<and> sc_closed w' = []"
proof -
  let ?w = "script_start\<lparr>sc_results := [5, 6, 7]\<rparr>"
  have "sv_running demo_started" "sv_socketListEmptyIndexSet demo_started \<noteq> {}"
    "sys_accepts still_posix (sv_serverSD demo_started) ?w [5, 6, 7] (script_start\<lparr>sc_results := []\<rparr>)"
    "distinct [5, 6, 7 :: int]" "\<forall>fd \<in> set [5, 6, 7]. sv_activeConnections demo_started fd = None"
    by (simp_all add: demo_started_def demo_server_def new_server_def still_posix_def script_posix_def
        next_result_def)
  from accept_drops_overflow [OF demo_tables_ok(1) this still_clock(1) refl, of 0]
  show ?thesis
    by (auto simp: demo_started_def demo_server_def new_server_def script_start_def)
qed

theorem peer_close_loses_descriptor_witness:
  "\<exists>sv1 w1 sv2 w2. server_newIncomingData still_posix 0 5 (demo_connected, script_start\<lparr>sc_received := [Some []]\<rparr>) =
       Some (Inr ((sv1, w1), True)) \<and> sc_closed w1 = [5] \<and>
     addNewConnection still_posix 0 5 (sv1, w1) = Inr ((sv2, w2), False) \<and> sc_closed w2 = [5, 5] \<and>
     card (sv_socketListEmptyIndexSet sv2) = 0"
proof -
  let ?s = "new_default_size 5 CONNECTED (Some (br_object None))"
  let ?w = "script_start\<lparr>sc_received := [Some []]\<rparr>" and ?w2 = "script_start\<lparr>sc_closed := [5]\<rparr>"
  have "map_of (sv_socketFdIndexMap demo_connected) 5 \<noteq> None" "sv_activeConnections demo_connected 5 = Some ?s"
    "ts_socketD ?s = 5" "ts_connectionStatus ?s = CONNECTED" "socket_getThreadId 0 ?s = 0"
    "getThreadId 0 (br_object (sv_parent demo_connected)) = 0"
    "sys_recv still_posix 5 1024 ?w = (Some [], script_start)" "sys_close still_posix 5 script_start = (0, ?w2)"
    by (simp_all add: demo_connected_def demo_server_def new_server_def still_posix_def script_posix_def
        next_received_def script_start_def new_default_size_def new_socket_def setReadBufferSize_def
        socket_getThreadId_def)
  note h = this
  have "sv_socketListEmptyIndexSet demo_connected \<noteq> {}" by (simp add: demo_connected_def)
  from peer_close_loses_descriptor [OF demo_tables_ok(2) h still_clock(2) this]
  obtain sv1 sv2 where "server_newIncomingData still_posix 0 5 (demo_connected, ?w) = Some (Inr ((sv1, ?w2), True))"
    "addNewConnection still_posix 0 5 (sv1, ?w2) = Inr ((sv2, snd (sys_close still_posix 5 ?w2)), False)"
    "Suc (card (sv_socketListEmptyIndexSet sv2)) = card (sv_socketListEmptyIndexSet demo_connected)"
    by meson
  moreover have "sc_closed (snd (sys_close still_posix 5 ?w2)) = [5, 5]"
    by (simp add: still_posix_def script_posix_def)
  moreover have "card (sv_socketListEmptyIndexSet demo_connected) = 1" by (simp add: demo_connected_def)
  moreover have "sc_closed ?w2 = [5]" by simp
  ultimately show ?thesis by (metis nat.inject One_nat_def)
qed

subsection \<open>Stopping\<close>

text \<open>
  C30. A server that has been made to listen cannot be stopped: after any number of rounds,
  whatever clients did, \<^verbatim>\<open>stop\<close> changes nothing and returns false, and so does
  \<^verbatim>\<open>waitForFinished\<close>.
\<close>

theorem running_server_cannot_stop:
  assumes "server_listen P port address sv0 w = Inr (True, sv, w1)"
    and "server_run P cur k (sv, w1) = Some (Inr (sv', w2))"
  shows "server_stop sv' = (False, sv') \<and> waitForFinished sv' = (False, sv') \<and> sv_running sv'"
proof -
  have "unstoppable sv" using server_listen_ok [OF assms(1)] by (auto simp: unstoppable_def)
  moreover obtain sv1 where sv1: "run_start sv = Inr sv1" "server_loop P cur k (sv1, w1) = Some (Inr (sv', w2))"
    using assms(2) by (auto simp: server_run_def bindO_Inr)
  ultimately have "unstoppable sv1" using run_start_fields [OF sv1(1)] same_state_unstoppable by metis
  then have "unstoppable sv'" using running.loop_keeps [OF sv1(2)] by simp
  then show ?thesis by (auto simp: unstoppable_def server_stop_def waitForFinished_def)
qed

theorem running_server_cannot_stop_witness:
  "server_stop demo_connected = (False, demo_connected) \<and> sv_running demo_connected"
  using running_server_cannot_stop [OF demo_listen demo_run] by simp

subsection \<open>Addresses\<close>

text \<open>
  The address given to \<^verbatim>\<open>listen\<close> is never the one the server listens on.  With a string
  that is no address the call does exactly what it does without one, that is, listen on every
  interface with the port in network byte order; with a valid address it never succeeds.
\<close>

theorem listen_ignores_address:
  assumes "address \<noteq> []"
  shows "case sys_inet_pton P address of
      None \<Rightarrow> server_listen P port address sv w = server_listen P port [] sv w \<and>
        listen_address P address port = Some \<lparr>sin_family = AF_INET, sin_port = htons port, sin_addr = INADDR_ANY\<rparr>
    | Some a \<Rightarrow> \<nexists>sv' w'. server_listen P port address sv w = Inr (True, sv', w')"
proof (cases "sys_inet_pton P address")
  case None
  have "listen_address P address port = listen_address P [] port"
    "listen_address P [] port = Some \<lparr>sin_family = AF_INET, sin_port = htons port, sin_addr = INADDR_ANY\<rparr>"
    using None assms by (simp_all add: listen_address_def INADDR_ANY_def Let_def)
  moreover from this have "server_listen P port address sv w = server_listen P port [] sv w"
    unfolding server_listen_def by (simp only:)
  ultimately show ?thesis using None by simp
next
  case (Some a)
  have "listen_address P address port = None"
    using Some assms by (simp add: listen_address_def Let_def)
  moreover have "listen_address P address port \<noteq> None" if "server_listen P port address sv w = Inr (True, sv', w')" for sv' w'
    using server_listen_ok [OF that] by auto
  ultimately show ?thesis using Some by auto
qed

theorem listen_ignores_address_witness:
  "(\<nexists>sv' w'. server_listen script_posix 80 ''127.0.0.1'' (new_default_server None) listening_script = Inr (True, sv', w')) \<and>
   server_listen script_posix 80 ''nowhere'' (new_default_server None) listening_script =
     server_listen script_posix 80 [] (new_default_server None) listening_script"
proof -
  have "sys_inet_pton script_posix ''127.0.0.1'' = Some 0x0100007F" "sys_inet_pton script_posix ''nowhere'' = None"
    by (simp_all add: script_posix_def)
  with listen_ignores_address [of "''127.0.0.1''" script_posix 80 "new_default_server None" listening_script]
    listen_ignores_address [of "''nowhere''" script_posix 80 "new_default_server None" listening_script]
  show ?thesis by simp
qed

text \<open>
  A \<open>TcpSocket\<close> dials the port in host byte order, a server listens in network byte order:
  given the same number they agree on the port only if its two bytes are the same, and the
  address dialled never has the family of the address listened on.
\<close>

theorem dialled_port:
  assumes "listen_address P [] port = Some a"
  shows "(sin_port (connect_address P address port) = sin_port a \<longleftrightarrow> drop_bit 8 port = take_bit 8 port) \<and>
    sin_family (connect_address P address port) \<noteq> sin_family a"
proof -
  have a: "a = \<lparr>sin_family = AF_INET, sin_port = htons port, sin_addr = INADDR_ANY\<rparr>"
    using assms by (simp add: listen_address_def Let_def)
  have bit_sw: "bit (htons port) n \<longleftrightarrow> n < 16 \<and> bit port (if n < 8 then n + 8 else n - 8)" for n
  proof (cases "n < 8")
    case False
    then have "\<not> bit port (n + 8)" using bit_imp_le_length [of port "n + 8"] by auto
    with False show ?thesis by (auto simp: htons_def bit_simps add.commute [of 8] dest: bit_imp_le_length)
  qed (simp add: htons_def bit_simps add.commute [of 8])
  have "port = htons port \<longleftrightarrow> drop_bit 8 port = take_bit 8 port"
  proof
    assume eq: "port = htons port"
    show "drop_bit 8 port = take_bit 8 port"
    proof (rule bit_word_eqI)
      fix n assume "n < LENGTH(16)"
      have eqn: "bit port n = bit (htons port) n" using eq by simp
      show "bit (drop_bit 8 port) n = bit (take_bit 8 port) n"
      proof (cases "n < 8")
        case True
        with eqn bit_sw [of n] show ?thesis by (simp add: bit_simps add.commute [of 8])
      next
        case False
        then have "\<not> bit port (n + 8)" using bit_imp_le_length [of port "n + 8"] by auto
        with False show ?thesis by (simp add: bit_simps add.commute [of 8])
      qed
    qed
  next
    assume eq: "drop_bit 8 port = take_bit 8 port"
    have b: "bit port (n + 8) \<longleftrightarrow> n < 8 \<and> bit port n" for n
      using arg_cong [OF eq, of "\<lambda>x. bit x n"] bit_imp_le_length [of port "n + 8"]
      by (cases "n < 8") (auto simp: bit_simps add.commute [of 8])
    show "port = htons port"
    proof (rule bit_word_eqI)
      fix n assume "n < LENGTH(16)"
      show "bit port n = bit (htons port) n"
        using bit_sw [of n] b [of n] b [of "n - 8"] \<open>n < LENGTH(16)\<close> by (auto split: if_splits)
    qed
  qed
  with a show ?thesis by (simp add: connect_address_def AF_INET_def)
qed

theorem dialled_port_witness:
  "sin_port (connect_address script_posix ''127.0.0.1'' 8080) \<noteq> htons 8080"
proof -
  have "listen_address script_posix [] 8080 = Some \<lparr>sin_family = AF_INET, sin_port = htons 8080, sin_addr = INADDR_ANY\<rparr>"
    by (simp add: listen_address_def Let_def)
  moreover have "drop_bit 8 (8080 :: 16 word) \<noteq> take_bit 8 8080" by simp
  ultimately show ?thesis using dialled_port by fastforce
qed

subsection \<open>Hang-ups\<close>

lemma pollfd_at_tables:
  "tables_ok sv \<Longrightarrow> (fd, i) \<in> set (sv_socketFdIndexMap sv) \<Longrightarrow>
   \<exists>l. sv_socketList sv = Some l \<and> pollfd_at sv i = Inr (l ! i) \<and> pf_fd (l ! i) = fd"
proof -
  assume a: "tables_ok sv" "(fd, i) \<in> set (sv_socketFdIndexMap sv)"
  obtain l where l: "sv_socketList sv = Some l" "sorted_keys (sv_socketFdIndexMap sv)"
    "\<forall>fd i. map_of (sv_socketFdIndexMap sv) fd = Some i \<longrightarrow>
        0 < i \<and> i < length l \<and> i \<notin> sv_socketListEmptyIndexSet sv \<and> pf_fd (l ! i) = fd"
    using a(1) unfolding tables_ok_def by blast
  have "map_of (sv_socketFdIndexMap sv) fd = Some i"
    using a(2) sorted_keys_distinct [OF l(2)] by simp
  with l show ?thesis by (auto simp: pollfd_at_def)
qed

lemma connectionClosed_unregisters:
  assumes "tables_ok sv" "(fd, i) \<in> set (sv_socketFdIndexMap sv)"
  obtains sv' w' where "connectionClosed P cur fd (sv, w) = Inr ((sv', w'), True)"
    "map_of (sv_socketFdIndexMap sv') fd = None" "sv_activeConnections sv' fd = None"
    "i \<in> sv_socketListEmptyIndexSet sv'"
proof -
  have srt: "sorted_keys (sv_socketFdIndexMap sv)" using assms(1) by (auto simp: tables_ok_def)
  have "map_of (sv_socketFdIndexMap sv) fd = Some i"
    using assms(2) sorted_keys_distinct [OF srt] by simp
  then obtain l where r: "removeFromSocketList fd sv = Inr (sv\<lparr>sv_socketList := Some l,
       sv_socketListEmptyIndexSet := insert i (sv_socketListEmptyIndexSet sv),
       sv_socketFdIndexMap := map_erase (sv_socketFdIndexMap sv) fd\<rparr>, True)"
    using removeFromSocketList_ok [OF assms(1)] by metis
  let ?sv1 = "sv\<lparr>sv_socketList := Some l,
       sv_socketListEmptyIndexSet := insert i (sv_socketListEmptyIndexSet sv),
       sv_socketFdIndexMap := map_erase (sv_socketFdIndexMap sv) fd\<rparr>"
  obtain sv2 b2 where s2: "stopTimeoutTimer fd ?sv1 = (sv2, b2)" by (cases "stopTimeoutTimer fd ?sv1")
  obtain b3 sv3 w3 where s3: "removeFromActiveConnections P cur fd sv2 w = (b3, sv3, w3)"
    by (metis prod.collapse)
  have "same_tables ?sv1 sv3" using same_tables_stop [OF s2] same_tables_remove_active [OF s3]
    by (rule same_tables_trans)
  moreover have "sv_activeConnections sv3 fd = None"
    using s3 by (auto simp: removeFromActiveConnections_def split: option.splits)
  moreover have "connectionClosed P cur fd (sv, w) = Inr ((sv3, w3), True)"
    using r s2 s3 by (simp add: connectionClosed_def)
  ultimately show thesis using srt by (intro that [of sv3 w3]) (simp_all add: same_tables_def)
qed

lemma process_idle:
  assumes "tables_ok (fst st)" "set its \<subseteq> set (sv_socketFdIndexMap (fst st))"
    and "\<forall>(fd, i) \<in> set its. \<forall>p. pollfd_at (fst st) i = Inr p \<longrightarrow> pf_revents p = 0"
  shows "process_clients P cur (its @ its') st = process_clients P cur its' st"
  using assms(2,3)
proof (induction its)
  case (Cons it its)
  obtain fd i where it: "it = (fd, i)" by (cases it)
  with Cons.prems pollfd_at_tables [OF assms(1), of fd i] obtain p where
    "pollfd_at (fst st) i = Inr p" "pf_fd p = fd" by auto
  with Cons it show ?case by simp
qed simp



subsection \<open>Timeouts\<close>

text \<open>
  C34. Incoming data restart the timeout of the connection: exactly one timer of it runs
  afterwards, and the two maps agree on it.  If its old timer has already expired, the entry of
  the old identifier stays behind for ever.
\<close>

theorem incoming_data_restarts_timer:
  assumes "server_newIncomingData P cur sd (sv, w) = Some (Inr ((sv', w'), b))"
    and "sv_activeConnections sv sd \<noteq> None"
  shows "\<exists>i. sv_socketFdTimerIdMap sv' = (sv_socketFdTimerIdMap sv)(sd \<mapsto> i) \<and>
    sv_timerIdSocketFdMap sv' i = Some sd \<and>
    active_timers (sv_timer sv') = insert i (active_timers (sv_timer sv) - set_option (sv_socketFdTimerIdMap sv sd)) \<and>
    (\<forall>old. sv_socketFdTimerIdMap sv sd = Some old \<and> old \<noteq> i \<longrightarrow>
       sv_timerIdSocketFdMap sv' old =
         (if old \<in> active_timers (sv_timer sv) then None else sv_timerIdSocketFdMap sv old))"
proof -
  from assms(2) obtain c where c: "sv_activeConnections sv sd = Some c" by blast
  obtain b1 T where s: "stop_entry stopTimer sd (server_tables sv) = (b1, T)"
    by (cases "stop_entry stopTimer sd (server_tables sv)")
  let ?sv1 = "put_tables T sv"
  obtain b2 c2 w2 where r: "readFromSocket P cur c w = Some (b2, c2, w2)"
    using assms(1) c s by (cases "readFromSocket P cur c w") (auto simp: server_newIncomingData_def stopTimeoutTimer_def)
  let ?sv2 = "?sv1\<lparr>sv_activeConnections := (sv_activeConnections ?sv1)(sd \<mapsto> c2)\<rparr>"
  have "\<exists>b3. startTimeoutTimer (sys_now P w2) sd ?sv2 = Inr (sv', b3)"
    using assms(1) c s r by (auto simp: server_newIncomingData_def stopTimeoutTimer_def bindR_Inr_iff)
  then obtain T2 where T2: "start_entry (addTimer (sys_now P w2) (sv_connectionTimeout ?sv2) False) sd (server_tables ?sv2) = Inr T2"
    "sv' = put_tables T2 ?sv2"
    by (auto simp: startTimeoutTimer_def bindR_Inr_iff)
  have "server_tables ?sv2 = T"
    by (cases T) (simp add: server_tables_def put_tables_def)
  then obtain t' m' n' where st: "start_entry (addTimer (sys_now P w2) (sv_connectionTimeout ?sv2) False) sd T = Inr (t', m', n')"
    "sv' = put_tables (t', m', n') ?sv2"
    using T2 by (cases T2) auto
  from ct.restart_entry [OF s [unfolded server_tables_def] st(1)] show ?thesis
    using st(2) by (simp add: put_tables_def split: prod.split)
qed

theorem incoming_data_restarts_timer_witness:
  "\<exists>sv' w' i. server_newIncomingData still_posix 0 5 (demo_connected, script_start) = Some (Inr ((sv', w'), True)) \<and>
     active_timers (sv_timer sv') = {i} \<and> sv_socketFdTimerIdMap sv' = [5 \<mapsto> i]"
proof -
  let ?s = "new_default_size 5 CONNECTED (Some (br_object None))"
  obtain sv0 b0 where sv0: "stopTimeoutTimer 5 demo_connected = (sv0, b0)" by (cases "stopTimeoutTimer 5 demo_connected")
  have a: "sv_activeConnections demo_connected 5 = Some ?s" by (simp add: demo_connected_def)
  have "\<exists>b s. readFromSocket still_posix 0 ?s script_start = Some (b, s, script_start)"
    by (simp add: readFromSocket_def new_default_size_def new_socket_def setReadBufferSize_def connectionStatus_def,
        subst read_loop.simps)
      (simp add: still_posix_def script_posix_def next_received_def script_start_def INCOMING_DATA_SIZE_def Let_def,
        rule exI [of _ True], simp)
  then obtain b s where r: "readFromSocket still_posix 0 ?s script_start = Some (b, s, script_start)" by blast
  let ?sv = "sv0\<lparr>sv_activeConnections := (sv_activeConnections sv0)(5 \<mapsto> s)\<rparr>"
  have "sv_connectionTimeout sv0 = sv_connectionTimeout demo_connected"
    using sv0 by (auto simp: stopTimeoutTimer_def put_tables_def split: prod.splits)
  then have "clock_ok still_posix ?sv" using still_clock(2) by (simp add: clock_ok_def)
  then obtain sv' where "startTimeoutTimer (sys_now still_posix script_start) 5 ?sv = Inr (sv', True)"
    by (rule startTimeoutTimer_ok)
  then have n: "server_newIncomingData still_posix 0 5 (demo_connected, script_start) = Some (Inr ((sv', script_start), True))"
    using a sv0 r by (simp add: server_newIncomingData_def)
  have d: "active_timers (sv_timer demo_connected) = {0}" "sv_socketFdTimerIdMap demo_connected = [5 \<mapsto> 0]"
    by (simp_all add: demo_connected_def demo_timer_def active_timers_def)
  from incoming_data_restarts_timer [OF n] a d n show ?thesis by fastforce
qed

end
