(* ===== verification/TcpServerService.thy ===== *)
theory TcpServerService
  imports TcpServerProperties
begin

text \<open>
  What a round of the poll loop means to the connections: \<open>serve\<close> reads each socket that has data,
  in the order of the descriptors, and \<^verbatim>\<open>processSockets\<close> with all its tables and timers is shown to
  do that and nothing else.
\<close>

fun serve :: "'w posix \<Rightarrow> thread_id \<Rightarrow> (int \<times> bool) list \<Rightarrow> (int \<rightharpoonup> tcp_socket) \<times> 'w \<Rightarrow>
    ((int \<rightharpoonup> tcp_socket) \<times> 'w) option" where
  "serve P cur [] st = Some st"
| "serve P cur ((fd, readable) # rs) (C, w) =
     (if readable then
        (case C fd of
           None \<Rightarrow> serve P cur rs (C, w)
         | Some s \<Rightarrow>
             (case readFromSocket P cur s w of
                None \<Rightarrow> None
              | Some (b, s, w) \<Rightarrow> serve P cur rs (C(fd \<mapsto> s), w)))
      else serve P cur rs (C, w))"

definition readable_fds :: "pollfd list \<Rightarrow> (int \<times> nat) list \<Rightarrow> (int \<times> bool) list" where
  "readable_fds l its = map (\<lambda>(fd, i). (fd, pf_revents (l ! i) AND POLLIN = POLLIN)) its"

lemma readable_fds_simps [simp]:
  "readable_fds l [] = []"
  "readable_fds l ((fd, i) # its) = (fd, pf_revents (l ! i) AND POLLIN = POLLIN) # readable_fds l its"
  by (simp_all add: readable_fds_def)

text \<open>Only readable sockets are touched.\<close>

lemma serve_others:
  "serve P cur rs (C, w) = Some (C', w') \<Longrightarrow> (fd, True) \<notin> set rs \<Longrightarrow> C' fd = C fd"
proof (induction rs arbitrary: C w)
  case (Cons r rs)
  obtain g b where r: "r = (g, b)" by (cases r)
  show ?case
  proof (cases "b \<and> C g \<noteq> None")
    case True
    then obtain s where s: "b" "C g = Some s" by blast
    obtain b1 s1 w1 where rd: "readFromSocket P cur s w = Some (b1, s1, w1)"
      using Cons.prems(1) r s by (cases "readFromSocket P cur s w") auto
    have "serve P cur rs (C(g \<mapsto> s1), w1) = Some (C', w')" using Cons.prems(1) r s rd by simp
    moreover have "fd \<noteq> g" using Cons.prems(2) r s by auto
    ultimately show ?thesis using Cons.IH Cons.prems(2) by fastforce
  next
    case False
    with Cons.prems r have "serve P cur rs (C, w) = Some (C', w')" by (auto split: if_splits)
    with Cons show ?thesis by simp
  qed
qed simp

definition served :: "'w posix \<Rightarrow> int set \<Rightarrow> tcp_server \<Rightarrow> (int \<rightharpoonup> tcp_socket) \<Rightarrow> tcp_server \<Rightarrow> bool" where
  "served P fds sv C sv' \<longleftrightarrow> sv_activeConnections sv' = C \<and> same_tables sv sv' \<and> same_state sv sv' \<and>
     (clock_ok P sv \<longrightarrow> clock_ok P sv') \<and>
     (\<forall>fd. fd \<notin> fds \<longrightarrow> sv_socketFdTimerIdMap sv' fd = sv_socketFdTimerIdMap sv fd)"

lemma served_refl: "served P fds sv (sv_activeConnections sv) sv"
  by (simp add: served_def)

lemma served_trans:
  "served P fds sv C sv1 \<Longrightarrow> served P fds' sv1 C' sv2 \<Longrightarrow> served P (fds \<union> fds') sv C' sv2"
  using same_tables_trans same_state_trans unfolding served_def by (metis UnCI)

lemma stop_other_timer:
  assumes "stopTimeoutTimer sd sv = (sv', b)"
  shows "(fd \<noteq> sd \<longrightarrow> sv_socketFdTimerIdMap sv' fd = sv_socketFdTimerIdMap sv fd) \<and>
    sv_activeConnections sv' = sv_activeConnections sv \<and> sv_connectionTimeout sv' = sv_connectionTimeout sv"
  using assms
  by (auto simp: stopTimeoutTimer_def stop_entry_def server_tables_def put_tables_def
      split: prod.splits option.splits if_splits)

lemma start_other_timer:
  assumes "startTimeoutTimer now sd sv = Inr (sv', b)"
  shows "fd \<noteq> sd \<longrightarrow> sv_socketFdTimerIdMap sv' fd = sv_socketFdTimerIdMap sv fd"
  using assms
  by (auto simp: startTimeoutTimer_def start_entry_def server_tables_def put_tables_def bindR_Inr_iff
      split: prod.splits sum.splits)

lemma data_served:
  assumes "clock_ok P sv" "sv_activeConnections sv sd = Some s" "readFromSocket P cur s w = Some (b, s', w')"
  shows "\<exists>sv'. server_newIncomingData P cur sd (sv, w) = Some (Inr ((sv', w'), True)) \<and>
    served P {sd} sv ((sv_activeConnections sv)(sd \<mapsto> s')) sv'"
proof -
  obtain sv0 b0 where sv0: "stopTimeoutTimer sd sv = (sv0, b0)" by (cases "stopTimeoutTimer sd sv")
  let ?sv = "sv0\<lparr>sv_activeConnections := (sv_activeConnections sv0)(sd \<mapsto> s')\<rparr>"
  note f0 = stop_other_timer [OF sv0] same_tables_stop [OF sv0] same_state_ops(2) [OF sv0]
  have "clock_ok P ?sv" using assms(1) f0 by (simp add: clock_ok_def)
  then obtain sv1 where sv1: "startTimeoutTimer (sys_now P w') sd ?sv = Inr (sv1, True)" "same_tables ?sv sv1"
    "same_state ?sv sv1" "sv_activeConnections sv1 = sv_activeConnections ?sv"
    "sv_connectionTimeout sv1 = sv_connectionTimeout ?sv" "sv_parent sv1 = sv_parent ?sv"
    "sv_readBufferSize sv1 = sv_readBufferSize ?sv"
    by (rule startTimeoutTimer_ok)
  have "server_newIncomingData P cur sd (sv, w) = Some (Inr ((sv1, w'), True))"
    using assms(2,3) sv0 sv1(1) by (simp add: server_newIncomingData_def)
  moreover have "sv_socketFdTimerIdMap sv1 fd = sv_socketFdTimerIdMap sv fd" if "fd \<noteq> sd" for fd
    using start_other_timer [OF sv1(1), of fd] stop_other_timer [OF sv0, of fd] that by simp
  moreover have "same_tables sv sv1" using f0(2) sv1(2) by (simp add: same_tables_def)
  moreover have "same_state sv sv1" using f0(3) sv1(3) by (simp add: same_state_def)
  ultimately show ?thesis using f0(1) sv1(4,5) by (simp add: served_def clock_ok_def)
qed

lemma served_mono: "served P fds sv C sv' \<Longrightarrow> fds \<subseteq> fds' \<Longrightarrow> served P fds' sv C sv'"
  unfolding served_def by blast

definition quiet_hangups :: "pollfd list \<Rightarrow> (int \<times> nat) list \<Rightarrow> bool" where
  "quiet_hangups l its \<longleftrightarrow> (\<forall>(fd, i) \<in> set its. pf_revents (l ! i) AND POLLHUP \<noteq> POLLHUP)"

lemma clients_served:
  assumes "tables_ok sv" "clock_ok P sv" "sv_socketList sv = Some l"
    "set its \<subseteq> set (sv_socketFdIndexMap sv)" "quiet_hangups l its"
  shows "case serve P cur (readable_fds l its) (sv_activeConnections sv, w) of
      None \<Rightarrow> process_clients P cur its (sv, w) = None
    | Some (C', w') \<Rightarrow> \<exists>sv'. process_clients P cur its (sv, w) = Some (Inr ((sv', w'), True)) \<and>
        served P {fd. (fd, True) \<in> set (readable_fds l its)} sv C' sv'"
  using assms
proof (induction its arbitrary: sv w)
  case Nil
  then show ?case by (simp add: served_refl)
next
  case (Cons it its)
  obtain fd i where it: "it = (fd, i)" by (cases it)
  have m: "(fd, i) \<in> set (sv_socketFdIndexMap sv)" using Cons.prems(4) it by simp
  have p: "pollfd_at sv i = Inr (l ! i)" "pf_fd (l ! i) = fd"
    using pollfd_at_tables [OF Cons.prems(1) m] Cons.prems(3) by auto
  have hup: "pf_revents (l ! i) AND POLLHUP \<noteq> POLLHUP" "quiet_hangups l its"
    using Cons.prems(5) it by (auto simp: quiet_hangups_def)
  have known: "map_of (sv_socketFdIndexMap sv) fd \<noteq> None"
    using weak_map_of_SomeI [OF m] by auto
  have IH: "case serve P cur (readable_fds l its) (sv_activeConnections sv1, w1) of
      None \<Rightarrow> process_clients P cur its (sv1, w1) = None
    | Some (C', w') \<Rightarrow> \<exists>sv'. process_clients P cur its (sv1, w1) = Some (Inr ((sv', w'), True)) \<and>
        served P {fd. (fd, True) \<in> set (readable_fds l its)} sv1 C' sv'"
    if "tables_ok sv1" "clock_ok P sv1" "same_tables sv sv1" for sv1 w1
    using that Cons.prems(3,4) hup(2) by (intro Cons.IH) (simp_all add: same_tables_def)
  define R where "R = {fd. (fd, True) \<in> set (readable_fds l its)}"
  have close: "close_event P cur (l ! i) st = Some (Inr (st, False))" for st
    using hup(1) by (simp add: close_event_def)
  show ?case
  proof (cases "pf_revents (l ! i) AND POLLIN = POLLIN \<and> sv_activeConnections sv fd \<noteq> None")
    case False
    let ?rest = "process_clients P cur its (sv, w)"
    have "process_clients P cur (it # its) (sv, w) = ?rest"
      using False p close known it by (auto simp: data_event_def server_newIncomingData_def)
    moreover have "serve P cur (readable_fds l (it # its)) (sv_activeConnections sv, w) =
        serve P cur (readable_fds l its) (sv_activeConnections sv, w)"
      using False it by auto
    moreover have "R \<subseteq> {fd. (fd, True) \<in> set (readable_fds l (it # its))}" by (auto simp: R_def it)
    ultimately show ?thesis
      using IH [OF Cons.prems(1,2), of w] served_mono unfolding R_def by (fastforce split: option.splits)
  next
    case True
    then obtain s where s: "sv_activeConnections sv fd = Some s" by blast
    have ne: "pf_revents (l ! i) \<noteq> 0" using True by (auto simp: POLLIN_def)
    show ?thesis
    proof (cases "readFromSocket P cur s w")
      case None
      then have "process_clients P cur (it # its) (sv, w) = None"
        using p True ne it s by (simp add: data_event_def server_newIncomingData_def bindO_def)
      then show ?thesis using None True s it by simp
    next
      case (Some r)
      obtain b s1 w1 where r: "readFromSocket P cur s w = Some (b, s1, w1)" using Some by (cases r) auto
      obtain sv1 where sv1: "server_newIncomingData P cur fd (sv, w) = Some (Inr ((sv1, w1), True))"
        "served P {fd} sv ((sv_activeConnections sv)(fd \<mapsto> s1)) sv1"
        using data_served [OF Cons.prems(2) s r] by blast
      have f: "same_tables sv sv1" "clock_ok P sv1" "sv_activeConnections sv1 = (sv_activeConnections sv)(fd \<mapsto> s1)"
        using sv1(2) Cons.prems(2) by (simp_all add: served_def)
      have ok1: "tables_ok sv1" using same_tables_ok [OF f(1)] Cons.prems(1) by simp
      have p1: "pollfd_at sv1 i = Inr (l ! i)" "map_of (sv_socketFdIndexMap sv1) fd \<noteq> None"
        using p(1) known f(1) by (simp_all add: pollfd_at_def same_tables_def)
      have "process_clients P cur (it # its) (sv, w) = process_clients P cur its (sv1, w1)"
        using p p1 True ne it close sv1(1) by (auto simp: data_event_def)
      moreover have "serve P cur (readable_fds l (it # its)) (sv_activeConnections sv, w) =
          serve P cur (readable_fds l its) (sv_activeConnections sv1, w1)"
        using True s r it f(3) by simp
      moreover have "{fd. (fd, True) \<in> set (readable_fds l (it # its))} = {fd} \<union> R" using True it by (auto simp: R_def)
      ultimately show ?thesis
        using IH [OF ok1 f(2,1), of w1] served_trans [OF sv1(2)] unfolding R_def
        by (fastforce split: option.splits)
    qed
  qed
qed


definition two_clients :: tcp_server where
  "two_clients = demo_connected\<lparr>
     sv_socketList := Some [empty_pollfd 3, (empty_pollfd 5)\<lparr>pf_revents := POLLIN\<rparr>, empty_pollfd 6],
     sv_socketListEmptyIndexSet := {}, sv_socketFdIndexMap := [(5, 1), (6, 2)],
     sv_activeConnections := [5 \<mapsto> new_socket 5 CONNECTED 16 None, 6 \<mapsto> new_socket 6 CONNECTED 16 None]\<rparr>"


subsection \<open>Descriptors that are gone\<close>

lemma process_inert:
  assumes "tables_ok (fst st)" "set its \<subseteq> set (sv_socketFdIndexMap (fst st))"
    and "\<forall>(fd, i) \<in> set its. \<forall>p. pollfd_at (fst st) i = Inr p \<longrightarrow>
      pf_revents p AND POLLIN \<noteq> POLLIN \<and> pf_revents p AND POLLHUP \<noteq> POLLHUP"
  shows "process_clients P cur its st = Some (Inr (st, True))"
  using assms(2,3)
proof (induction its)
  case (Cons it its)
  obtain fd i where it: "it = (fd, i)" by (cases it)
  then have m: "(fd, i) \<in> set (sv_socketFdIndexMap (fst st))" using Cons.prems(1) by simp
  obtain p where p: "pollfd_at (fst st) i = Inr p" "pf_fd p = fd" using pollfd_at_tables [OF assms(1) m] by auto
  have "pf_revents p AND POLLIN \<noteq> POLLIN" "pf_revents p AND POLLHUP \<noteq> POLLHUP"
    using Cons.prems(2) it p(1) by auto
  then have "process_clients P cur (it # its) st = process_clients P cur its st"
    using it p weak_map_of_SomeI [OF m] by (auto simp: data_event_def close_event_def)
  with Cons show ?case by simp
qed simp

definition gone :: "nat \<Rightarrow> nat \<Rightarrow> 16 word" where
  "gone i = (\<lambda>j. if j = i then POLLNVAL else 0)"

definition stuck_at :: "tcp_server \<Rightarrow> tcp_server \<Rightarrow> bool" where
  "stuck_at sv sv' \<longleftrightarrow> tables_ok sv' \<and> sv_running sv' \<and> sv_socketFdIndexMap sv' = sv_socketFdIndexMap sv \<and>
     sv_activeConnections sv' = sv_activeConnections sv \<and>
     sv_socketListEmptyIndexSet sv' = sv_socketListEmptyIndexSet sv"

lemma gone_round:
  assumes "stuck_at sv sv'" "0 < i" "\<forall>l w. sys_poll P l w = ((1, gone i), w)"
  shows "\<exists>sv''. server_round P cur (sv', w) = Some (Inr ((sv'', w), True)) \<and> stuck_at sv sv''"
proof -
  let ?sv = "(put_revents (gone i) (sv'\<lparr>sv_serverState := LISTENING\<rparr>))\<lparr>sv_serverState := PROCESSING\<rparr>"
  have ok: "tables_ok ?sv"
    using assms(1) tables.listening tables.processing tables_ok_revents unfolding stuck_at_def by blast
  have at: "pf_revents p = gone i j" if "pollfd_at ?sv j = Inr p" for j p
    using that by (auto simp: pollfd_at_def put_revents_def split: option.splits if_splits)
  obtain p0 where p0: "pollfd_at ?sv 0 = Inr p0"
    using ok by (auto simp: pollfd_at_def tables_ok_def)
  then have "pf_revents p0 = 0" using at [OF p0] assms(2) by (simp add: gone_def)
  moreover have "process_clients P cur (sv_socketFdIndexMap ?sv) (?sv, w) = Some (Inr ((?sv, w), True))"
    by (rule process_inert) (use ok at in \<open>auto simp: gone_def POLLNVAL_def POLLIN_def POLLHUP_def\<close>)
  ultimately have "server_round P cur (sv', w) = Some (Inr ((?sv, w), True))"
    using assms(3) p0 by (simp add: server_round_def processSockets_def listening_event_def POLLIN_def)
  moreover have "stuck_at sv ?sv" using assms(1) ok by (simp add: stuck_at_def put_revents_def)
  ultimately show ?thesis by blast
qed

text \<open>
  A descriptor that has been closed while it stayed in the socket list (by its peer, or by
  its timeout) is never taken out of it: \<^verbatim>\<open>poll\<close> reports it as invalid at once, and in every
  round the server goes over its tables without changing anything, for as long as it runs.
\<close>

theorem invalid_descriptor_stays:
  assumes "tables_ok sv" "sv_running sv" "map_of (sv_socketFdIndexMap sv) fd = Some i"
    and "\<forall>l w. sys_poll P l w = ((1, \<lambda>j. if j = i then POLLNVAL else 0), w)"
  shows "\<exists>sv'. server_loop P cur k (sv, w) = Some (Inr (sv', w)) \<and> sv_running sv' \<and>
    map_of (sv_socketFdIndexMap sv') fd = Some i \<and> sv_activeConnections sv' = sv_activeConnections sv \<and>
    sv_socketListEmptyIndexSet sv' = sv_socketListEmptyIndexSet sv"
proof -
  have i: "0 < i" using assms(1,3) by (auto simp: tables_ok_def)
  have g: "\<forall>l w. sys_poll P l w = ((1, gone i), w)" using assms(4) by (simp add: gone_def)
  have "\<exists>sv'. server_loop P cur k (sv1, w) = Some (Inr (sv', w)) \<and> stuck_at sv sv'" if "stuck_at sv sv1" for sv1
    using that
  proof (induction k arbitrary: sv1)
    case (Suc k)
    obtain sv2 where sv2: "server_round P cur (sv1, w) = Some (Inr ((sv2, w), True))" "stuck_at sv sv2"
      using gone_round [OF Suc.prems i g] by blast
    have "sv_running sv1" using Suc.prems by (simp add: stuck_at_def)
    with sv2(1) Suc.IH [OF sv2(2)] show ?case by simp
  qed simp
  moreover have "stuck_at sv sv" using assms(1,2) by (simp add: stuck_at_def)
  ultimately show ?thesis using assms(3) unfolding stuck_at_def by metis
qed

theorem invalid_descriptor_stays_witness:
  "\<exists>sv'. server_loop (script_posix\<lparr>sys_poll := \<lambda>_ w. ((1, \<lambda>j. if j = 1 then POLLNVAL else 0), w)\<rparr>) 0 1000
       (two_clients\<lparr>sv_running := True\<rparr>, script_start) = Some (Inr (sv', script_start)) \<and>
     map_of (sv_socketFdIndexMap sv') 5 = Some 1"
proof -
  let ?sv = "two_clients\<lparr>sv_running := True\<rparr>"
  have "tables_ok ?sv" "sv_running ?sv" "map_of (sv_socketFdIndexMap ?sv) 5 = Some 1"
    by (simp_all add: two_clients_def tables_ok_def demo_connected_def demo_server_def new_server_def
        empty_pollfd_def nth_Cons')
  from invalid_descriptor_stays [OF this, of "script_posix\<lparr>sys_poll := \<lambda>_ w. ((1, \<lambda>j. if j = 1 then POLLNVAL else 0), w)\<rparr>"]
  show ?thesis by fastforce
qed

end
