(* ===== verification/TcpServerTimers.thy ===== *)
theory TcpServerTimers
  imports TcpServerService
begin

text \<open>
  The timeouts of a server.  The header calls its two maps complementary.  They are so in one
  direction only: \<open>timers_ok\<close> says that the identifier of a descriptor leads back to it and that every
  running timer belongs to an active connection, and it is kept by the operations of the server
  thread and by the timer thread as long as identifiers are left.
\<close>

definition timers_ok :: "tcp_server \<Rightarrow> bool" where
  "timers_ok sv \<longleftrightarrow>
     timers_linked active_timers issued_timers (dom (sv_activeConnections sv)) (server_tables sv)"

text \<open>What the two threads do to the timers.\<close>

inductive timeout_step :: "'w posix \<Rightarrow> thread_id \<Rightarrow> tcp_server \<Rightarrow> tcp_server \<Rightarrow> bool" for P cur where
  add: "timer_ids_left (sv_timer sv) \<Longrightarrow> addNewConnection P cur sd (sv, w) = Inr ((sv', w'), b) \<Longrightarrow>
    timeout_step P cur sv sv'"
| data: "timer_ids_left (sv_timer sv) \<Longrightarrow>
    server_newIncomingData P cur sd (sv, w) = Some (Inr ((sv', w'), b)) \<Longrightarrow> timeout_step P cur sv sv'"
| closed: "connectionClosed P cur sd (sv, w) = Inr ((sv', w'), b) \<Longrightarrow> timeout_step P cur sv sv'"
| stop_id: "stopTimeoutTimer_id i sv = (sv', b) \<Longrightarrow> timeout_step P cur sv sv'"
| timeout: "timeoutOnSocket P cur i sv w = (sv', w') \<Longrightarrow> timeout_step P cur sv sv'"
| fire: "run_round now (sv_timer sv) = Inr t \<Longrightarrow> timeout_step P cur sv (sv\<lparr>sv_timer := t\<rparr>)"

lemma put_tables_fields [simp]:
  "server_tables (put_tables T sv) = T"
  "sv_activeConnections (put_tables T sv) = sv_activeConnections sv"
  by (cases T, simp add: server_tables_def put_tables_def)+

lemma server_tables_update [simp]:
  "server_tables (sv\<lparr>sv_activeConnections := C\<rparr>) = server_tables sv"
  "server_tables (sv\<lparr>sv_socketList := l\<rparr>) = server_tables sv"
  "server_tables (sv\<lparr>sv_socketFdIndexMap := m\<rparr>) = server_tables sv"
  "server_tables (sv\<lparr>sv_socketListEmptyIndexSet := e\<rparr>) = server_tables sv"
  by (simp_all add: server_tables_def)

definition linked_for :: "int set \<Rightarrow> tcp_server \<Rightarrow> bool" where
  "linked_for K sv \<longleftrightarrow> timers_linked active_timers issued_timers K (server_tables sv)"

lemma stop_linked:
  assumes "linked_for K sv" "stopTimeoutTimer sd sv = (sv', b)"
  shows "linked_for (K - {sd}) sv' \<and> sv_activeConnections sv' = sv_activeConnections sv \<and>
    (timer_ids_left (sv_timer sv) \<longrightarrow> timer_ids_left (sv_timer sv'))"
proof -
  obtain t' m' n' where T: "stop_entry stopTimer sd (server_tables sv) = (b, (t', m', n'))" "sv' = put_tables (t', m', n') sv"
    using assms(2) by (cases "snd (stop_entry stopTimer sd (server_tables sv))")
      (auto simp: stopTimeoutTimer_def split: prod.splits)
  obtain t m n where S: "server_tables sv = (t, m, n)" by (cases "server_tables sv")
  then have t: "t = sv_timer sv" by (simp add: server_tables_def)
  have "timers_linked active_timers issued_timers (K - {sd}) (t', m', n')"
    using assms(1) T(1) unfolding linked_for_def S by (rule ctn.linked_stop)
  moreover have "ct_lastTimerId t' = ct_lastTimerId t"
    using T(1) unfolding S by (auto simp: stop_entry_def stopTimer_def start_def stop_def Let_def
        split: option.splits prod.splits if_splits)
  ultimately show ?thesis by (simp add: linked_for_def T(2) t) (simp add: put_tables_def timer_ids_left_def t)
qed

lemma start_linked:
  assumes "linked_for K sv" "sd \<notin> K" "timer_ids_left (sv_timer sv)" "startTimeoutTimer now sd sv = Inr (sv', b)"
  shows "linked_for (insert sd K) sv' \<and> sv_activeConnections sv' = sv_activeConnections sv"
proof -
  obtain t m n where S: "server_tables sv = (t, m, n)" "t = sv_timer sv"
    by (cases "server_tables sv") (simp add: server_tables_def)
  obtain t' m' n' where T: "start_entry (addTimer now (sv_connectionTimeout sv) False) sd (t, m, n) = Inr (t', m', n')"
    "sv' = put_tables (t', m', n') sv"
    using assms(4) S by (auto simp: startTimeoutTimer_def bindR_Inr_iff)
  have "timers_linked active_timers issued_timers (insert sd K) (t', m', n')"
    using assms(1) assms(2) assms(3) [folded S(2)] T(1) unfolding linked_for_def S(1) by (rule ctn.linked_start)
  then show ?thesis by (simp add: linked_for_def T(2))
qed

lemma linked_for_cong: "server_tables sv' = server_tables sv \<Longrightarrow> linked_for K sv' = linked_for K sv"
  by (simp add: linked_for_def)

lemma timers_ok_iff: "timers_ok sv \<longleftrightarrow> linked_for (dom (sv_activeConnections sv)) sv"
  by (simp add: timers_ok_def linked_for_def)

lemma addToSocketList_linked:
  "addToSocketList sd sv = Inr (sv', b) \<Longrightarrow> server_tables sv' = server_tables sv \<and>
     sv_activeConnections sv' = sv_activeConnections sv \<and> sv_timer sv' = sv_timer sv"
  by (auto simp: addToSocketList_def put_pollfd_def bindR_Inr_iff Let_def split: if_splits)

lemma removeFromSocketList_linked:
  "removeFromSocketList sd sv = Inr (sv', b) \<Longrightarrow> server_tables sv' = server_tables sv \<and>
     sv_activeConnections sv' = sv_activeConnections sv"
  by (auto simp: removeFromSocketList_def put_pollfd_def bindR_Inr_iff Let_def split: option.splits)

lemma timers_ok_add:
  assumes "timers_ok sv" "timer_ids_left (sv_timer sv)" "addNewConnection P cur sd (sv, w) = Inr ((sv', w'), b)"
  shows "timers_ok sv'"
proof (cases "sv_socketListEmptyIndexSet sv = {}")
  case True
  with assms(1,3) show ?thesis by (simp add: addNewConnection_def)
next
  case False
  obtain sv1 b1 where sv1: "addToSocketList sd sv = Inr (sv1, b1)"
    using assms(3) False by (auto simp: addNewConnection_def bindR_Inr_iff Let_def)
  note l1 = addToSocketList_linked [OF sv1]
  have ok1: "timers_ok sv1" using l1 assms(1) by (simp add: timers_ok_def)
  let ?s = "server_socket sd sv"
  have sd: "socketDescriptor ?s = sd"
    by (simp add: server_socket_def socketDescriptor_def new_socket_def new_default_size_def
        setReadBufferSize_def Let_def)
  show ?thesis
  proof (cases "b1 \<and> sv_activeConnections sv1 sd = None")
    case True
    let ?sv2 = "sv1\<lparr>sv_activeConnections := (sv_activeConnections sv1)(sd \<mapsto> ?s)\<rparr>"
    have "linked_for (dom (sv_activeConnections sv1)) ?sv2"
      using ok1 by (simp add: timers_ok_iff linked_for_def)
    moreover have "sd \<notin> dom (sv_activeConnections sv1)" "timer_ids_left (sv_timer ?sv2)"
      using True l1 assms(2) by auto
    moreover obtain b3 where "startTimeoutTimer (sys_now P w) sd ?sv2 = Inr (sv', b3)"
      using assms(3) False sv1 True sd by (auto simp: addNewConnection_def addToActiveConnections_def bindR_Inr_iff)
    ultimately have "linked_for (insert sd (dom (sv_activeConnections sv1))) sv' \<and>
        sv_activeConnections sv' = sv_activeConnections ?sv2" by (rule start_linked)
    then show ?thesis by (simp add: timers_ok_iff)
  next
    case F: False
    with assms(3) False sv1 sd have "sv' = sv1"
      by (auto simp: addNewConnection_def addToActiveConnections_def Let_def split: if_splits)
    with ok1 show ?thesis by simp
  qed
qed

lemma timers_ok_data:
  assumes "timers_ok sv" "timer_ids_left (sv_timer sv)"
    and "server_newIncomingData P cur sd (sv, w) = Some (Inr ((sv', w'), b))"
  shows "timers_ok sv'"
proof (cases "sv_activeConnections sv sd")
  case None
  with assms(1,3) show ?thesis by (simp add: server_newIncomingData_def)
next
  case (Some c)
  obtain sv1 b1 where s: "stopTimeoutTimer sd sv = (sv1, b1)" by (cases "stopTimeoutTimer sd sv")
  obtain b2 c2 w2 where r: "readFromSocket P cur c w = Some (b2, c2, w2)"
    using assms(3) Some s by (cases "readFromSocket P cur c w") (auto simp: server_newIncomingData_def)
  let ?K = "dom (sv_activeConnections sv)"
  let ?sv = "sv1\<lparr>sv_activeConnections := (sv_activeConnections sv1)(sd \<mapsto> c2)\<rparr>"
  have l1: "linked_for (?K - {sd}) sv1" "sv_activeConnections sv1 = sv_activeConnections sv" "timer_ids_left (sv_timer sv1)"
    using stop_linked [OF assms(1) [unfolded timers_ok_iff] s] assms(2) by simp_all
  have "linked_for (?K - {sd}) ?sv" using l1(1) by (simp add: linked_for_def)
  moreover have "sd \<notin> ?K - {sd}" "timer_ids_left (sv_timer ?sv)" using l1(3) by simp_all
  moreover obtain b3 where "startTimeoutTimer (sys_now P w2) sd ?sv = Inr (sv', b3)"
    using assms(3) Some s r by (auto simp: server_newIncomingData_def bindR_Inr_iff)
  ultimately have "linked_for (insert sd (?K - {sd})) sv' \<and> sv_activeConnections sv' = sv_activeConnections ?sv"
    by (rule start_linked)
  then show ?thesis using l1(2) by (simp add: timers_ok_iff)
qed

lemma timers_ok_closed:
  assumes "timers_ok sv" "connectionClosed P cur sd (sv, w) = Inr ((sv', w'), b)"
  shows "timers_ok sv'"
proof -
  obtain sv1 b1 where sv1: "removeFromSocketList sd sv = Inr (sv1, b1)"
    using assms by (auto simp: connectionClosed_def bindR_Inr_iff)
  obtain sv2 b2 where sv2: "stopTimeoutTimer sd sv1 = (sv2, b2)" by (cases "stopTimeoutTimer sd sv1")
  obtain b3 where sv3: "removeFromActiveConnections P cur sd sv2 w = (b3, sv', w')"
    using assms sv1 sv2 by (auto simp: connectionClosed_def split: prod.splits)
  let ?K = "dom (sv_activeConnections sv)"
  have "linked_for ?K sv1"
    using removeFromSocketList_linked [OF sv1] assms(1) by (simp add: timers_ok_iff linked_for_def)
  then have l: "linked_for (?K - {sd}) sv2" "sv_activeConnections sv2 = sv_activeConnections sv"
    using stop_linked [OF _ sv2] removeFromSocketList_linked [OF sv1] by simp_all
  have "server_tables sv' = server_tables sv2" "dom (sv_activeConnections sv') = ?K - {sd}"
    using sv3 l(2) by (auto simp: removeFromActiveConnections_def split: option.splits if_splits)
  with l(1) show ?thesis by (simp add: timers_ok_iff linked_for_def)
qed

lemma timers_ok_stop_id:
  assumes "timers_ok sv" "stopTimeoutTimer_id i sv = (sv', b)"
  shows "timers_ok sv'"
proof (cases "sv_timerIdSocketFdMap sv i")
  case None
  with assms show ?thesis by (simp add: stopTimeoutTimer_id_def)
next
  case (Some sd)
  obtain t b' where t: "stopTimer i (sv_timer sv) = (t, b')" by (cases "stopTimer i (sv_timer sv)")
  have "timers_linked active_timers issued_timers (dom (sv_activeConnections sv))
      (if b' then (t, (sv_socketFdTimerIdMap sv)(sd := None), (sv_timerIdSocketFdMap sv)(i := None))
       else (t, sv_socketFdTimerIdMap sv, sv_timerIdSocketFdMap sv))"
    using assms(1) Some t unfolding timers_ok_def server_tables_def by (rule ctn.linked_stop_id)
  moreover have "sv_activeConnections sv' = sv_activeConnections sv"
    "server_tables sv' = (if b' then (t, (sv_socketFdTimerIdMap sv)(sd := None), (sv_timerIdSocketFdMap sv)(i := None))
       else (t, sv_socketFdTimerIdMap sv, sv_timerIdSocketFdMap sv))"
    using assms(2) Some t by (auto simp: stopTimeoutTimer_id_def server_tables_def split: if_splits)
  ultimately show ?thesis by (simp add: timers_ok_def)
qed

lemma timers_ok_timeout:
  assumes "timers_ok sv" "timeoutOnSocket P cur i sv w = (sv', w')"
  shows "timers_ok sv'"
proof -
  have "server_tables sv' = server_tables sv" "dom (sv_activeConnections sv') = dom (sv_activeConnections sv)"
    using assms(2) by (auto simp: timeoutOnSocket_def split: option.splits prod.splits if_splits)
  with assms(1) show ?thesis by (simp add: timers_ok_def)
qed

lemma timers_ok_fire:
  assumes "timers_ok sv" "run_round now (sv_timer sv) = Inr t"
  shows "timers_ok (sv\<lparr>sv_timer := t\<rparr>)"
proof -
  have "timers_linked active_timers issued_timers (dom (sv_activeConnections sv))
      (t, sv_socketFdTimerIdMap sv, sv_timerIdSocketFdMap sv)"
    using assms(1) run_round_timers [OF assms(2), THEN conjunct1] run_round_timers [OF assms(2), THEN conjunct2]
    unfolding timers_ok_def server_tables_def by (rule ctn.linked_fired)
  then show ?thesis by (simp add: timers_ok_def server_tables_def)
qed

lemma timers_ok_step:
  assumes "timeout_step P cur sv sv'" "timers_ok sv"
  shows "timers_ok sv'"
  using assms
proof cases
  case add show ?thesis by (rule timers_ok_add [OF assms(2)]) fact+
next
  case data show ?thesis by (rule timers_ok_data [OF assms(2)]) fact+
next
  case closed show ?thesis by (rule timers_ok_closed [OF assms(2)]) fact+
next
  case stop_id show ?thesis by (rule timers_ok_stop_id [OF assms(2)]) fact+
next
  case timeout show ?thesis by (rule timers_ok_timeout [OF assms(2)]) fact+
next
  case fire then show ?thesis using timers_ok_fire [OF assms(2)] by simp
qed

lemma timers_ok_start: "run_start (new_server n timeout bufSize parent) = Inr sv \<Longrightarrow> timers_ok sv"
  by (auto simp: run_start_def new_server_def timers_ok_def timers_linked_def server_tables_def new_timer_def
      active_timers_def Let_def split: if_splits)

text \<open>
  C10. As long as timer identifiers are left, and whatever the server thread, the timer thread and a
  client that stops a timeout by its identifier do: the identifier stored for a descriptor leads back
  to that descriptor (the other map may also hold identifiers of timers that have expired), every
  running timer belongs to exactly one active connection, and so a connection has at most one.
  If \<^verbatim>\<open>timeoutOnSocket\<close> is called with the identifier of a connection, it disconnects that connection
  and no other; but nothing in the code connects the signal of the timer to it.
\<close>

theorem running_timers_linked:
  assumes "run_start (new_server n timeout bufSize parent) = Inr sv0" "(timeout_step P cur)\<^sup>*\<^sup>* sv0 sv"
  shows "(\<forall>fd i. sv_socketFdTimerIdMap sv fd = Some i \<longrightarrow> sv_timerIdSocketFdMap sv i = Some fd) \<and>
    (\<forall>i \<in> active_timers (sv_timer sv). \<exists>!fd. sv_activeConnections sv fd \<noteq> None \<and>
       sv_socketFdTimerIdMap sv fd = Some i \<and> sv_timerIdSocketFdMap sv i = Some fd) \<and>
    (\<forall>i fd s w. sv_socketFdTimerIdMap sv fd = Some i \<and> sv_activeConnections sv fd = Some s \<longrightarrow>
       timeoutOnSocket P cur i sv w =
         (case socket_disconnect P cur s w of (b, s', w') \<Rightarrow>
           (sv\<lparr>sv_activeConnections := (sv_activeConnections sv)(fd \<mapsto> s')\<rparr>, w')))"
proof -
  from assms(2) have "timers_ok sv"
  proof (induction rule: rtranclp_induct)
    case base
    then show ?case using assms(1) by (rule timers_ok_start)
  next
    case (step sv1 sv2)
    then show ?case by (metis timers_ok_step)
  qed
  then have l: "\<forall>fd i. sv_socketFdTimerIdMap sv fd = Some i \<longrightarrow> sv_timerIdSocketFdMap sv i = Some fd"
    "\<forall>i \<in> active_timers (sv_timer sv). \<exists>fd \<in> dom (sv_activeConnections sv). sv_socketFdTimerIdMap sv fd = Some i"
    by (simp_all add: timers_ok_def timers_linked_def server_tables_def)
  have "\<exists>!fd. sv_activeConnections sv fd \<noteq> None \<and>
       sv_socketFdTimerIdMap sv fd = Some i \<and> sv_timerIdSocketFdMap sv i = Some fd"
    if ia: "i \<in> active_timers (sv_timer sv)" for i
  proof -
    from bspec [OF l(2) ia] obtain fd where "fd \<in> dom (sv_activeConnections sv)" "sv_socketFdTimerIdMap sv fd = Some i"
      by (rule bexE)
    then have "sv_activeConnections sv fd \<noteq> None" "sv_socketFdTimerIdMap sv fd = Some i" by (simp_all add: domIff)
    with l(1) show ?thesis by (metis option.inject)
  qed
  moreover have "timeoutOnSocket P cur i sv w = (case socket_disconnect P cur s w of (b, s', w') \<Rightarrow>
      (sv\<lparr>sv_activeConnections := (sv_activeConnections sv)(fd \<mapsto> s')\<rparr>, w'))"
    if "sv_socketFdTimerIdMap sv fd = Some i" "sv_activeConnections sv fd = Some s" for i fd s w
    using l(1) that by (simp add: timeoutOnSocket_def)
  ultimately show ?thesis using l(1) by simp
qed

theorem running_timers_linked_witness:
  "\<exists>sv0 sv. run_start (new_server 3 1000 0 None) = Inr sv0 \<and> (timeout_step still_posix 0)\<^sup>*\<^sup>* sv0 sv \<and>
     dom (sv_activeConnections sv) = {5} \<and>
     (\<forall>i \<in> active_timers (sv_timer sv). \<exists>!fd. sv_activeConnections sv fd \<noteq> None \<and>
       sv_socketFdTimerIdMap sv fd = Some i \<and> sv_timerIdSocketFdMap sv i = Some fd)"
proof -
  obtain sv0 where sv0: "run_start (new_server 3 1000 0 None) = Inr sv0"
    by (simp add: run_start_def new_server_def Let_def)
  then have f: "sv_socketListEmptyIndexSet sv0 = {1..<3}" "sv_activeConnections sv0 = Map.empty"
    "sv_connectionTimeout sv0 = 1000" "sv_timer sv0 = new_timer"
    by (auto simp: run_start_def new_server_def Let_def)
  have "tables_ok sv0" by (rule run_start_ok [OF sv0]) (simp_all add: new_server_def)
  moreover have "sv_socketListEmptyIndexSet sv0 \<noteq> {}" "sv_activeConnections sv0 5 = None" using f by auto
  moreover have "clock_ok still_posix sv0"
    using f(3) by (simp add: clock_ok_def still_posix_def expires_def in_int64_def)
  ultimately obtain sv i where sv: "addNewConnection still_posix 0 5 (sv0, script_start) = Inr ((sv, script_start), True)"
    "tables_ok sv" "i \<in> sv_socketListEmptyIndexSet sv0" "sv_socketListEmptyIndexSet sv = sv_socketListEmptyIndexSet sv0 - {i}"
    "sv_socketFdIndexMap sv = map_set (sv_socketFdIndexMap sv0) 5 i"
    "dom (sv_activeConnections sv) = insert 5 (dom (sv_activeConnections sv0))"
    "same_state sv0 sv" "sv_connectionTimeout sv = sv_connectionTimeout sv0" "sv_serverSD sv = sv_serverSD sv0"
    by (rule addNewConnection_ok)
  have "timer_ids_left (sv_timer sv0)" by (simp add: f(4) new_timer_def timer_ids_left_def)
  from timeout_step.add [OF this sv(1)] have r: "(timeout_step still_posix 0)\<^sup>*\<^sup>* sv0 sv" ..
  from running_timers_linked [OF sv0 r] sv0 r sv(6) f(2) show ?thesis by auto
qed

end
