(* ===== verification/Threads.thy ===== *)
theory Threads
  imports Signals CombinedTimer
begin

text \<open>
  \<^verbatim>\<open>Thread/Thread\<close> and \<^verbatim>\<open>Thread/ThreadPool\<close>.  A \<open>Thread\<close> is a \<^verbatim>\<open>br_threaded_object\<close> with two
  signals and a slot in the store of \<open>Signals\<close>; a function is a number, and running it is
  logged as a \<open>UserCall\<close>.  The identifiers of a new thread, its signals and its slot are
  arguments of the operations that create one, \<open>cur\<close> is the thread that executes them.

  The keys of \<^verbatim>\<open>_timerId_threadId_map\<close> are \<^verbatim>\<open>int\<close>s made of \<^verbatim>\<open>int16_t\<close>s: the model keeps the timer
  identifiers themselves.  The two maps of threads are unordered: association lists in some
  order; live threads have distinct identifiers, so storing one never replaces another.
  \<^verbatim>\<open>_timerThreadMap\<close> is never used.
\<close>

datatype thread_arg = FunctionArg nat | ThreadIdArg thread_id

type_synonym thread_objects = "thread_arg objects"

subsection \<open>Thread\<close>

record thread =
  th_id :: thread_id
  th_finishedExecuting :: signal_id
  th_newExecutionReceived :: signal_id
  th_executor :: slot_id
  th_busy :: bool

definition new_signal :: "br_object option \<Rightarrow> signal" where
  "new_signal parent = \<lparr>sg_parent = parent, sg_directConnections = [], sg_queuedConnections = []\<rparr>"

definition new_thread ::
  "thread_id \<Rightarrow> thread_id \<Rightarrow> signal_id \<Rightarrow> signal_id \<Rightarrow> slot_id \<Rightarrow> thread_objects \<Rightarrow>
   (thread \<times> thread_objects) \<times> fault option" where
  "new_thread cur t finished newExecution executor w =
     (let this = Some (br_threaded_object t);
          th = \<lparr>th_id = t, th_finishedExecuting = finished, th_newExecutionReceived = newExecution,
                th_executor = executor, th_busy = True\<rparr>;
          w = start_thread t w;
          w = put_signal finished (new_signal this) w;
          w = put_signal newExecution (new_signal this) w;
          w = put_slot executor (new_slot False this) w
      in case andThen (setSlotFunction executor w) (connect cur newExecution executor Auto) of
           (w, e) \<Rightarrow> ((th, w), e))"

definition isBusy :: "thread \<Rightarrow> bool" where
  "isBusy th = th_busy th"

definition executor_slot ::
  "thread_id \<Rightarrow> nat \<Rightarrow> thread \<times> thread_objects \<Rightarrow> (thread \<times> thread_objects) \<times> fault option" where
  "executor_slot cur executee st = (case st of (th, w) \<Rightarrow>
     let th = th\<lparr>th_busy := True\<rparr>;
         w = w\<lparr>calls := calls w @ [UserCall cur executee]\<rparr>;
         th = th\<lparr>th_busy := False\<rparr>
     in case emit cur (th_finishedExecuting th) [ThreadIdArg cur] w of (w, e) \<Rightarrow> ((th, w), e))"

text \<open>
  \<^verbatim>\<open>execute\<close> emits the function; each call of the slot that this makes runs \<open>executor_slot\<close>.
\<close>

fun executor_call ::
  "thread_arg call \<Rightarrow> thread \<times> thread_objects \<Rightarrow> (thread \<times> thread_objects) \<times> fault option" where
  "executor_call (SlotCall t s [FunctionArg f]) st =
     (if s = th_executor (fst st) then executor_slot t f st else (st, None))"
| "executor_call c st = (st, None)"

definition thread_execute ::
  "thread_id \<Rightarrow> nat \<Rightarrow> thread \<times> thread_objects \<Rightarrow> (thread \<times> thread_objects) \<times> fault option" where
  "thread_execute cur function st = (case st of (th, w) \<Rightarrow>
     (case emit cur (th_newExecutionReceived th) [FunctionArg function] w of
        (w', Some e) \<Rightarrow> ((th, w'), Some e)
      | (w', None) \<Rightarrow> each executor_call (drop (length (calls w)) (calls w')) (th, w')))"

definition destroy_thread :: "thread \<Rightarrow> thread_objects \<Rightarrow> thread_objects \<times> fault option" where
  "destroy_thread th w =
     andThen (destroy_slot (th_executor th) w) (\<lambda>w.
     andThen (destroy_signal (th_newExecutionReceived th) w) (\<lambda>w.
     andThen (destroy_signal (th_finishedExecuting th) w) (\<lambda>w.
       (stop_thread (th_id th) w, None))))"

subsection \<open>ThreadPool\<close>

datatype ThreadPoolErrorCode = NoPoolError | UnknownThreadId | UnknownTimerId | BusyThreadResource

record thread_pool_error =
  tpe_errorCode :: ThreadPoolErrorCode
  tpe_errorStr :: string

record thread_pool =
  tp_timeoutDuration :: "64 word"
  tp_maxThreadCount :: nat
  tp_functionBuffer :: "nat list"
  tp_threadId_timerId_map :: "thread_id \<rightharpoonup> timer_id"
  tp_timerId_threadId_map :: "timer_id \<rightharpoonup> thread_id"
  tp_busyThreadMap :: "(thread_id \<times> thread) list"
  tp_idleThreadMap :: "(thread_id \<times> thread) list"
  tp_timer :: combined_timer
  tp_error :: thread_pool_error
  tp_errorOccured :: "thread_pool_error list"  \<comment> \<open>the errors emitted\<close>

type_synonym pool_state = "thread_pool \<times> thread_objects"

text \<open>The constructor makes two slots with functions, and connects neither.\<close>

definition new_pool ::
  "64 word \<Rightarrow> nat \<Rightarrow> br_object option \<Rightarrow> slot_id \<Rightarrow> slot_id \<Rightarrow> thread_objects \<Rightarrow> pool_state \<times> fault option" where
  "new_pool idleThreadTimeout maxThreadSize parent timerTimeoutSlot threadExecutionFinishedSlot w =
     (let this = Some (br_object parent);
          p = \<lparr>tp_timeoutDuration = idleThreadTimeout, tp_maxThreadCount = maxThreadSize,
               tp_functionBuffer = [], tp_threadId_timerId_map = Map.empty,
               tp_timerId_threadId_map = Map.empty, tp_busyThreadMap = [], tp_idleThreadMap = [],
               tp_timer = new_timer, tp_error = \<lparr>tpe_errorCode = NoPoolError, tpe_errorStr = []\<rparr>,
               tp_errorOccured = []\<rparr>;
          w = put_slot timerTimeoutSlot (new_slot False this) w;
          w = put_slot threadExecutionFinishedSlot (new_slot False this) w
      in case andThen (setSlotFunction timerTimeoutSlot w) (setSlotFunction threadExecutionFinishedSlot) of
           (w, e) \<Rightarrow> ((p, w), e))"

definition getLastError :: "thread_pool \<Rightarrow> thread_pool_error" where
  "getLastError p = tp_error p"

definition pool_error :: "ThreadPoolErrorCode \<Rightarrow> string \<Rightarrow> thread_pool \<Rightarrow> thread_pool" where
  "pool_error code str p =
     (let e = \<lparr>tpe_errorCode = code, tpe_errorStr = str\<rparr> in
      p\<lparr>tp_error := e, tp_errorOccured := tp_errorOccured p @ [e]\<rparr>)"

definition pool_tables :: "thread_pool \<Rightarrow> (combined_timer, thread_id, timer_id) timer_tables" where
  "pool_tables p = (tp_timer p, tp_threadId_timerId_map p, tp_timerId_threadId_map p)"

definition put_pool_tables :: "(combined_timer, thread_id, timer_id) timer_tables \<Rightarrow> thread_pool \<Rightarrow> thread_pool" where
  "put_pool_tables T p = (case T of (t, m, n) \<Rightarrow>
     p\<lparr>tp_timer := t, tp_threadId_timerId_map := m, tp_timerId_threadId_map := n\<rparr>)"

definition startTimerByThreadId :: "int \<Rightarrow> thread_id \<Rightarrow> thread_pool \<Rightarrow> thread_pool res" where
  "startTimerByThreadId now threadId p =
     bindR (start_entry (addTimer now (tp_timeoutDuration p) False) threadId (pool_tables p))
       (\<lambda>T. Inr (put_pool_tables T p))"

definition stopTimerByThreadId :: "thread_id \<Rightarrow> thread_pool \<Rightarrow> thread_pool" where
  "stopTimerByThreadId threadId p =
     (case tp_threadId_timerId_map p threadId of
        None \<Rightarrow> p
      | Some timerId \<Rightarrow>
          if tp_timerId_threadId_map p timerId = None then p
          else p\<lparr>tp_timer := fst (stopTimer timerId (tp_timer p)),
                 tp_threadId_timerId_map := (tp_threadId_timerId_map p)(threadId := None),
                 tp_timerId_threadId_map := (tp_timerId_threadId_map p)(timerId := None)\<rparr>)"

text \<open>
  \<^verbatim>\<open>execute\<close>.  The reference \<^verbatim>\<open>idleThread\<close> refers to the entry that \<^verbatim>\<open>erase\<close> removes, and the thread
  is destroyed with it.  The function given to a new thread is not used.
\<close>

record thread_ids =
  new_id :: thread_id
  new_finished :: signal_id
  new_execution :: signal_id
  new_executor :: slot_id

definition pool_execute ::
  "thread_id \<Rightarrow> thread_ids \<Rightarrow> nat \<Rightarrow> pool_state \<Rightarrow> pool_state \<times> fault option" where
  "pool_execute cur new function st = (case st of (p, w) \<Rightarrow>
     (case tp_idleThreadMap p of
        (idleThreadId, idleThread) # idle \<Rightarrow>
          let p = stopTimerByThreadId idleThreadId p;
              p = p\<lparr>tp_idleThreadMap := idle\<rparr>
          in andThen (case destroy_thread idleThread w of (w, e) \<Rightarrow> ((p, w), e)) (\<lambda>st. (st, Some Undefined))
      | [] \<Rightarrow>
          if length (tp_busyThreadMap p) < tp_maxThreadCount p then
            (case new_thread cur (new_id new) (new_finished new) (new_execution new) (new_executor new) w of
               ((newThread, w), e) \<Rightarrow>
                 ((p\<lparr>tp_busyThreadMap := AList.update (th_id newThread) newThread (tp_busyThreadMap p)\<rparr>, w), e))
          else ((p\<lparr>tp_functionBuffer := tp_functionBuffer p @ [function]\<rparr>, w), None)))"

definition timerTimeout_slotFunc :: "timer_id \<Rightarrow> pool_state \<Rightarrow> pool_state \<times> fault option" where
  "timerTimeout_slotFunc timerId st = (case st of (p, w) \<Rightarrow>
     (case tp_timerId_threadId_map p timerId of
        None \<Rightarrow>
          ((pool_error UnknownTimerId (''Timer id received from timeout timer is not known. Timer id: '' @
              show_int (sint timerId)) p, w), None)
      | Some timedOutThreadId \<Rightarrow>
          let p' = p\<lparr>tp_timerId_threadId_map := (tp_timerId_threadId_map p)(timerId := None),
                    tp_threadId_timerId_map := (tp_threadId_timerId_map p)(timedOutThreadId := None),
                    tp_idleThreadMap := AList.delete timedOutThreadId (tp_idleThreadMap p)\<rparr>
          in case map_of (tp_idleThreadMap p) timedOutThreadId of
               None \<Rightarrow> ((p', w), None)
             | Some th \<Rightarrow> (case destroy_thread th w of (w, e) \<Rightarrow> ((p', w), e))))"

text \<open>
  \<^verbatim>\<open>f\<close> refers to the element that \<^verbatim>\<open>pop\<close> removes.  The identifier in the last message is printed
  by the standard library, which does not fix its form: \<open>show_id\<close>.
\<close>

definition executionFinished_slotFunc ::
  "(thread_id \<Rightarrow> string) \<Rightarrow> int \<Rightarrow> thread_id \<Rightarrow> pool_state \<Rightarrow> pool_state \<times> fault option" where
  "executionFinished_slotFunc show_id now finishedThreadId st = (case st of (p, w) \<Rightarrow>
     (case map_of (tp_busyThreadMap p) finishedThreadId of
        None \<Rightarrow>
          ((pool_error UnknownThreadId ''Thread id received in execution finished slot is not known'' p, w), None)
      | Some finishedThread \<Rightarrow>
          if isBusy finishedThread then
            ((pool_error BusyThreadResource
                (''Thread that finished execution is busy. Check Thread resource for bugs. Thread Id: '' @
                 show_id finishedThreadId) p, w), None)
          else if tp_functionBuffer p \<noteq> [] then
            ((p\<lparr>tp_functionBuffer := tl (tp_functionBuffer p)\<rparr>, w), Some Undefined)
          else
            let p = p\<lparr>tp_idleThreadMap := AList.update finishedThreadId finishedThread (tp_idleThreadMap p),
                      tp_busyThreadMap := AList.delete finishedThreadId (tp_busyThreadMap p)\<rparr>
            in case startTimerByThreadId now finishedThreadId p of
                 Inl e \<Rightarrow> ((p, w), Some e)
               | Inr p \<Rightarrow> ((p, w), None)))"

subsection \<open>Runs of a pool\<close>

text \<open>
  What can happen to a pool and its threads: functions are given to it, the loops of its threads
  run, and the functions of its two slots are called, as they would be if the slots were
  connected.  The functions given so far are part of the state.
\<close>

inductive pool_step :: "pool_state \<times> nat list \<Rightarrow> pool_state \<times> nat list \<Rightarrow> bool" where
  execute: "new_id new \<notin> fst ` set (tp_busyThreadMap (fst st)) \<Longrightarrow>
    pool_execute cur new f st = (st', None) \<Longrightarrow> pool_step (st, fs) (st', fs @ [f])"
| loop: "running w t \<Longrightarrow> run_iteration t w = (w', None) \<Longrightarrow> pool_step ((p, w), fs) ((p, w'), fs)"
| timeout: "timerTimeout_slotFunc i st = (st', None) \<Longrightarrow> pool_step (st, fs) (st', fs)"
| finished: "executionFinished_slotFunc show_id now t st = (st', None) \<Longrightarrow> pool_step (st, fs) (st', fs)"

abbreviation pool_runs :: "pool_state \<times> nat list \<Rightarrow> pool_state \<times> nat list \<Rightarrow> bool" where
  "pool_runs \<equiv> pool_step\<^sup>*\<^sup>*"

inductive_cases pool_step_cases: "pool_step (st, fs) (st', fs')"

end
