(* ===== verification/ThreadProperties.thy ===== *)
theory ThreadProperties
  imports Threads SignalFacts
begin

text \<open>
  The properties of threads and pools: which functions a thread runs, why a pool runs none, and
  how its idle threads end.
\<close>

lemma new_thread_eq:
  "new_thread cur t a b s w =
     ((\<lparr>th_id = t, th_finishedExecuting = a, th_newExecutionReceived = b, th_executor = s, th_busy = True\<rparr>,
       w\<lparr>running := (running w)(t := True),
         signals := (signals w)(a \<mapsto> new_signal (Some (br_threaded_object t)),
           b \<mapsto> (new_signal (Some (br_threaded_object t)))\<lparr>sg_directConnections := [s]\<rparr>),
         slots := (slots w)(s \<mapsto> \<lparr>sl_init = True, sl_parent = Some (br_threaded_object t),
           sl_connectedSignals = [b]\<rparr>)\<rparr>), None)"
  by (simp add: new_thread_def start_thread_def setSlotFunction_def connect_def connection_type_def
      signal_getThreadId_def slot_getThreadId_def signalConnected_def new_slot_def new_signal_def object_defs
      Let_def)

text \<open>
  A thread runs a function that is given to it from the thread itself, at once, and is not
  busy afterwards.  A function given to it from any other thread is put into its event loop with
  a reference to a parameter that is gone when the loop reaches it: nothing is run and the
  behaviour is undefined.
\<close>

theorem thread_runs_own_functions:
  assumes "new_thread cur t a b s w = ((th, w1), e)" "a \<noteq> b" "eventLists w t = []"
  shows "(\<exists>w2. thread_execute t f (th, w1) = ((th\<lparr>th_busy := False\<rparr>, w2), None) \<and>
      calls w2 = calls w @ [SlotCall t s [FunctionArg f], UserCall t f]) \<and>
    (\<forall>other. other \<noteq> t \<longrightarrow> (\<exists>w2. thread_execute other f (th, w1) = ((th, w2), None) \<and>
      calls w2 = calls w \<and> snd (run_iteration t w2) = Some Undefined))"
  using assms
  by (auto simp: new_thread_eq thread_execute_def emit_def callDirectConnections_def callQueuedConnections_def
      slot_call_def executor_slot_def new_signal_def run_iteration_def object_defs Let_def)

theorem thread_runs_own_functions_witness:
  "\<exists>th w1 w2. new_thread 0 1 2 3 4 no_objects = ((th, w1), None) \<and>
     thread_execute 0 9 (th, w1) = ((th, w2), None) \<and> snd (run_iteration 1 w2) = Some Undefined"
proof -
  obtain th w1 e where n: "new_thread 0 1 2 3 4 no_objects = ((th, w1), e)" "e = None"
    by (simp add: new_thread_eq)
  have "eventLists (no_objects :: thread_objects) 1 = []" by (simp add: no_objects_def)
  from thread_runs_own_functions [OF n(1) _ this, of 9] have
    "\<forall>other. other \<noteq> 1 \<longrightarrow> (\<exists>w2. thread_execute other 9 (th, w1) = ((th, w2), None) \<and>
      calls w2 = calls (no_objects :: thread_objects) \<and> snd (run_iteration 1 w2) = Some Undefined)" by simp
  then have "\<exists>w2. thread_execute 0 9 (th, w1) = ((th, w2), None) \<and> snd (run_iteration 1 w2) = Some Undefined"
    by (metis zero_neq_one)
  with n show ?thesis by blast
qed

subsection \<open>The pool\<close>

text \<open>The state of a pool of at most \<open>n\<close> threads to which the functions \<open>fs\<close> have been given.\<close>

definition pool_inv :: "nat \<Rightarrow> pool_state \<Rightarrow> nat list \<Rightarrow> bool" where
  "pool_inv n st fs \<longleftrightarrow> (case st of (p, w) \<Rightarrow>
     calls w = [] \<and> (\<forall>t. eventLists w t = []) \<and> tp_maxThreadCount p = n \<and>
     tp_idleThreadMap p = [] \<and> tp_timerId_threadId_map p = Map.empty \<and>
     tp_functionBuffer p = drop n fs \<and> length (tp_busyThreadMap p) = min n (length fs) \<and>
     (\<forall>th \<in> snd ` set (tp_busyThreadMap p). isBusy th))"

lemma setSlotFunction_alive:
  "slots w s = Some sl \<Longrightarrow> setSlotFunction s w = (w\<lparr>slots := (slots w)(s \<mapsto> sl\<lparr>sl_init := True\<rparr>)\<rparr>, None)"
  by (simp add: setSlotFunction_def object_defs)

lemma pool_inv_new: "fst (new_pool d n parent a b no_objects) = st \<Longrightarrow> pool_inv n st []"
  by (cases "a = b")
    (auto simp: new_pool_def pool_inv_def no_objects_def put_slot_def setSlotFunction_alive Let_def)

lemma update_new_key: "k \<notin> fst ` set al \<Longrightarrow> AList.update k v al = al @ [(k, v)]"
  by (induction al) auto

lemma pool_inv_execute:
  assumes "pool_inv n (p, w) fs" "new_id new \<notin> fst ` set (tp_busyThreadMap p)"
    and "pool_execute cur new f (p, w) = (st', e)"
  shows "pool_inv n st' (fs @ [f]) \<and> e = None"
proof (cases "length (tp_busyThreadMap p) < n")
  case True
  with assms have "length fs < n" by (auto simp: pool_inv_def)
  with True assms show ?thesis
    by (auto simp: pool_inv_def pool_execute_def new_thread_eq update_new_key isBusy_def)
next
  case False
  with assms have "n \<le> length fs" by (auto simp: pool_inv_def)
  with False assms show ?thesis
    by (auto simp: pool_inv_def pool_execute_def)
qed

lemma pool_inv_error: "pool_inv n (pool_error c s p, w) fs = pool_inv n (p, w) fs"
  by (simp add: pool_inv_def pool_error_def Let_def)

lemma pool_inv_step:
  assumes "pool_step (st, fs) (st', fs')" "pool_inv n st fs"
  shows "pool_inv n st' fs'"
  using assms(1)
proof (cases rule: pool_step.cases)
  case (execute new cur f)
  with assms(2) pool_inv_execute [of n "fst st" "snd st" fs new cur f st' None] show ?thesis by simp
next
  case (loop w t w' p)
  with assms(2) show ?thesis by (simp add: pool_inv_def run_iteration_def)
next
  case (timeout i)
  obtain p w where st: "st = (p, w)" by (cases st)
  have "tp_timerId_threadId_map p i = None" using assms(2) st by (simp add: pool_inv_def)
  with timeout st have "\<exists>s. st' = (pool_error UnknownTimerId s p, w)"
    by (auto simp: timerTimeout_slotFunc_def simp del: append_Cons)
  with assms(2) st timeout show ?thesis by (auto simp: pool_inv_error)
next
  case (finished show_id now t)
  obtain p w where st: "st = (p, w)" by (cases st)
  have "isBusy th" if "map_of (tp_busyThreadMap p) t = Some th" for th
    using assms(2) st map_of_SomeD [OF that] by (force simp: pool_inv_def)
  with st finished have "\<exists>c s. st' = (pool_error c s p, w)"
    by (auto simp: executionFinished_slotFunc_def simp del: append_Cons split: option.splits)
  with assms(2) st finished show ?thesis by (auto simp: pool_inv_error)
qed

lemma pool_inv_runs: "pool_runs (st, fs) (st', fs') \<Longrightarrow> pool_inv n st fs \<Longrightarrow> pool_inv n st' fs'"
  by (induction rule: rtranclp_induct2) (auto dest: pool_inv_step)

text \<open>
  C38. A pool never runs a function.  Whatever is given to it, however long the loops of its
  threads run, and even if its slots were called: no slot function and no user function is
  called and no event is ever queued.  The first functions, one for each thread the pool may
  have, are forgotten; the others are buffered for ever.
\<close>

theorem pool_runs_nothing:
  assumes "new_pool timeout n parent a b no_objects = (st, e)" "pool_runs (st, []) ((p, w), fs)"
  shows "calls w = [] \<and> (\<forall>t. eventLists w t = []) \<and> tp_functionBuffer p = drop n fs \<and>
    length (tp_busyThreadMap p) = min n (length fs) \<and> tp_idleThreadMap p = []"
proof -
  have "pool_inv n st []" using pool_inv_new assms(1) by (metis fst_conv)
  from pool_inv_runs [OF assms(2) this] show ?thesis by (simp add: pool_inv_def)
qed

theorem pool_runs_nothing_witness:
  "\<exists>p w. pool_runs (fst (new_pool 5 1 None 0 1 no_objects), []) ((p, w), [7, 8, 9]) \<and>
     tp_functionBuffer p = [8, 9] \<and> calls w = []"
proof -
  let ?new = "\<lambda>k. \<lparr>new_id = k, new_finished = 2 * k, new_execution = 2 * k + 1, new_executor = k + 1\<rparr>"
  have step: "\<exists>st'. pool_step (st, fs) (st', fs @ [f]) \<and> pool_inv n st' (fs @ [f])" if "pool_inv n st fs" for n st fs f
  proof -
    obtain p w where st: "st = (p, w)" by (cases st)
    obtain k where k: "k \<notin> fst ` set (tp_busyThreadMap p)"
      using ex_new_if_finite [OF infinite_UNIV_nat, of "fst ` set (tp_busyThreadMap p)"] by auto
    obtain st' e where st': "pool_execute 0 (?new k) f (p, w) = (st', e)" by fastforce
    from pool_inv_execute [OF that [unfolded st] _ st'] k have i: "pool_inv n st' (fs @ [f])" "e = None" by auto
    have "pool_step (st, fs) (st', fs @ [f])"
      by (rule pool_step.execute [of "?new k" _ 0]) (use st k st' i(2) in simp_all)
    with i(1) show ?thesis by blast
  qed
  obtain st e where new: "new_pool 5 1 None 0 1 no_objects = (st, e)" by fastforce
  then have "pool_inv 1 st []" using pool_inv_new by (metis fst_conv)
  from step [OF this, of 7] obtain st1 where s1: "pool_step (st, []) (st1, [7])" "pool_inv 1 st1 [7]" by auto
  from step [OF s1(2), of 8] obtain st2 where s2: "pool_step (st1, [7]) (st2, [7, 8])" "pool_inv 1 st2 [7, 8]" by auto
  from step [OF s2(2), of 9] obtain p w where s3: "pool_step (st2, [7, 8]) ((p, w), [7, 8, 9])" by auto
  have "pool_runs (st, []) ((p, w), [7, 8, 9])"
    using s1(1) s2(1) s3 by (meson converse_rtranclp_into_rtranclp rtranclp.rtrancl_refl)
  with pool_runs_nothing [OF new this] new show ?thesis by auto
qed

subsection \<open>Idle threads\<close>

lemma delete_new_key: "k \<notin> fst ` set al \<Longrightarrow> AList.delete k (al @ [(k, v)]) = al"
  by (induction al) auto

text \<open>
  When the functions of its slots are called, a pool with nothing in its buffer keeps a
  thread that has finished for one timeout: it becomes idle, exactly one new timer of it runs,
  the two maps agree on it, and the timeout destroys the thread and restores both maps and the
  idle threads.
\<close>

theorem idle_thread_times_out:
  assumes "(t, th) \<in> set (tp_busyThreadMap p)" "distinct (map fst (tp_busyThreadMap p))"
    and "\<not> isBusy th" "tp_functionBuffer p = []"
    and "expires now (tp_timeoutDuration p) = Inr d"
    and "t \<notin> fst ` set (tp_idleThreadMap p)" "tp_threadId_timerId_map p t = None"
    and "tp_timerId_threadId_map p (ct_lastTimerId (tp_timer p)) = None"
    and "destroy_thread th w = (w', None)"
  shows "\<exists>p' i. executionFinished_slotFunc show_id now t (p, w) = ((p', w), None) \<and>
    tp_idleThreadMap p' = tp_idleThreadMap p @ [(t, th)] \<and> t \<notin> fst ` set (tp_busyThreadMap p') \<and>
    active_timers (tp_timer p') = insert i (active_timers (tp_timer p)) \<and>
    tp_threadId_timerId_map p' t = Some i \<and> tp_timerId_threadId_map p' i = Some t \<and>
    (\<exists>p''. timerTimeout_slotFunc i (p', w) = ((p'', w'), None) \<and>
       tp_idleThreadMap p'' = tp_idleThreadMap p \<and> tp_errorOccured p'' = tp_errorOccured p \<and>
       tp_threadId_timerId_map p'' = tp_threadId_timerId_map p \<and>
       tp_timerId_threadId_map p'' = tp_timerId_threadId_map p)"
proof -
  have b: "map_of (tp_busyThreadMap p) t = Some th" using assms(1,2) by simp
  obtain tm i where tm: "addTimer now (tp_timeoutDuration p) False (tp_timer p) = (tm, Inr i)"
    and i: "i = ct_lastTimerId (tp_timer p)"
    using assms(5) by (auto simp: addTimer_def stop_def Let_def)
  have del: "t \<notin> fst ` set (AList.delete t (tp_busyThreadMap p))"
    by (metis Diff_iff delete_keys list.set_map set_removeAll singletonI)
  let ?p = "p\<lparr>tp_idleThreadMap := tp_idleThreadMap p @ [(t, th)],
      tp_busyThreadMap := AList.delete t (tp_busyThreadMap p), tp_timer := tm,
      tp_threadId_timerId_map := (tp_threadId_timerId_map p)(t \<mapsto> i),
      tp_timerId_threadId_map := (tp_timerId_threadId_map p)(i \<mapsto> t)\<rparr>"
  let ?q = "?p\<lparr>tp_timerId_threadId_map := (tp_timerId_threadId_map p)(i := None),
      tp_threadId_timerId_map := (tp_threadId_timerId_map p)(t := None),
      tp_idleThreadMap := tp_idleThreadMap p\<rparr>"
  have fin: "executionFinished_slotFunc show_id now t (p, w) = ((?p, w), None)"
    using b tm assms(3,4,6)
    by (simp add: executionFinished_slotFunc_def startTimerByThreadId_def start_entry_def pool_tables_def
        put_pool_tables_def update_new_key Let_def)
  have "AList.delete t (tp_idleThreadMap p @ [(t, th)]) = tp_idleThreadMap p"
    using assms(6) by (rule delete_new_key)
  moreover have "map_of (tp_idleThreadMap p @ [(t, th)]) t = Some th"
  proof -
    have "map_of (tp_idleThreadMap p) t = None" using assms(6) by (simp add: map_of_eq_None_iff)
    then show ?thesis by (simp add: map_add_def)
  qed
  ultimately have out: "timerTimeout_slotFunc i (?p, w) = ((?q, w'), None)"
    using assms(9) by (simp add: timerTimeout_slotFunc_def Let_def)
  have old: "(tp_threadId_timerId_map p)(t := None) = tp_threadId_timerId_map p"
    "(tp_timerId_threadId_map p)(i := None) = tp_timerId_threadId_map p"
    using assms(7,8) i by auto
  have q: "tp_idleThreadMap ?q = tp_idleThreadMap p \<and> tp_errorOccured ?q = tp_errorOccured p \<and>
       tp_threadId_timerId_map ?q = tp_threadId_timerId_map p \<and>
       tp_timerId_threadId_map ?q = tp_timerId_threadId_map p"
    using old by simp
  show ?thesis
  proof (rule exI [of _ ?p], rule exI [of _ i], intro conjI)
    show "active_timers (tp_timer ?p) = insert i (active_timers (tp_timer p))"
      using ct.add_active [OF tm] by simp
    show "\<exists>p''. timerTimeout_slotFunc i (?p, w) = ((p'', w'), None) \<and>
       tp_idleThreadMap p'' = tp_idleThreadMap p \<and> tp_errorOccured p'' = tp_errorOccured p \<and>
       tp_threadId_timerId_map p'' = tp_threadId_timerId_map p \<and>
       tp_timerId_threadId_map p'' = tp_timerId_threadId_map p"
      using out q by blast
  qed (use fin del in simp_all)
qed

definition demo_thread :: thread where
  "demo_thread = \<lparr>th_id = 1, th_finishedExecuting = 2, th_newExecutionReceived = 3, th_executor = 4, th_busy = False\<rparr>"

definition demo_pool :: thread_pool where
  "demo_pool = \<lparr>tp_timeoutDuration = 5, tp_maxThreadCount = 1, tp_functionBuffer = [],
     tp_threadId_timerId_map = Map.empty, tp_timerId_threadId_map = Map.empty,
     tp_busyThreadMap = [(1, demo_thread)], tp_idleThreadMap = [], tp_timer = new_timer,
     tp_error = \<lparr>tpe_errorCode = NoPoolError, tpe_errorStr = []\<rparr>, tp_errorOccured = []\<rparr>"

theorem idle_thread_times_out_witness:
  "\<exists>w w' p' i p''. fst (new_thread 0 1 2 3 4 no_objects) = (demo_thread\<lparr>th_busy := True\<rparr>, w) \<and>
     executionFinished_slotFunc (\<lambda>_. []) 0 1 (demo_pool, w) = ((p', w), None) \<and>
     timerTimeout_slotFunc i (p', w) = ((p'', w'), None) \<and> tp_idleThreadMap p'' = []"
proof -
  obtain w where w: "fst (new_thread 0 1 2 3 4 no_objects) = (demo_thread\<lparr>th_busy := True\<rparr>, w)"
    by (simp add: new_thread_eq demo_thread_def)
  have "snd (destroy_thread demo_thread w) = None"
    using w by (auto simp: new_thread_eq demo_thread_def destroy_thread_def destroy_slot_def destroy_signal_def
        removeThisFromConnectedSignals_def removeSlotConnection_eq disconnect_def no_objects_def new_signal_def
        object_defs)
  then obtain w' where w': "destroy_thread demo_thread w = (w', None)" by (metis prod.collapse)
  have "expires 0 (tp_timeoutDuration demo_pool) = Inr 5000000"
    by (simp add: expires_def in_int64_def demo_pool_def)
  from idle_thread_times_out [OF _ _ _ _ this _ _ _ w', of 1 "\<lambda>_. []"] obtain p' i p'' where
    "executionFinished_slotFunc (\<lambda>_. []) 0 1 (demo_pool, w) = ((p', w), None)"
    "timerTimeout_slotFunc i (p', w) = ((p'', w'), None)" "tp_idleThreadMap p'' = tp_idleThreadMap demo_pool"
    by (auto simp: demo_pool_def demo_thread_def isBusy_def)
  with w show ?thesis by (auto simp: demo_pool_def)
qed

end
