(* ===== verification/QueuePc.thy ===== *)
theory QueuePc
  imports Prelude
begin

text \<open>
  \<^verbatim>\<open>include/brutils/queue_pc.h\<close>: a queue between producer and consumer threads.  The operations are
  functions on the queue; \<open>queue_step\<close> interleaves them for any number of consumers.  A consumer
  in \<^verbatim>\<open>waitPop\<close> evaluates the predicate with the mutex held (\<open>Deciding\<close>: it was false), and
  releases the mutex when it blocks; \<^verbatim>\<open>push\<close> takes the mutex, \<^verbatim>\<open>stop\<close> and \<^verbatim>\<open>pop\<close> do not.  \<^verbatim>\<open>pop\<close> is
  two steps, the copy of \<^verbatim>\<open>front()\<close> and the \<^verbatim>\<open>pop()\<close> of the container, and anything may happen between
  them.  Every \<^verbatim>\<open>notify_one\<close> wakes one blocked consumer if there is one.  That \<^verbatim>\<open>front()\<close> and \<^verbatim>\<open>pop()\<close>
  of the container, without the mutex, may run at the very time of a \<^verbatim>\<open>push\<close> (a data race, undefined
  in C++) is below the grain of the steps; spurious wakeups are left out.
\<close>

subsection \<open>Operations\<close>

record 'a queue_pc =
  q_stopped :: bool
  q_queue :: "'a list"

definition new_queue :: "'a queue_pc" where
  "new_queue = \<lparr>q_stopped = False, q_queue = []\<rparr>"

definition queue_push :: "'a \<Rightarrow> 'a queue_pc \<Rightarrow> 'a queue_pc" where
  "queue_push item q = q\<lparr>q_queue := q_queue q @ [item]\<rparr>"

definition wait_over :: "'a queue_pc \<Rightarrow> bool" where
  "wait_over q \<longleftrightarrow> q_queue q \<noteq> [] \<or> q_stopped q"

definition waitPop_result :: "'a queue_pc \<Rightarrow> bool" where
  "waitPop_result q = (if q_stopped q then False else True)"

text \<open>\<^verbatim>\<open>T item = _queue.front()\<close>, \<^verbatim>\<open>_queue.pop()\<close>, and the two together.\<close>

definition queue_front :: "'a queue_pc \<Rightarrow> 'a res" where
  "queue_front q = (case q_queue q of [] \<Rightarrow> Inl Undefined | item # rest \<Rightarrow> Inr item)"

definition queue_drop :: "'a queue_pc \<Rightarrow> 'a queue_pc res" where
  "queue_drop q = (case q_queue q of [] \<Rightarrow> Inl Undefined | item # rest \<Rightarrow> Inr (q\<lparr>q_queue := rest\<rparr>))"

definition queue_pop :: "'a queue_pc \<Rightarrow> ('a \<times> 'a queue_pc) res" where
  "queue_pop q = bindR (queue_front q) (\<lambda>item. bindR (queue_drop q) (\<lambda>q. Inr (item, q)))"

definition queue_stop :: "'a queue_pc \<Rightarrow> 'a queue_pc" where
  "queue_stop q = q\<lparr>q_stopped := True\<rparr>"

subsection \<open>Interleavings\<close>

datatype 'a consumer =
    Outside   \<comment> \<open>not in \<^verbatim>\<open>waitPop\<close> or \<^verbatim>\<open>pop\<close>\<close>
  | Deciding  \<comment> \<open>the predicate was false, the mutex is held\<close>
  | Blocked
  | Woken
  | Ready     \<comment> \<open>\<^verbatim>\<open>waitPop\<close> has returned true, \<^verbatim>\<open>pop\<close> comes next\<close>
  | Taking 'a \<comment> \<open>in \<^verbatim>\<open>pop\<close>, with the copy of the front\<close>

record 'a queue_system =
  qs_queue :: "'a queue_pc"
  qs_pc :: "nat \<Rightarrow> 'a consumer"
  qs_pushed :: "'a list"
  qs_popped :: "'a list"

definition queue_start :: "'a queue_system" where
  "queue_start = \<lparr>qs_queue = new_queue, qs_pc = (\<lambda>_. Outside), qs_pushed = [], qs_popped = []\<rparr>"

datatype 'a queue_action = Push 'a | Enter nat | Block nat | Wake nat | Front nat | Pop nat | Stop

definition mutex_free :: "'a queue_system \<Rightarrow> bool" where
  "mutex_free s \<longleftrightarrow> (\<forall>t. qs_pc s t \<noteq> Deciding)"

text \<open>\<^verbatim>\<open>notify_one\<close>.\<close>

definition notified :: "(nat \<Rightarrow> 'a consumer) \<Rightarrow> (nat \<Rightarrow> 'a consumer) \<Rightarrow> bool" where
  "notified pc pc' \<longleftrightarrow>
     (if \<exists>t. pc t = Blocked then \<exists>t. pc t = Blocked \<and> pc' = pc(t := Woken) else pc' = pc)"

text \<open>What a consumer that holds the mutex does with the predicate.\<close>

definition decide :: "'a queue_pc \<Rightarrow> 'a consumer" where
  "decide q = (if \<not> wait_over q then Deciding else if waitPop_result q then Ready else Outside)"

inductive queue_step :: "'a queue_system \<Rightarrow> 'a queue_action \<Rightarrow> 'a queue_system \<Rightarrow> bool" where
  push: "mutex_free s \<Longrightarrow> notified (qs_pc s) pc \<Longrightarrow>
    queue_step s (Push x) (s\<lparr>qs_queue := queue_push x (qs_queue s), qs_pc := pc, qs_pushed := qs_pushed s @ [x]\<rparr>)"
| enter: "mutex_free s \<Longrightarrow> qs_pc s t = Outside \<Longrightarrow>
    queue_step s (Enter t) (s\<lparr>qs_pc := (qs_pc s)(t := decide (qs_queue s))\<rparr>)"
| block: "qs_pc s t = Deciding \<Longrightarrow> queue_step s (Block t) (s\<lparr>qs_pc := (qs_pc s)(t := Blocked)\<rparr>)"
| wake: "mutex_free s \<Longrightarrow> qs_pc s t = Woken \<Longrightarrow>
    queue_step s (Wake t) (s\<lparr>qs_pc := (qs_pc s)(t := decide (qs_queue s))\<rparr>)"
| front: "qs_pc s t = Ready \<Longrightarrow> queue_front (qs_queue s) = Inr x \<Longrightarrow>
    queue_step s (Front t) (s\<lparr>qs_pc := (qs_pc s)(t := Taking x)\<rparr>)"
| pop: "qs_pc s t = Taking x \<Longrightarrow> queue_drop (qs_queue s) = Inr q \<Longrightarrow>
    queue_step s (Pop t) (s\<lparr>qs_queue := q, qs_pc := (qs_pc s)(t := Outside), qs_popped := qs_popped s @ [x]\<rparr>)"
| stop: "notified (qs_pc s) pc \<Longrightarrow>
    queue_step s Stop (s\<lparr>qs_queue := queue_stop (qs_queue s), qs_pc := pc\<rparr>)"

inductive queue_run :: "'a queue_system \<Rightarrow> 'a queue_action list \<Rightarrow> 'a queue_system \<Rightarrow> bool" where
  start: "queue_run s [] s"
| more: "queue_run s as s' \<Longrightarrow> queue_step s' a s'' \<Longrightarrow> queue_run s (as @ [a]) s''"

text \<open>The consumers that take part in a run.\<close>

fun consumer_of :: "'a queue_action \<Rightarrow> nat set" where
  "consumer_of (Enter t) = {t}"
| "consumer_of (Block t) = {t}"
| "consumer_of (Wake t) = {t}"
| "consumer_of (Front t) = {t}"
| "consumer_of (Pop t) = {t}"
| "consumer_of a = {}"

subsection \<open>One consumer\<close>

lemma notified_cases:
  assumes "notified pc pc'"
  obtains "pc' = pc" | t where "pc t = Blocked" "pc' = pc(t := Woken)"
  using assms by (auto simp: notified_def split: if_splits)

text \<open>
  With a single consumer: an item is there when \<^verbatim>\<open>waitPop\<close> has returned true, the copy taken is
  still the front, and nothing is lost or taken twice.
\<close>

definition one_consumer :: "nat \<Rightarrow> 'a queue_system \<Rightarrow> bool" where
  "one_consumer c s \<longleftrightarrow> (\<forall>t. t \<noteq> c \<longrightarrow> qs_pc s t = Outside) \<and>
     (qs_pc s c = Ready \<longrightarrow> q_queue (qs_queue s) \<noteq> []) \<and>
     (\<forall>x. qs_pc s c = Taking x \<longrightarrow> (\<exists>xs. q_queue (qs_queue s) = x # xs)) \<and>
     qs_pushed s = qs_popped s @ q_queue (qs_queue s)"

lemma one_consumer_step:
  assumes "queue_step s a s'" "consumer_of a \<subseteq> {c}" "one_consumer c s"
  shows "one_consumer c s'"
proof -
  have IH: "\<forall>t. t \<noteq> c \<longrightarrow> qs_pc s t = Outside" "qs_pc s c = Ready \<longrightarrow> q_queue (qs_queue s) \<noteq> []"
    "\<forall>x. qs_pc s c = Taking x \<longrightarrow> (\<exists>xs. q_queue (qs_queue s) = x # xs)"
    "qs_pushed s = qs_popped s @ q_queue (qs_queue s)"
    using assms(3) by (simp_all add: one_consumer_def)
  have n: "(\<forall>t. t \<noteq> c \<longrightarrow> pc t = Outside) \<and> (pc c = Ready \<longrightarrow> qs_pc s c = Ready) \<and>
      (\<forall>x. pc c = Taking x \<longrightarrow> qs_pc s c = Taking x)" if "notified (qs_pc s) pc" for pc
    using that
  proof (cases rule: notified_cases)
    case (2 t)
    with IH(1) have "t = c" by (cases "t = c") simp_all
    with 2 IH(1) show ?thesis by simp
  qed (use IH(1) in simp)
  from assms(1) show ?thesis
  proof (cases rule: queue_step.cases)
    case (push pc x)
    with n [OF push(4)] IH(2-4) show ?thesis by (auto simp: one_consumer_def queue_push_def)
  next
    case (stop pc)
    with n [OF stop(3)] IH(2-4) show ?thesis by (auto simp: one_consumer_def queue_stop_def)
  qed (use IH assms(2) in \<open>auto simp: one_consumer_def decide_def wait_over_def waitPop_result_def
      queue_front_def queue_drop_def split: if_splits list.splits\<close>)
qed

lemma one_consumer_run:
  assumes "queue_run queue_start as s" "\<forall>a \<in> set as. consumer_of a \<subseteq> {c}"
  shows "one_consumer c s"
proof -
  have "queue_run s0 as s \<Longrightarrow> s0 = queue_start \<Longrightarrow> \<forall>a \<in> set as. consumer_of a \<subseteq> {c} \<Longrightarrow> one_consumer c s" for s0
  proof (induction rule: queue_run.induct)
    case (more s as s' a s'')
    then show ?case by (intro one_consumer_step [OF more(2)]) simp_all
  qed (simp add: one_consumer_def queue_start_def new_queue_def)
  with assms show ?thesis by blast
qed

text \<open>
  C12. With a single consumer the queue is first in, first out, whatever producers and \<^verbatim>\<open>stop\<close> do
  between the two steps of \<^verbatim>\<open>pop\<close>: what has been popped followed by what is in the queue is what has
  been pushed, in order, each item once, and the item a consumer has copied inside \<^verbatim>\<open>pop\<close> is still the
  one that \<^verbatim>\<open>pop()\<close> of the container will remove.
\<close>

theorem queue_is_fifo:
  assumes "queue_run queue_start as s" "\<forall>a \<in> set as. consumer_of a \<subseteq> {c}"
  shows "qs_pushed s = qs_popped s @ q_queue (qs_queue s) \<and>
    (\<forall>t x. qs_pc s t = Taking x \<longrightarrow> queue_front (qs_queue s) = Inr x \<and> (\<exists>q. queue_drop (qs_queue s) = Inr q))"
proof -
  have "one_consumer c s" using assms by (rule one_consumer_run)
  moreover have "t = c" if "qs_pc s t = Taking x" for t x
    using that \<open>one_consumer c s\<close> by (cases "t = c") (simp_all add: one_consumer_def)
  ultimately show ?thesis
    by (fastforce simp: one_consumer_def queue_front_def queue_drop_def)
qed

theorem queue_is_fifo_witness:
  "\<exists>s. queue_run queue_start [Push (5 :: nat), Push 6] s \<and> qs_popped s @ q_queue (qs_queue s) = [5, 6]"
proof -
  let ?s = "\<lambda>xs. \<lparr>qs_queue = \<lparr>q_stopped = False, q_queue = xs\<rparr>, qs_pc = (\<lambda>_. Outside), qs_pushed = xs, qs_popped = []\<rparr>"
  have step: "queue_step (?s xs) (Push x) (?s (xs @ [x]))" for xs and x :: nat
    using queue_step.push [of "?s xs" "\<lambda>_. Outside" x]
    by (simp add: mutex_free_def notified_def queue_push_def)
  have "queue_start = ?s ([] :: nat list)" by (simp add: queue_start_def new_queue_def)
  then have "queue_step queue_start (Push 5) (?s [5 :: nat])" using step [of "[]" 5] by simp
  from queue_run.more [OF queue_run.more [OF queue_run.start this] step [of "[5]" 6]]
  have r: "queue_run queue_start [Push 5, Push 6] (?s [5, 6 :: nat])" by simp
  have "\<forall>a \<in> set [Push (5 :: nat), Push 6]. consumer_of a \<subseteq> {0}" by simp
  from queue_is_fifo [OF r this] r show ?thesis by (intro exI [of _ "?s [5, 6]"]) simp
qed

text \<open>
  C24. With a single consumer, \<^verbatim>\<open>pop\<close> behind a successful \<^verbatim>\<open>waitPop\<close> always finds an item, whatever
  producers and \<^verbatim>\<open>stop\<close> do meanwhile.
\<close>

theorem single_consumer_pops:
  assumes "queue_run queue_start as s" "\<forall>a \<in> set as. consumer_of a \<subseteq> {c}" "qs_pc s t = Ready"
  shows "\<exists>x q. queue_pop (qs_queue s) = Inr (x, q)"
proof -
  have "one_consumer c s" using assms(1,2) by (rule one_consumer_run)
  moreover from this have "t = c" using assms(3) by (cases "t = c") (simp_all add: one_consumer_def)
  ultimately have "q_queue (qs_queue s) \<noteq> []" using assms(3) by (simp add: one_consumer_def)
  then show ?thesis by (cases "q_queue (qs_queue s)") (auto simp: queue_pop_def queue_front_def queue_drop_def)
qed

theorem single_consumer_pops_witness:
  "\<exists>s x q. queue_run queue_start [Push (5 :: nat), Enter 0] s \<and> queue_pop (qs_queue s) = Inr (x, q)"
proof -
  let ?s1 = "queue_start\<lparr>qs_queue := queue_push (5 :: nat) new_queue, qs_pushed := [5]\<rparr>"
  let ?s2 = "?s1\<lparr>qs_pc := (\<lambda>_. Outside)(0 := Ready)\<rparr>"
  have "queue_step queue_start (Push 5) (queue_start\<lparr>qs_queue := queue_push 5 (qs_queue queue_start),
      qs_pc := qs_pc queue_start, qs_pushed := qs_pushed queue_start @ [5 :: nat]\<rparr>)"
    by (rule queue_step.push) (simp_all add: mutex_free_def notified_def queue_start_def)
  then have "queue_step queue_start (Push 5) ?s1" by (simp add: queue_start_def)
  moreover have "queue_step ?s1 (Enter 0) (?s1\<lparr>qs_pc := (qs_pc ?s1)(0 := decide (qs_queue ?s1))\<rparr>)"
    by (rule queue_step.enter) (simp_all add: mutex_free_def queue_start_def)
  then have "queue_step ?s1 (Enter 0) ?s2"
    by (simp add: queue_start_def decide_def wait_over_def waitPop_result_def queue_push_def new_queue_def)
  ultimately have r: "queue_run queue_start ([] @ [Push 5] @ [Enter 0]) ?s2"
    using queue_run.start queue_run.more by (metis append.assoc)
  have "\<exists>x q. queue_pop (qs_queue ?s2) = Inr (x, q)"
    by (rule single_consumer_pops [OF r, of 0 0]) simp_all
  with r show ?thesis by auto
qed

subsection \<open>Two consumers\<close>

text \<open>
  C25. Two consumers are both let through \<^verbatim>\<open>waitPop\<close>, and none of the steps of \<^verbatim>\<open>pop\<close> excludes the other
  one.  For a single item, the second one's \<^verbatim>\<open>pop\<close> takes the front of an empty queue; of two
  items, both take the first one, and the second one is removed without having been read.
\<close>

theorem two_consumers_clash:
  fixes x y :: 'a
  assumes "c \<noteq> d"
  shows "(\<exists>s. queue_run queue_start [Push x, Enter c, Enter d, Front c, Pop c] s \<and> qs_pc s d = Ready \<and>
      queue_pop (qs_queue s) = Inl Undefined) \<and>
    (\<exists>s. queue_run queue_start [Push x, Push y, Enter c, Enter d, Front c, Front d, Pop c, Pop d] s \<and>
      qs_pushed s = [x, y] \<and> qs_popped s = [x, x] \<and> q_queue (qs_queue s) = [])"
proof
  let ?q = "\<lambda>xs :: 'a list. \<lparr>q_stopped = False, q_queue = xs\<rparr>"
  let ?s = "\<lambda>xs pc us. \<lparr>qs_queue = ?q xs, qs_pc = pc, qs_pushed = us, qs_popped = []\<rparr>"
  let ?p0 = "\<lambda>_ :: nat. Outside :: 'a consumer"
  let ?rr = "?p0(c := Ready, d := Ready)"
  have r: "decide (?q (z # zs)) = Ready" for z zs by (simp add: decide_def wait_over_def waitPop_result_def)
  have free: "mutex_free (?s xs pc us)" if "\<forall>t. pc t \<noteq> Deciding" for xs pc us using that by (simp add: mutex_free_def)
  have s0: "queue_start = ?s [] ?p0 []" by (simp add: queue_start_def new_queue_def)
  have push: "queue_step (?s xs ?p0 us) (Push z) (?s (xs @ [z]) ?p0 (us @ [z]))" for xs us z
    using queue_step.push [of "?s xs ?p0 us" ?p0 z] by (simp add: mutex_free_def notified_def queue_push_def)
  have enter: "queue_step (?s (z # zs) ?p0 us) (Enter c) (?s (z # zs) (?p0(c := Ready)) us)"
    "queue_step (?s (z # zs) (?p0(c := Ready)) us) (Enter d) (?s (z # zs) ?rr us)" for z zs us
    using queue_step.enter [of "?s (z # zs) ?p0 us" c] queue_step.enter [of "?s (z # zs) (?p0(c := Ready)) us" d] r assms
    by (simp_all add: mutex_free_def)
  have front: "queue_step (?s (z # zs) ?rr us) (Front c) (?s (z # zs) (?rr(c := Taking z)) us)" for z zs us
    using queue_step.front [of "?s (z # zs) ?rr us" c z] assms by (simp add: queue_front_def)
  have start: "queue_run queue_start [Push x] (?s [x] ?p0 [x])"
    using queue_run.more [OF queue_run.start push [of "[]" "[]" x]] by (simp add: s0)
  have pop: "queue_step (?s [x] (?rr(c := Taking x)) [x]) (Pop c)
      (?s [] (?rr(c := Outside)) [x]\<lparr>qs_popped := [x]\<rparr>)"
    using queue_step.pop [of "?s [x] (?rr(c := Taking x)) [x]" c x "?q []"] by (simp add: queue_drop_def)
  have "queue_run queue_start [Push x, Enter c, Enter d, Front c, Pop c] (?s [] (?rr(c := Outside)) [x]\<lparr>qs_popped := [x]\<rparr>)"
    using queue_run.more [OF queue_run.more [OF queue_run.more [OF queue_run.more [OF start enter(1) [of x "[]"]]
      enter(2) [of x "[]"]] front [of x "[]"]] pop] by simp
  then show "\<exists>s. queue_run queue_start [Push x, Enter c, Enter d, Front c, Pop c] s \<and> qs_pc s d = Ready \<and>
      queue_pop (qs_queue s) = Inl Undefined"
    using assms by (intro exI conjI, fast) (simp_all add: queue_pop_def queue_front_def)
  let ?tt = "?rr(c := Taking x, d := Taking x)"
  have front2: "queue_step (?s [x, y] (?rr(c := Taking x)) [x, y]) (Front d) (?s [x, y] ?tt [x, y])"
    using queue_step.front [of "?s [x, y] (?rr(c := Taking x)) [x, y]" d x] assms by (simp add: queue_front_def)
  have pop1: "queue_step (?s [x, y] ?tt [x, y]) (Pop c) (?s [y] (?tt(c := Outside)) [x, y]\<lparr>qs_popped := [x]\<rparr>)"
    using queue_step.pop [of "?s [x, y] ?tt [x, y]" c x "?q [y]"] assms by (simp add: queue_drop_def)
  have pop2: "queue_step (?s [y] (?tt(c := Outside)) [x, y]\<lparr>qs_popped := [x]\<rparr>) (Pop d)
      (?s [] (?tt(c := Outside, d := Outside)) [x, y]\<lparr>qs_popped := [x, x]\<rparr>)"
    using queue_step.pop [of "?s [y] (?tt(c := Outside)) [x, y]\<lparr>qs_popped := [x]\<rparr>" d x "?q []"] assms
    by (simp add: queue_drop_def)
  have "queue_run queue_start [Push x, Push y, Enter c, Enter d, Front c, Front d, Pop c, Pop d]
      (?s [] (?tt(c := Outside, d := Outside)) [x, y]\<lparr>qs_popped := [x, x]\<rparr>)"
    using queue_run.more [OF queue_run.more [OF queue_run.more [OF queue_run.more [OF queue_run.more
      [OF queue_run.more [OF queue_run.more [OF start push [of "[x]" "[x]" y, simplified]] enter(1) [of x "[y]"]]
      enter(2) [of x "[y]"]] front [of x "[y]"]] front2] pop1] pop2] by simp
  then show "\<exists>s. queue_run queue_start [Push x, Push y, Enter c, Enter d, Front c, Front d, Pop c, Pop d] s \<and>
      qs_pushed s = [x, y] \<and> qs_popped s = [x, x] \<and> q_queue (qs_queue s) = []"
    by (intro exI conjI, fast) simp_all
qed

theorem two_consumers_clash_witness:
  "(\<exists>s. queue_run queue_start [Push (7 :: nat), Enter 0, Enter 1, Front 0, Pop 0] s \<and> qs_pc s 1 = Ready \<and>
      queue_pop (qs_queue s) = Inl Undefined) \<and>
    (\<exists>s. queue_run queue_start [Push (7 :: nat), Push 8, Enter 0, Enter 1, Front 0, Front 1, Pop 0, Pop 1] s \<and>
      qs_pushed s = [7, 8] \<and> qs_popped s = [7, 7] \<and> q_queue (qs_queue s) = [])"
  using two_consumers_clash [of 0 1 7 8] by simp

subsection \<open>Stopping\<close>

lemma blocked_step:
  assumes "queue_step s a s'" "\<forall>x. a \<noteq> Push x"
  obtains "\<forall>t. qs_pc s t = Blocked \<longrightarrow> qs_pc s' t = Blocked"
  | t where "a = Stop" "\<forall>r. r \<noteq> t \<longrightarrow> qs_pc s r = Blocked \<longrightarrow> qs_pc s' r = Blocked"
  using assms(1)
proof (cases rule: queue_step.cases)
  case (stop pc)
  show thesis
    by (rule notified_cases [OF stop(3)]) (use stop that in auto)
qed (use assms(2) that in \<open>auto split: if_splits\<close>)

text \<open>
  Each call of \<^verbatim>\<open>stop\<close> lets at most one blocked consumer go: of \<open>n\<close> blocked ones, \<open>n - k\<close> stay
  blocked after \<open>k\<close> calls, whatever else happens, as long as nothing is pushed.  And a call
  between the test of the predicate and the blocking of a consumer, which the mutex does not
  prevent, wakes nobody: this consumer then blocks although the queue has been stopped.
\<close>

theorem stop_wakes_one:
  assumes "queue_run s as s'" "\<forall>x. Push x \<notin> set as" "finite B" "\<forall>t \<in> B. qs_pc s t = Blocked"
  shows "card B \<le> card {t \<in> B. qs_pc s' t = Blocked} + count_list as Stop \<and>
    (\<exists>r. queue_run queue_start [Enter c, Stop, Block c] r \<and> q_stopped (qs_queue r) \<and> qs_pc r c = Blocked)"
proof
  show "card B \<le> card {t \<in> B. qs_pc s' t = Blocked} + count_list as Stop"
    using assms
  proof (induction rule: queue_run.induct)
    case (start s)
    then have "{t \<in> B. qs_pc s t = Blocked} = B" by auto
    then show ?case by simp
  next
    case (more s as s' a s'')
    let ?B = "\<lambda>s. {t \<in> B. qs_pc s t = Blocked}"
    have IH: "card B \<le> card (?B s') + count_list as Stop" using more by simp
    have fin: "finite (?B s'')" using more by simp
    have a: "\<forall>x. a \<noteq> Push x" using more(4) by auto
    from more(2) a show ?case
    proof (cases rule: blocked_step)
      case 1
      then have "?B s' \<subseteq> ?B s''" by auto
      then have "card (?B s') \<le> card (?B s'')" using fin by (rule card_mono [rotated])
      with IH show ?thesis by simp
    next
      case (2 t)
      then have "?B s' \<subseteq> insert t (?B s'')" by auto
      then have "card (?B s') \<le> card (insert t (?B s''))" using fin by (meson card_mono finite_insert)
      also have "\<dots> \<le> Suc (card (?B s''))" by (simp add: card_insert_if fin)
      finally show ?thesis using IH 2(1) by simp
    qed
  qed
next
  let ?p0 = "\<lambda>_ :: nat. Outside"
  let ?s = "\<lambda>st pc. \<lparr>qs_queue = \<lparr>q_stopped = st, q_queue = []\<rparr>, qs_pc = pc, qs_pushed = [], qs_popped = []\<rparr>"
  have s1: "queue_step queue_start (Enter c) (?s False (?p0(c := Deciding)))"
    using queue_step.enter [of queue_start c]
    by (simp add: queue_start_def mutex_free_def decide_def wait_over_def new_queue_def)
  have s2: "queue_step (?s False (?p0(c := Deciding))) Stop (?s True (?p0(c := Deciding)))"
  proof -
    have "notified (?p0(c := Deciding)) (?p0(c := Deciding))" by (auto simp: notified_def)
    with queue_step.stop [of "?s False (?p0(c := Deciding))" "?p0(c := Deciding)"] show ?thesis
      by (simp add: queue_stop_def)
  qed
  have s3: "queue_step (?s True (?p0(c := Deciding))) (Block c) (?s True (?p0(c := Blocked)))"
    using queue_step.block [of "?s True (?p0(c := Deciding))" c] by simp
  from queue_run.more [OF queue_run.more [OF queue_run.more [OF queue_run.start s1] s2] s3]
  have "queue_run queue_start [Enter c, Stop, Block c] (?s True (?p0(c := Blocked)))" by simp
  then show "\<exists>r. queue_run queue_start [Enter c, Stop, Block c] r \<and> q_stopped (qs_queue r) \<and> qs_pc r c = Blocked"
    by (intro exI [of _ "?s True (?p0(c := Blocked))"]) simp
qed

lemma card_filter_nonempty: "card {t \<in> B. Q t} \<noteq> 0 \<Longrightarrow> \<exists>t \<in> B. Q t"
proof (rule ccontr)
  assume a: "card {t \<in> B. Q t} \<noteq> 0" "\<not> (\<exists>t \<in> B. Q t)"
  then have "{t \<in> B. Q t} = {}" by auto
  with a(1) show False by (metis card.empty)
qed

text \<open>Two blocked consumers and one \<^verbatim>\<open>stop\<close>.\<close>

theorem stop_wakes_one_witness:
  "\<exists>(s :: nat queue_system) s' t. queue_run queue_start [Enter 0, Block 0, Enter 1, Block 1] s \<and>
     queue_run s [Stop] s' \<and> q_stopped (qs_queue s') \<and> t \<in> {0, 1} \<and> qs_pc s' t = Blocked"
proof -
  let ?p0 = "\<lambda>_ :: nat. Outside"
  let ?s = "\<lambda>st pc. \<lparr>qs_queue = \<lparr>q_stopped = st, q_queue = []\<rparr>, qs_pc = pc, qs_pushed = [], qs_popped = []\<rparr> :: nat queue_system"
  let ?two = "?p0(0 := Blocked, 1 := Blocked)"
  have d: "decide \<lparr>q_stopped = False, q_queue = []\<rparr> = Deciding" by (simp add: decide_def wait_over_def)
  have s1: "queue_step queue_start (Enter 0) (?s False (?p0(0 := Deciding)))"
    using queue_step.enter [of "queue_start :: nat queue_system" 0]
    by (simp add: queue_start_def mutex_free_def d new_queue_def)
  have s2: "queue_step (?s False (?p0(0 := Deciding))) (Block 0) (?s False (?p0(0 := Blocked)))"
    using queue_step.block [of "?s False (?p0(0 := Deciding))" 0] by simp
  have s3: "queue_step (?s False (?p0(0 := Blocked))) (Enter 1) (?s False (?p0(0 := Blocked, 1 := Deciding)))"
    using queue_step.enter [of "?s False (?p0(0 := Blocked))" 1] by (simp add: mutex_free_def d)
  have s4: "queue_step (?s False (?p0(0 := Blocked, 1 := Deciding))) (Block 1) (?s False ?two)"
    using queue_step.block [of "?s False (?p0(0 := Blocked, 1 := Deciding))" 1] by simp
  from queue_run.more [OF queue_run.more [OF queue_run.more [OF queue_run.more [OF queue_run.start s1] s2] s3] s4]
  have run: "queue_run queue_start [Enter 0, Block 0, Enter 1, Block 1] (?s False ?two)" by simp
  have "queue_step (?s False ?two) Stop (?s True (?two(0 := Woken)))"
  proof -
    have "\<exists>t. ?two t = Blocked \<and> ?two(0 := Woken) = ?two(t := Woken)" by (rule exI [of _ 0]) simp
    then have "notified ?two (?two(0 := Woken))" unfolding notified_def by (auto simp del: fun_upd_apply)
    with queue_step.stop [of "?s False ?two" "?two(0 := Woken)"] show ?thesis
      by (simp add: queue_stop_def)
  qed
  from queue_run.more [OF queue_run.start this] have
    stop: "queue_run (?s False ?two) [Stop] (?s True (?two(0 := Woken)))" by simp
  have "card {0, 1 :: nat} \<le> card {t \<in> {0, 1}. qs_pc (?s True (?two(0 := Woken))) t = Blocked} + count_list [Stop :: nat queue_action] Stop"
    by (rule conjunct1 [OF stop_wakes_one [OF stop, of "{0, 1}" 0]]) simp_all
  moreover have "card {0, 1 :: nat} = 2" "count_list [Stop :: nat queue_action] Stop = 1" by simp_all
  ultimately have "card {t \<in> {0, 1}. qs_pc (?s True (?two(0 := Woken))) t = Blocked} \<noteq> 0" by linarith
  from card_filter_nonempty [OF this] obtain t where
    "t \<in> {0, 1}" "qs_pc (?s True (?two(0 := Woken))) t = Blocked" ..
  with run stop show ?thesis by (intro exI [of _ "?s False ?two"] exI [of _ "?s True (?two(0 := Woken))"] exI [of _ t]) simp
qed

end
