(* ===== verification/TimeKeepers.thy ===== *)
theory TimeKeepers
  imports CombinedTimer
begin

text \<open>
  \<^verbatim>\<open>timers/TimeKeeper\<close> and \<^verbatim>\<open>include/brutils/timers/timer.h\<close>.  The record book is an
  \<^verbatim>\<open>std::unordered_map\<close>: an association list in some order, and what is proved holds of every
  order.  Times are counts of nanoseconds and arguments of the operations.

  The mutex of a \<open>TimeKeeper\<close> is taken by every operation and by the loop, so a run is a sequence of
  operations and rounds; locking it a second time in the same thread is undefined.  What happens
  while the loop waits, which releases the mutex, is in \<open>KeeperLoop\<close>.
\<close>

subsection \<open>TimeKeeper\<close>

record interval =
  iv_start :: int
  iv_end :: int

record time_record =
  tr_id :: "16 word"
  tr_duration :: int
  tr_interval :: interval

type_synonym record_book = "(16 word \<times> time_record) list"

record time_keeper =
  tk_lastRecordId :: "16 word"
  tk_running :: bool
  tk_notification :: bool
  tk_recordBook :: record_book
  tk_timeout :: "time_record list"  \<comment> \<open>the records emitted\<close>

definition new_keeper :: time_keeper where
  "new_keeper = \<lparr>tk_lastRecordId = 0, tk_running = True, tk_notification = False, tk_recordBook = [],
     tk_timeout = []\<rparr>"

text \<open>The search for an identifier that is not in use.\<close>

partial_function (option) next_free :: "record_book \<Rightarrow> 16 word \<Rightarrow> 16 word option" where
  "next_free book i = (if map_of book i = None then Some i else next_free book (i + 1))"

definition UINT16_MAX :: nat where "UINT16_MAX = 65535"

definition AddRecord :: "int \<Rightarrow> int \<Rightarrow> time_keeper \<Rightarrow> (time_keeper \<times> time_record) run" where
  "AddRecord now endTP k =
     (if now > endTP then Some (Inl InvalidArgument)
      else if length (tk_recordBook k) = UINT16_MAX then Some (Inl RuntimeError)
      else if \<not> in_int64 (endTP - now) then Some (Inl Undefined)
      else
        let record = \<lparr>tr_id = tk_lastRecordId k, tr_duration = (endTP - now) div 1000000,
              tr_interval = \<lparr>iv_start = now, iv_end = endTP\<rparr>\<rparr>;
            k = k\<lparr>tk_lastRecordId := tk_lastRecordId k + 1\<rparr>
        in Option.bind (next_free (tk_recordBook k) (tr_id record)) (\<lambda>i.
             let record = record\<lparr>tr_id := i\<rparr> in
             Some (Inr (k\<lparr>tk_recordBook := AList.update i record (tk_recordBook k), tk_notification := True\<rparr>,
                        record))))"

text \<open>The overload for a duration holds the mutex while it calls the other one.\<close>

definition AddRecord_duration :: "int \<Rightarrow> time_keeper \<Rightarrow> (time_keeper \<times> time_record) run" where
  "AddRecord_duration duration k =
     (if duration = 0 then Some (Inl InvalidArgument)
      else if length (tk_recordBook k) = UINT16_MAX then Some (Inl RuntimeError)
      else Some (Inl Undefined))"

definition CancelRecord_id :: "16 word \<Rightarrow> time_keeper \<Rightarrow> time_keeper res" where
  "CancelRecord_id i k =
     (if map_of (tk_recordBook k) i = None then Inl InvalidArgument
      else Inr (k\<lparr>tk_recordBook := AList.delete i (tk_recordBook k), tk_notification := True\<rparr>))"

definition CancelRecord :: "time_record \<Rightarrow> time_keeper \<Rightarrow> time_keeper res" where
  "CancelRecord record k = CancelRecord_id (tr_id record) k"

definition keeper_Size :: "time_keeper \<Rightarrow> nat" where
  "keeper_Size k = length (tk_recordBook k)"

definition keeper_Empty :: "time_keeper \<Rightarrow> bool" where
  "keeper_Empty k \<longleftrightarrow> tk_recordBook k = []"

definition keeper_stop :: "time_keeper \<Rightarrow> time_keeper" where
  "keeper_stop k = k\<lparr>tk_running := False\<rparr>"

text \<open>
  \<^verbatim>\<open>closestRecord\<close> is a reference to the record of the first entry: the assignment in the loop
  copies into that entry.  The loop visits the first entry too, which it does not change.
\<close>

definition due_date :: "time_record \<Rightarrow> int" where
  "due_date r = iv_end (tr_interval r)"

fun closest_record :: "time_record \<Rightarrow> record_book \<Rightarrow> time_record" where
  "closest_record first [] = first"
| "closest_record first ((i, r) # rs) =
     (if due_date r < due_date first then closest_record r rs else closest_record first rs)"

definition getClosestRecord :: "record_book \<Rightarrow> (time_record \<times> record_book) res" where
  "getClosestRecord book =
     (case book of
        [] \<Rightarrow> Inl RuntimeError
      | (i, first) # rest \<Rightarrow>
          let closest = closest_record first rest in Inr (closest, (i, closest) # rest))"

text \<open>
  A round of \<^verbatim>\<open>run\<close>; \<open>now\<close> is the clock behind the wait.  A wait on an empty book ends with a
  notification.
\<close>

definition keeper_round :: "int \<Rightarrow> time_keeper \<Rightarrow> time_keeper res" where
  "keeper_round now k =
     (if tk_recordBook k = [] then Inr (k\<lparr>tk_notification := False\<rparr>)
      else
        bindR (getClosestRecord (tk_recordBook k)) (\<lambda>(record, book).
          let k = k\<lparr>tk_recordBook := book, tk_notification := False\<rparr> in
          if now > due_date record then
            (if map_of book (tr_id record) = None then Inr k
             else Inr (k\<lparr>tk_timeout := tk_timeout k @ [record],
                        tk_recordBook := AList.delete (tr_id record) book\<rparr>))
          else Inr k))"

fun keeper_run :: "int list \<Rightarrow> time_keeper \<Rightarrow> time_keeper res" where
  "keeper_run [] k = Inr k"
| "keeper_run (now # nows) k =
     (if \<not> tk_running k then Inr k else bindR (keeper_round now k) (keeper_run nows))"

subsection \<open>The single timer\<close>

text \<open>
  The thread of a timer runs \<^verbatim>\<open>run\<close> in rounds of its loop, at any time between the operations;
  \<open>tm_alive\<close> says that it has not ended.
\<close>

record timer =
  tm_running :: bool
  tm_joinable :: bool
  tm_alive :: bool
  tm_func :: "nat option"
  tm_deadline :: int
  tm_periodic :: bool
  tm_calls :: "nat list"  \<comment> \<open>the functions called\<close>

definition new_single_timer :: timer where
  "new_single_timer = \<lparr>tm_running = False, tm_joinable = False, tm_alive = False, tm_func = None,
     tm_deadline = 0, tm_periodic = False, tm_calls = []\<rparr>"

definition timer_start :: "int \<Rightarrow> 64 word \<Rightarrow> bool \<Rightarrow> timer \<Rightarrow> timer res" where
  "timer_start now millisec periodic t =
     (let t = t\<lparr>tm_periodic := periodic\<rparr> in
      bindR (expires now millisec) (\<lambda>deadline.
        let t = t\<lparr>tm_deadline := deadline\<rparr> in
        if tm_joinable t then Inl Terminated else Inr (t\<lparr>tm_joinable := True, tm_alive := True\<rparr>)))"

definition timer_start_int :: "int \<Rightarrow> 32 word \<Rightarrow> bool \<Rightarrow> timer \<Rightarrow> timer res" where
  "timer_start_int now millisec periodic t = timer_start now (scast millisec) periodic t"

text \<open>
  A round of \<^verbatim>\<open>run\<close> at the time \<open>now\<close>: its wait ends when the deadline is reached or the timer is
  not running.  An empty function throws, and an exception that leaves the thread ends the
  program.
\<close>

definition timer_round :: "int \<Rightarrow> timer \<Rightarrow> timer res" where
  "timer_round now t =
     (if \<not> tm_alive t \<or> (now < tm_deadline t \<and> tm_running t) then Inr t
      else
        bindR
          (if tm_running t then
             let t = (if \<not> tm_periodic t then t\<lparr>tm_running := False\<rparr> else t) in
             (case tm_func t of
                None \<Rightarrow> Inl Terminated
              | Some f \<Rightarrow> Inr (t\<lparr>tm_calls := tm_calls t @ [f]\<rparr>))
           else Inr t)
          (\<lambda>t. Inr (t\<lparr>tm_alive := tm_periodic t\<rparr>)))"

text \<open>\<^verbatim>\<open>join\<close> returns when the thread has ended.\<close>

partial_function (option) timer_join :: "int \<Rightarrow> timer \<Rightarrow> timer run" where
  "timer_join now t =
     (if \<not> tm_alive t then Some (Inr (t\<lparr>tm_joinable := False\<rparr>))
      else case timer_round now t of Inl e \<Rightarrow> Some (Inl e) | Inr t \<Rightarrow> timer_join now t)"

definition timer_stop :: "int \<Rightarrow> timer \<Rightarrow> timer run" where
  "timer_stop now t =
     (let t = t\<lparr>tm_running := False\<rparr> in if tm_joinable t then timer_join now t else Some (Inr t))"

definition timer_restart :: "int \<Rightarrow> 32 word \<Rightarrow> timer \<Rightarrow> timer run" where
  "timer_restart now millisec t =
     bindO (timer_stop now t) (\<lambda>t. Some (timer_start_int now millisec False t))"

definition timer_notify :: "nat \<Rightarrow> timer \<Rightarrow> timer" where
  "timer_notify slot t = t\<lparr>tm_func := Some slot\<rparr>"

text \<open>A run: operations and rounds of the thread, with the time of each.\<close>

datatype timer_action =
    Start int "64 word" bool
  | StopTimer int
  | Restart int "32 word"
  | Notify nat
  | ThreadRound int

fun timer_act :: "timer_action \<Rightarrow> timer \<Rightarrow> timer run" where
  "timer_act (Start now ms p) t = Some (timer_start now ms p t)"
| "timer_act (StopTimer now) t = timer_stop now t"
| "timer_act (Restart now ms) t = timer_restart now ms t"
| "timer_act (Notify f) t = Some (Inr (timer_notify f t))"
| "timer_act (ThreadRound now) t = Some (timer_round now t)"

fun timer_acts :: "timer_action list \<Rightarrow> timer \<Rightarrow> timer run" where
  "timer_acts [] t = Some (Inr t)"
| "timer_acts (a # as) t = bindO (timer_act a t) (timer_acts as)"

end
