(* ===== verification/TimeKeeperProperties.thy ===== *)
theory TimeKeeperProperties
  imports TimeKeepers
begin

text \<open>
  The properties of \<open>TimeKeeper\<close> and of the single timer: the search for an identifier ends, which
  records are delivered and which are lost, and that the single timer calls nothing.
\<close>

definition book_ok :: "record_book \<Rightarrow> bool" where
  "book_ok book \<longleftrightarrow> distinct (map fst book) \<and> (\<forall>(i, r) \<in> set book. tr_id r = i)"

subsection \<open>Adding records\<close>

lemma next_free_at:
  "map_of book (i + of_nat d) = None \<Longrightarrow> \<forall>e < d. map_of book (i + of_nat e) \<noteq> None \<Longrightarrow>
   next_free book i = Some (i + of_nat d)"
proof (induction d arbitrary: i)
  case 0
  then show ?case by (subst next_free.simps) simp
next
  case (Suc d)
  have here: "map_of book i \<noteq> None" using Suc.prems(2) [rule_format, of 0] by simp
  have "map_of book ((i + 1) + of_nat e) \<noteq> None" if "e < d" for e
    using Suc.prems(2) [rule_format, of "Suc e"] that by (simp add: add.assoc add.commute add.left_commute)
  moreover have "map_of book ((i + 1) + of_nat d) = None" using Suc.prems(1) by (simp add: algebra_simps)
  ultimately have "next_free book (i + 1) = Some ((i + 1) + of_nat d)" using Suc.IH by blast
  with here show ?case by (subst next_free.simps) (auto simp: algebra_simps)
qed

lemma next_free_total:
  assumes "length book < 65536"
  obtains j where "next_free book i = Some j" "map_of book j = None"
proof -
  have "card (fst ` set book) \<le> length book" using card_image_le [of "set book" fst] card_length [of book] by force
  also have "\<dots> < card (UNIV :: 16 word set)" using assms by (simp add: card_word)
  finally have "fst ` set book \<noteq> (UNIV :: 16 word set)" by auto
  then obtain j where j: "map_of book j = None" by (auto simp: map_of_eq_None_iff)
  have "map_of book (i + of_nat (unat (j - i))) = None" using j by simp
  then obtain d where d: "map_of book (i + of_nat d) = None" "\<forall>e < d. map_of book (i + of_nat e) \<noteq> None"
    using exists_least_iff [of "\<lambda>d. map_of book (i + of_nat d) = None"] by blast
  from next_free_at [OF this] d(1) that show thesis by blast
qed

lemma update_fresh_key: "map_of al k = None \<Longrightarrow> AList.update k v al = al @ [(k, v)]"
  by (induction al) (auto split: if_splits)

text \<open>
  C26. \<^verbatim>\<open>AddRecord(endTP)\<close> returns: with room in the book and an end that is not in the past the
  search for an identifier ends with one that is not in use, the new record is stored under
  it, no other record changes, and the loop is notified.
\<close>

theorem AddRecord_stores:
  assumes "book_ok (tk_recordBook k)" "length (tk_recordBook k) < 65535"
    and "now \<le> endTP" "in_int64 (endTP - now)"
  shows "\<exists>k' r. AddRecord now endTP k = Some (Inr (k', r)) \<and> tr_id r \<notin> fst ` set (tk_recordBook k) \<and>
    tk_recordBook k' = tk_recordBook k @ [(tr_id r, r)] \<and> book_ok (tk_recordBook k') \<and>
    due_date r = endTP \<and> iv_start (tr_interval r) = now \<and> tk_notification k' \<and>
    tk_timeout k' = tk_timeout k"
proof -
  obtain j where j: "next_free (tk_recordBook k) (tk_lastRecordId k) = Some j" "map_of (tk_recordBook k) j = None"
    using assms(2) by (rule_tac next_free_total [of "tk_recordBook k" "tk_lastRecordId k"]) auto
  have "j \<notin> fst ` set (tk_recordBook k)" using j(2) by (simp add: map_of_eq_None_iff)
  with assms j show ?thesis
    by (auto simp: AddRecord_def UINT16_MAX_def Let_def update_fresh_key book_ok_def due_date_def)
qed

theorem AddRecord_stores_witness:
  "\<exists>k r. AddRecord 10 2000010 new_keeper = Some (Inr (k, r)) \<and> tk_recordBook k = [(tr_id r, r)]"
  using AddRecord_stores [of new_keeper 10 2000010]
  by (auto simp: new_keeper_def book_ok_def in_int64_def)

subsection \<open>Delivery\<close>

lemma closest_record_first: "\<forall>p \<in> set rs. due_date first \<le> due_date (snd p) \<Longrightarrow> closest_record first rs = first"
  by (induction rs) auto

lemma closest_record_min:
  "(closest_record first rs = first \<or> closest_record first rs \<in> snd ` set rs) \<and>
   due_date (closest_record first rs) \<le> due_date first \<and>
   (\<forall>p \<in> set rs. due_date (closest_record first rs) \<le> due_date (snd p))"
  by (induction first rs rule: closest_record.induct) force+

lemma delete_absent_key: "k \<notin> fst ` set al \<Longrightarrow> AList.delete k al = al"
  by (induction al) auto

text \<open>
  When the entries of the book happen to be in the order of their ends, the loop delivers
  every record once, in that order, and empties the book.
\<close>

theorem keeper_delivers_sorted:
  assumes "book_ok (tk_recordBook k)" "sorted (map (\<lambda>p. due_date (snd p)) (tk_recordBook k))" "tk_running k"
    and "list_all2 (\<lambda>now p. due_date (snd p) < now) nows (tk_recordBook k)"
  shows "\<exists>k'. keeper_run nows k = Inr k' \<and> tk_recordBook k' = [] \<and>
    tk_timeout k' = tk_timeout k @ map snd (tk_recordBook k)"
  using assms
proof (induction nows arbitrary: k)
  case Nil
  then show ?case by simp
next
  case (Cons now nows)
  obtain i r rs where b: "tk_recordBook k = (i, r) # rs" "due_date r < now"
    "list_all2 (\<lambda>now p. due_date (snd p) < now) nows rs"
    using Cons.prems(4) by (cases "tk_recordBook k") auto
  have id: "tr_id r = i" "i \<notin> fst ` set rs" "book_ok rs" "sorted (map (\<lambda>p. due_date (snd p)) rs)"
    using Cons.prems(1,2) b(1) by (auto simp: book_ok_def)
  have c: "closest_record r rs = r"
    using Cons.prems(2) b(1) by (intro closest_record_first) auto
  let ?k = "k\<lparr>tk_notification := False, tk_timeout := tk_timeout k @ [r], tk_recordBook := rs\<rparr>"
  have "keeper_round now k = Inr ?k"
    using b c id by (simp add: keeper_round_def getClosestRecord_def Let_def delete_absent_key)
  moreover obtain k' where "keeper_run nows ?k = Inr k'" "tk_recordBook k' = []"
    "tk_timeout k' = tk_timeout ?k @ map snd rs"
    using Cons.IH [of ?k] id b Cons.prems(3) by auto
  ultimately show ?case using Cons.prems(3) b(1) by simp
qed

definition demo_record :: "16 word \<Rightarrow> int \<Rightarrow> time_record" where
  "demo_record i e = \<lparr>tr_id = i, tr_duration = 0, tr_interval = \<lparr>iv_start = 0, iv_end = e\<rparr>\<rparr>"

theorem keeper_delivers_sorted_witness:
  "\<exists>k. keeper_run [11, 21] (new_keeper\<lparr>tk_recordBook := [(0, demo_record 0 10), (1, demo_record 1 20)]\<rparr>) = Inr k \<and>
     tk_timeout k = [demo_record 0 10, demo_record 1 20]"
  using keeper_delivers_sorted [of "new_keeper\<lparr>tk_recordBook := [(0, demo_record 0 10), (1, demo_record 1 20)]\<rparr>" "[11, 21]"]
  by (auto simp: new_keeper_def book_ok_def demo_record_def due_date_def simp del: keeper_run.simps)

text \<open>
  C37. When the record that ends first is not in the first entry, the search overwrites the
  record of the first entry with it.  It is delivered, and that is the last delivery: every
  later round finds the copy, whose identifier is no longer in the book, and changes nothing,
  however late it is.  The overwritten record and all the others are never delivered.
\<close>

theorem keeper_gets_stuck:
  assumes "book_ok (tk_recordBook k)" "tk_recordBook k = (i, first) # rest" "tk_running k"
    and "closest_record first rest = c" "due_date c < due_date first" "due_date c < now"
  shows "\<exists>k'. keeper_run (now # nows) k = Inr k' \<and> tk_timeout k' = tk_timeout k @ [c] \<and>
    tk_recordBook k' = (i, c) # AList.delete (tr_id c) rest \<and> c \<noteq> first \<and>
    first \<notin> snd ` set (tk_recordBook k')"
proof -
  have cr: "c \<in> snd ` set rest" and least: "\<forall>p \<in> set rest. due_date c \<le> due_date (snd p)"
    using closest_record_min [of first rest] assms(4,5) by auto
  have dist: "distinct (map fst rest)" "i \<notin> fst ` set rest" "tr_id first = i"
    "\<forall>p \<in> set rest. tr_id (snd p) = fst p"
    using assms(1,2) by (auto simp: book_ok_def)
  then have ci: "tr_id c \<noteq> i" using cr by force
  let ?rest = "AList.delete (tr_id c) rest"
  have sub: "set ?rest \<subseteq> set rest" by (auto simp: AList.delete_eq)
  let ?k = "k\<lparr>tk_notification := False, tk_timeout := tk_timeout k @ [c], tk_recordBook := (i, c) # ?rest\<rparr>"
  have "tr_id c \<in> fst ` set rest" using cr dist(4) by auto
  then have "map_of rest (tr_id c) \<noteq> None" by (simp add: map_of_eq_None_iff)
  then have r1: "keeper_round now k = Inr ?k"
    using assms(2,4,6) ci by (auto simp: keeper_round_def getClosestRecord_def Let_def)
  have "closest_record c ?rest = c" using least sub by (intro closest_record_first) auto
  moreover have "map_of ?rest (tr_id c) = None" by (simp add: delete_conv)
  ultimately have r2: "keeper_round t ?k = Inr ?k" for t
    using ci by (simp add: keeper_round_def getClosestRecord_def Let_def)
  have "keeper_run ts ?k = Inr ?k" for ts by (induction ts) (simp_all add: r2)
  with r1 assms(3) have "keeper_run (now # nows) k = Inr ?k" by simp
  moreover have "c \<noteq> first" using assms(5) by auto
  moreover have "first \<notin> snd ` set ?rest" using dist sub by force
  ultimately show ?thesis by auto
qed

theorem keeper_gets_stuck_witness:
  "\<exists>k. keeper_run [11, 21, 31, 41] (new_keeper\<lparr>tk_recordBook := [(0, demo_record 0 20), (1, demo_record 1 10)]\<rparr>) = Inr k \<and>
     tk_timeout k = [demo_record 1 10] \<and> tk_recordBook k = [(0, demo_record 1 10)]"
  using keeper_gets_stuck [of "new_keeper\<lparr>tk_recordBook := [(0, demo_record 0 20), (1, demo_record 1 10)]\<rparr>"
      0 "demo_record 0 20" "[(1, demo_record 1 10)]" "demo_record 1 10" 11 "[21, 31, 41]"]
  by (auto simp: new_keeper_def book_ok_def demo_record_def due_date_def simp del: keeper_run.simps)

subsection \<open>The single timer\<close>

lemma timer_join_silent:
  assumes "timer_join now t = Some (Inr t')" "\<not> tm_running t"
  shows "\<not> tm_running t' \<and> tm_calls t' = tm_calls t"
proof -
  have "\<not> tm_running t \<longrightarrow> (\<forall>t'. r = Inr t' \<longrightarrow> \<not> tm_running t' \<and> tm_calls t' = tm_calls t)"
    if "timer_join now t = Some r" for now t r
  proof (rule timer_join.raw_induct [where P = "\<lambda>now t r. \<not> tm_running t \<longrightarrow>
      (\<forall>t'. r = Inr t' \<longrightarrow> \<not> tm_running t' \<and> tm_calls t' = tm_calls t)", OF _ that])
    fix loop :: "int \<Rightarrow> timer \<Rightarrow> timer run" and now t r
    assume IH: "\<And>now t r. loop now t = Some r \<Longrightarrow>
        \<not> tm_running t \<longrightarrow> (\<forall>t'. r = Inr t' \<longrightarrow> \<not> tm_running t' \<and> tm_calls t' = tm_calls t)"
      and eq: "(if \<not> tm_alive t then Some (Inr (t\<lparr>tm_joinable := False\<rparr>))
        else case timer_round now t of Inl e \<Rightarrow> Some (Inl e) | Inr t \<Rightarrow> loop now t) = Some r"
    show "\<not> tm_running t \<longrightarrow> (\<forall>t'. r = Inr t' \<longrightarrow> \<not> tm_running t' \<and> tm_calls t' = tm_calls t)"
    proof (cases "tm_alive t \<and> \<not> tm_running t")
      case True
      then have "timer_round now t = Inr (t\<lparr>tm_alive := tm_periodic t\<rparr>)" by (simp add: timer_round_def)
      with eq True have "loop now (t\<lparr>tm_alive := tm_periodic t\<rparr>) = Some r" by simp
      from IH [OF this] show ?thesis by simp
    next
      case False
      with eq show ?thesis by auto
    qed
  qed
  with assms show ?thesis by blast
qed

lemma timer_act_silent:
  assumes "timer_act a t = Some (Inr t')" "\<not> tm_running t"
  shows "\<not> tm_running t' \<and> tm_calls t' = tm_calls t"
proof -
  have stop: "\<not> tm_running u \<and> tm_calls u = tm_calls t" if "timer_stop now t = Some (Inr u)" for now u
    using that timer_join_silent [of now "t\<lparr>tm_running := False\<rparr>"]
    by (cases "tm_joinable t") (auto simp: timer_stop_def)
  have start: "\<not> tm_running v \<and> tm_calls v = tm_calls u"
    if "timer_start now ms p u = Inr v" "\<not> tm_running u" for now ms p u v
    using that by (auto simp: timer_start_def bindR_Inr_iff Let_def split: if_splits)
  show ?thesis
  proof (cases a)
    case (Restart now ms)
    with assms(1) obtain u where "timer_stop now t = Some (Inr u)" "timer_start now (scast ms) False u = Inr t'"
      by (auto simp: timer_restart_def timer_start_int_def bindO_Inr)
    with stop start show ?thesis by metis
  next
    case (ThreadRound now)
    with assms show ?thesis by (auto simp: timer_round_def split: if_splits)
  qed (use assms start stop in \<open>auto simp: timer_notify_def\<close>)
qed

text \<open>
  The single timer never calls its function: nothing ever sets \<^verbatim>\<open>_running\<close>, so the wait of its
  thread ends at once and the function is skipped, whatever operations are used, whenever the
  thread runs.
\<close>

theorem timer_never_calls:
  assumes "timer_acts as new_single_timer = Some (Inr t)"
  shows "tm_calls t = [] \<and> \<not> tm_running t"
proof -
  have "timer_acts as t0 = Some (Inr t) \<Longrightarrow> \<not> tm_running t0 \<Longrightarrow> tm_calls t = tm_calls t0 \<and> \<not> tm_running t" for t0
  proof (induction as arbitrary: t0)
    case (Cons a as)
    then obtain t1 where "timer_act a t0 = Some (Inr t1)" "timer_acts as t1 = Some (Inr t)"
      by (auto simp: bindO_Inr)
    with timer_act_silent Cons show ?case by metis
  qed simp
  from this [OF assms] show ?thesis by (simp add: new_single_timer_def)
qed

theorem timer_never_calls_witness:
  "\<exists>t. timer_acts [Notify 7, Start 0 5 False, ThreadRound 1, ThreadRound 6000000, StopTimer 7000000] new_single_timer =
     Some (Inr t) \<and> tm_calls t = []"
proof -
  have "\<exists>t. timer_acts [Notify 7, Start 0 5 False, ThreadRound 1, ThreadRound 6000000, StopTimer 7000000] new_single_timer =
     Some (Inr t)"
    by (simp add: new_single_timer_def timer_notify_def timer_start_def expires_def in_int64_def timer_round_def
        timer_stop_def timer_join.simps Let_def)
  with timer_never_calls show ?thesis by blast
qed

text \<open>
  A periodic timer can neither be stopped nor restarted: \<^verbatim>\<open>stop\<close> waits for a thread that never
  ends, however often it has run before.  A second \<^verbatim>\<open>start\<close> without \<^verbatim>\<open>stop\<close> ends the program.
\<close>

theorem periodic_timer_never_stops:
  assumes "timer_start now ms True t = Inr t1" "\<not> tm_running t"
    and "timer_acts (map ThreadRound rounds) t1 = Some (Inr t2)"
  shows "timer_stop now' t2 = None \<and> timer_restart now' ms' t2 = None \<and>
    (expires now' ms'' = Inr d \<longrightarrow> timer_start now' ms'' p t2 = Inl Terminated)"
proof -
  let ?stuck = "\<lambda>t. tm_alive t \<and> tm_periodic t \<and> tm_joinable t \<and> \<not> tm_running t"
  have round: "?stuck t \<Longrightarrow> \<exists>t'. timer_round n t = Inr t' \<and> ?stuck t'" for n t
    by (simp add: timer_round_def)
  have "?stuck t1" using assms(1,2) by (auto simp: timer_start_def bindR_Inr_iff Let_def split: if_splits)
  moreover have "?stuck t \<Longrightarrow> timer_acts (map ThreadRound ns) t = Some (Inr t') \<Longrightarrow> ?stuck t'" for ns t t'
  proof (induction ns arbitrary: t)
    case (Cons n ns)
    from round [OF Cons.prems(1), of n] obtain u where "timer_round n t = Inr u" "?stuck u" by blast
    with Cons show ?case by simp
  qed simp
  ultimately have t2: "?stuck t2" using assms(3) by blast
  have "\<not> ?stuck t" if "timer_join n t = Some r" for n t r
  proof (rule timer_join.raw_induct [where P = "\<lambda>n t r. \<not> ?stuck t", OF _ that])
    fix loop :: "int \<Rightarrow> timer \<Rightarrow> timer run" and n t r
    assume IH: "\<And>n t r. loop n t = Some r \<Longrightarrow> \<not> ?stuck t"
      and eq: "(if \<not> tm_alive t then Some (Inr (t\<lparr>tm_joinable := False\<rparr>))
        else case timer_round n t of Inl e \<Rightarrow> Some (Inl e) | Inr t \<Rightarrow> loop n t) = Some r"
    show "\<not> ?stuck t"
    proof
      assume s: "?stuck t"
      from round [OF this, of n] obtain u where u: "timer_round n t = Inr u" "?stuck u" by blast
      with eq s have "loop n u = Some r" by simp
      from IH [OF this] u(2) show False by blast
    qed
  qed
  then have "timer_join now' t = None" if "?stuck t" for t using that by (metis not_None_eq)
  moreover have "?stuck (t2\<lparr>tm_running := False\<rparr>)" using t2 by simp
  ultimately have stop: "timer_stop now' t2 = None" using t2 by (simp add: timer_stop_def)
  moreover have "timer_start now' ms'' p t2 = Inl Terminated" if "expires now' ms'' = Inr d"
    using t2 that by (simp add: timer_start_def)
  ultimately show ?thesis by (simp add: timer_restart_def)
qed

theorem periodic_timer_never_stops_witness:
  "\<exists>t1 t2. timer_start 0 5 True new_single_timer = Inr t1 \<and>
     timer_acts (map ThreadRound [1, 6000000]) t1 = Some (Inr t2) \<and> timer_stop 7000000 t2 = None"
proof -
  let ?t1 = "new_single_timer\<lparr>tm_periodic := True, tm_deadline := 5000000, tm_joinable := True, tm_alive := True\<rparr>"
  have s: "timer_start 0 5 True new_single_timer = Inr ?t1" "\<not> tm_running new_single_timer"
    by (simp_all add: new_single_timer_def timer_start_def expires_def in_int64_def Let_def)
  have r: "timer_acts (map ThreadRound [1, 6000000]) ?t1 = Some (Inr ?t1)"
    by (simp add: new_single_timer_def timer_round_def)
  from periodic_timer_never_stops [OF s r] s(1) r show ?thesis by blast
qed

end
