(* ===== verification/KeeperLoop.thy ===== *)
theory KeeperLoop
  imports TimeKeeperProperties
begin

text \<open>
  The thread of \<^verbatim>\<open>timers/TimeKeeper\<close> at the grain at which other threads come between.  \<open>TimeKeepers\<close>
  takes a round of \<^verbatim>\<open>run\<close> for one step; here its two waits are split: the thread holds the mutex
  while it tests the predicate of a wait and until it blocks, \<^verbatim>\<open>AddRecord\<close> and \<^verbatim>\<open>CancelRecord\<close> take the
  mutex, \<^verbatim>\<open>stop\<close> does not.  Wakeups without a notification are left out; they only repeat a test.

  A round at this grain is a round of \<open>TimeKeepers\<close> when nobody comes between
  (\<open>keeper_round_steps\<close>), so what is shown there of delivery holds here.
\<close>

subsection \<open>The thread and the operations\<close>

text \<open>
  The places of the thread: before the test of \<^verbatim>\<open>while\<close>; in the wait on an empty book; in the wait for
  the end of the copied record; behind the loop.  In each wait it is about to test the predicate,
  decided to block, blocked, notified without having the mutex again, or behind the wait.
\<close>

datatype keeper_place =
    Keeper_top
  | Empty_test | Empty_committed | Empty_blocked | Empty_notified | Empty_behind
  | Timed_test time_record | Timed_committed time_record | Timed_blocked time_record
  | Timed_notified time_record | Timed_behind time_record
  | Keeper_ended

record keeper_loop =
  kl_place :: keeper_place
  kl_keeper :: time_keeper
  kl_stops :: nat  \<comment> \<open>calls of \<^verbatim>\<open>stop\<close> that have cleared the flag and not yet notified\<close>

definition new_keeper_loop :: keeper_loop where
  "new_keeper_loop = \<lparr>kl_place = Keeper_top, kl_keeper = new_keeper, kl_stops = 0\<rparr>"

text \<open>
  The next step of the thread, with the clock \<open>now\<close>; \<open>None\<close> when it has none.  An exception that leaves
  the thread ends the program.
\<close>

definition keeper_goes :: "keeper_loop \<Rightarrow> keeper_place \<Rightarrow> time_keeper \<Rightarrow> keeper_loop run" where
  "keeper_goes l p k = Some (Inr (l\<lparr>kl_place := p, kl_keeper := k\<rparr>))"

definition thread_step :: "int \<Rightarrow> keeper_loop \<Rightarrow> keeper_loop run" where
  "thread_step now l =
     (let k = kl_keeper l in
      case kl_place l of
        Keeper_top \<Rightarrow>
          if \<not> tk_running k then keeper_goes l Keeper_ended k
          else if tk_recordBook k = [] then keeper_goes l Empty_test k
          else (case getClosestRecord (tk_recordBook k) of
                  Inl e \<Rightarrow> Some (Inl Terminated)
                | Inr (record, book) \<Rightarrow> keeper_goes l (Timed_test record) (k\<lparr>tk_recordBook := book\<rparr>))
      | Empty_test \<Rightarrow>
          keeper_goes l (if \<not> tk_running k \<or> tk_notification k then Empty_behind else Empty_committed) k
      | Empty_committed \<Rightarrow> keeper_goes l Empty_blocked k
      | Empty_blocked \<Rightarrow> None
      | Empty_notified \<Rightarrow> keeper_goes l Empty_test k
      | Empty_behind \<Rightarrow> keeper_goes l Keeper_top (k\<lparr>tk_notification := False\<rparr>)
      | Timed_test record \<Rightarrow>
          keeper_goes l (if \<not> tk_running k \<or> tk_notification k \<or> now > due_date record
            then Timed_behind record else Timed_committed record) k
      | Timed_committed record \<Rightarrow> keeper_goes l (Timed_blocked record) k
      | Timed_blocked record \<Rightarrow>
          if now < due_date record then None else keeper_goes l (Timed_behind record) k
      | Timed_notified record \<Rightarrow> keeper_goes l (Timed_test record) k
      | Timed_behind record \<Rightarrow>
          let k = k\<lparr>tk_notification := False\<rparr> in
          if now > due_date record then
            (if map_of (tk_recordBook k) (tr_id record) = None then keeper_goes l Keeper_top k
             else keeper_goes l Keeper_top (k\<lparr>tk_timeout := tk_timeout k @ [record],
               tk_recordBook := AList.delete (tr_id record) (tk_recordBook k)\<rparr>))
          else keeper_goes l Keeper_top k
      | Keeper_ended \<Rightarrow> None)"

text \<open>A notification reaches the thread when it is blocked.  The mutex is free outside the rounds and
  while the thread is blocked.\<close>

definition keeper_notify :: "keeper_loop \<Rightarrow> keeper_loop" where
  "keeper_notify l =
     (case kl_place l of
        Empty_blocked \<Rightarrow> l\<lparr>kl_place := Empty_notified\<rparr>
      | Timed_blocked record \<Rightarrow> l\<lparr>kl_place := Timed_notified record\<rparr>
      | _ \<Rightarrow> l)"

definition mutex_free :: "keeper_loop \<Rightarrow> bool" where
  "mutex_free l =
     (case kl_place l of
        Keeper_top \<Rightarrow> True | Empty_blocked \<Rightarrow> True | Empty_notified \<Rightarrow> True
      | Timed_blocked _ \<Rightarrow> True | Timed_notified _ \<Rightarrow> True | Keeper_ended \<Rightarrow> True | _ \<Rightarrow> False)"

text \<open>
  The actions: a step of the thread, the two operations on the book, and \<^verbatim>\<open>stop\<close> in its two steps.  An
  operation that throws leaves the keeper as it is.
\<close>

datatype keeper_action = Keeper_thread int | Add_record int int | Cancel_record "16 word" | Stop_flag | Stop_notify

definition operation_done :: "keeper_loop \<Rightarrow> time_keeper res \<Rightarrow> keeper_loop res" where
  "operation_done l r =
     (case r of
        Inl e \<Rightarrow> if e = Undefined then Inl e else Inr l
      | Inr k \<Rightarrow> Inr (keeper_notify (l\<lparr>kl_keeper := k\<rparr>)))"

fun keeper_act :: "keeper_action \<Rightarrow> keeper_loop \<Rightarrow> keeper_loop run" where
  "keeper_act (Keeper_thread now) l = thread_step now l"
| "keeper_act (Add_record now endTP) l =
     (if \<not> mutex_free l then None
      else map_option (\<lambda>r. operation_done l (bindR r (\<lambda>(k, record). Inr k))) (AddRecord now endTP (kl_keeper l)))"
| "keeper_act (Cancel_record i) l =
     (if \<not> mutex_free l then None else Some (operation_done l (CancelRecord_id i (kl_keeper l))))"
| "keeper_act Stop_flag l = Some (Inr (l\<lparr>kl_keeper := keeper_stop (kl_keeper l), kl_stops := Suc (kl_stops l)\<rparr>))"
| "keeper_act Stop_notify l =
     (if kl_stops l = 0 then None else Some (Inr (keeper_notify (l\<lparr>kl_stops := kl_stops l - 1\<rparr>))))"

fun keeper_acts :: "keeper_action list \<Rightarrow> keeper_loop \<Rightarrow> keeper_loop run" where
  "keeper_acts [] l = Some (Inr l)"
| "keeper_acts (a # as) l = bindO (keeper_act a l) (keeper_acts as)"

text \<open>\<^verbatim>\<open>wait\<close> joins the thread; the destructor is \<^verbatim>\<open>stop\<close> followed by \<^verbatim>\<open>wait\<close>.\<close>

definition keeper_wait_returns :: "keeper_loop \<Rightarrow> bool" where
  "keeper_wait_returns l \<longleftrightarrow> kl_place l = Keeper_ended"

definition keeper_destroyed :: "keeper_loop \<Rightarrow> bool" where
  "keeper_destroyed l \<longleftrightarrow> \<not> tk_running (kl_keeper l) \<and> kl_stops l = 0 \<and> keeper_wait_returns l"

subsection \<open>Undisturbed rounds\<close>

lemma keeper_acts_append: "keeper_acts (as @ bs) l = bindO (keeper_acts as l) (keeper_acts bs)"
proof (induction as arbitrary: l)
  case (Cons a as)
  then show ?case by (cases "keeper_act a l"; cases "the (keeper_act a l)") simp_all
qed simp

lemma keeper_round_steps:
  assumes "kl_place l = Keeper_top" "tk_running (kl_keeper l)"
    and "getClosestRecord (tk_recordBook (kl_keeper l)) = Inr (record, book)" "due_date record < now"
  shows "keeper_acts (replicate 3 (Keeper_thread now)) l =
    Some (bindR (keeper_round now (kl_keeper l)) (\<lambda>k. Inr (l\<lparr>kl_keeper := k\<rparr>)))"
proof -
  have ne: "tk_recordBook (kl_keeper l) \<noteq> []" using assms(3) by (auto simp: getClosestRecord_def)
  have "l\<lparr>kl_place := Keeper_top, kl_keeper := k\<rparr> = l\<lparr>kl_keeper := k\<rparr>" for k using assms(1) by (cases l) simp
  with assms ne show ?thesis
    by (simp add: numeral_3_eq_3 thread_step_def keeper_goes_def keeper_round_def Let_def)
qed

subsection \<open>The thread never oversleeps\<close>

text \<open>What is known where: a book without a notification has not changed since it was looked at.\<close>

definition no_earlier :: "time_record \<Rightarrow> time_keeper \<Rightarrow> bool" where
  "no_earlier record k \<longleftrightarrow> (\<forall>p \<in> set (tk_recordBook k). due_date record \<le> due_date (snd p))"

lemma no_earlier_running [simp]: "no_earlier record (k\<lparr>tk_running := b\<rparr>) = no_earlier record k"
  by (simp add: no_earlier_def)

definition keeper_inv :: "keeper_loop \<Rightarrow> bool" where
  "keeper_inv l =
     (let k = kl_keeper l in
      case kl_place l of
        Empty_test \<Rightarrow> tk_recordBook k = [] \<or> tk_notification k
      | Empty_notified \<Rightarrow> tk_recordBook k = [] \<or> tk_notification k
      | Empty_committed \<Rightarrow> tk_recordBook k = []
      | Empty_blocked \<Rightarrow> tk_recordBook k = []
      | Timed_test record \<Rightarrow> no_earlier record k \<or> tk_notification k
      | Timed_notified record \<Rightarrow> no_earlier record k \<or> tk_notification k
      | Timed_committed record \<Rightarrow> no_earlier record k
      | Timed_blocked record \<Rightarrow> no_earlier record k
      | _ \<Rightarrow> True)"

lemma getClosestRecord_no_earlier:
  assumes "getClosestRecord (tk_recordBook k) = Inr (record, book)"
  shows "no_earlier record (k\<lparr>tk_recordBook := book\<rparr>)"
proof -
  obtain i first rest where b: "tk_recordBook k = (i, first) # rest" "record = closest_record first rest"
    "book = (i, record) # rest"
    using assms by (auto simp: getClosestRecord_def Let_def split: list.splits)
  then show ?thesis using closest_record_min [of first rest] by (auto simp: no_earlier_def)
qed

lemma thread_step_inv: "thread_step now l = Some (Inr l') \<Longrightarrow> keeper_inv l \<Longrightarrow> keeper_inv l'"
  using getClosestRecord_no_earlier [of "kl_keeper l"]
  by (auto simp: thread_step_def keeper_goes_def keeper_inv_def Let_def
      split: keeper_place.splits if_splits sum.splits)

lemma keeper_notify_inv: "keeper_inv l \<Longrightarrow> keeper_inv (keeper_notify l)"
  by (auto simp: keeper_notify_def keeper_inv_def Let_def split: keeper_place.splits)

text \<open>An operation needs the mutex and sets the notification.\<close>

lemma operation_inv:
  assumes "operation_done l r = Inr l'" "keeper_inv l" "mutex_free l"
    and "\<And>k. r = Inr k \<Longrightarrow> tk_notification k"
  shows "keeper_inv l'"
  using assms by (cases r)
    (auto simp: operation_done_def keeper_notify_def mutex_free_def keeper_inv_def Let_def
      split: keeper_place.splits if_splits)

lemma AddRecord_notifies: "AddRecord now endTP k = Some (Inr (k', record)) \<Longrightarrow> tk_notification k'"
  by (auto simp: AddRecord_def Let_def split: if_splits bind_splits)

lemma keeper_act_inv: "keeper_act a l = Some (Inr l') \<Longrightarrow> keeper_inv l \<Longrightarrow> keeper_inv l'"
proof (induction a l rule: keeper_act.induct)
  case (1 now l)
  then show ?case using thread_step_inv by simp
next
  case (2 now endTP l)
  then obtain r where r: "AddRecord now endTP (kl_keeper l) = Some r" "mutex_free l"
    "operation_done l (bindR r (\<lambda>(k, record). Inr k)) = Inr l'" by (auto split: if_splits)
  show ?case
    by (rule operation_inv [OF r(3) 2(2) r(2)]) (use r(1) AddRecord_notifies in \<open>cases r; fastforce\<close>)
next
  case (3 i l)
  then show ?case
    by (auto intro!: operation_inv [of l "CancelRecord_id i (kl_keeper l)" l']
        simp: CancelRecord_id_def split: if_splits)
next
  case (4 l)
  then show ?case
    by (auto simp: keeper_inv_def keeper_stop_def Let_def split: keeper_place.splits)
next
  case (5 l)
  have "keeper_inv (l\<lparr>kl_stops := n\<rparr>)" for n using 5(2) by (simp add: keeper_inv_def)
  with 5(1) keeper_notify_inv show ?case by (auto split: if_splits)
qed

lemma keeper_acts_inv: "keeper_acts as l = Some (Inr l') \<Longrightarrow> keeper_inv l \<Longrightarrow> keeper_inv l'"
proof (induction as arbitrary: l)
  case (Cons a as)
  then obtain l1 where "keeper_act a l = Some (Inr l1)" "keeper_acts as l1 = Some (Inr l')"
    by (auto simp: bindO_Inr)
  with Cons keeper_act_inv show ?case by blast
qed simp

text \<open>
  C27. The thread never oversleeps: however records are added, cancelled and delivered and whenever
  \<^verbatim>\<open>stop\<close> comes, a thread that is blocked without a date has an empty book, one that is blocked until
  a date has no record that ends before it, and a thread that has not returned is not blocked when
  the end of a record has come.
\<close>

theorem keeper_never_oversleeps:
  assumes "keeper_acts as new_keeper_loop = Some (Inr l)"
  shows "(kl_place l = Empty_blocked \<longrightarrow> tk_recordBook (kl_keeper l) = []) \<and>
    (\<forall>record. kl_place l = Timed_blocked record \<longrightarrow>
      (\<forall>p \<in> set (tk_recordBook (kl_keeper l)). due_date record \<le> due_date (snd p))) \<and>
    (\<forall>p \<in> set (tk_recordBook (kl_keeper l)). \<forall>now \<ge> due_date (snd p).
      kl_place l \<noteq> Keeper_ended \<longrightarrow> thread_step now l \<noteq> None)"
proof -
  have i: "keeper_inv l"
    by (rule keeper_acts_inv [OF assms]) (simp add: keeper_inv_def new_keeper_loop_def)
  have "thread_step now l \<noteq> None"
    if "p \<in> set (tk_recordBook (kl_keeper l))" "due_date (snd p) \<le> now" "kl_place l \<noteq> Keeper_ended" for p now
    using i that
    by (cases "kl_place l") (force simp: thread_step_def keeper_goes_def keeper_inv_def no_earlier_def Let_def
        split: sum.splits)+
  moreover have "tk_recordBook (kl_keeper l) = []" if "kl_place l = Empty_blocked"
    using i that by (simp add: keeper_inv_def)
  moreover have "no_earlier r (kl_keeper l)" if "kl_place l = Timed_blocked r" for r
    using i that by (simp add: keeper_inv_def)
  ultimately show ?thesis by (simp add: no_earlier_def)
qed

theorem keeper_never_oversleeps_witness:
  "\<exists>l record. keeper_acts [Keeper_thread 0, Keeper_thread 0, Keeper_thread 0, Add_record 1 9,
      Keeper_thread 2, Keeper_thread 2, Keeper_thread 2, Keeper_thread 2, Keeper_thread 2, Keeper_thread 2]
      new_keeper_loop = Some (Inr l) \<and>
     kl_place l = Timed_blocked record \<and> tk_recordBook (kl_keeper l) = [(0, record)] \<and>
     thread_step 8 l = None \<and> thread_step 9 l \<noteq> None"
proof -
  let ?r = "\<lparr>tr_id = 0, tr_duration = 0, tr_interval = \<lparr>iv_start = 1, iv_end = 9\<rparr>\<rparr>"
  obtain l where l: "keeper_acts [Keeper_thread 0, Keeper_thread 0, Keeper_thread 0, Add_record 1 9,
      Keeper_thread 2, Keeper_thread 2, Keeper_thread 2, Keeper_thread 2, Keeper_thread 2, Keeper_thread 2]
      new_keeper_loop = Some (Inr l)" "kl_place l = Timed_blocked ?r" "tk_recordBook (kl_keeper l) = [(0, ?r)]"
    by (simp add: thread_step_def keeper_goes_def new_keeper_loop_def new_keeper_def mutex_free_def AddRecord_def
        in_int64_def UINT16_MAX_def next_free.simps operation_done_def keeper_notify_def getClosestRecord_def
        due_date_def Let_def)
  have "due_date ?r = 9" by (simp add: due_date_def)
  with keeper_never_oversleeps [OF l(1)] l(2,3) have "thread_step 9 l \<noteq> None" by simp
  moreover have "thread_step 8 l = None" using l(2) by (simp add: thread_step_def due_date_def)
  ultimately show ?thesis using l by blast
qed

subsection \<open>A destructor that hangs\<close>

text \<open>
  \<^verbatim>\<open>stop\<close> clears the flag and notifies without the mutex.  Between the test of the wait on an empty
  book and the blocking, its notification is lost: the thread blocks, and the destructor waits for it
  as long as nobody adds a record.
\<close>

theorem keeper_stop_lost:
  assumes "kl_place l = Empty_committed" "kl_stops l = 0" "tk_recordBook (kl_keeper l) = []"
    and "keeper_acts ([Stop_flag, Stop_notify, Keeper_thread now] @ as) l = Some (Inr l')"
    and "Stop_flag \<notin> set as" "\<forall>now end'. Add_record now end' \<notin> set as"
  shows "\<not> keeper_destroyed l' \<and> kl_place l' = Empty_blocked \<and> \<not> tk_running (kl_keeper l')"
proof -
  let ?l = "l\<lparr>kl_place := Empty_blocked, kl_keeper := keeper_stop (kl_keeper l)\<rparr>"
  have "keeper_acts [Stop_flag, Stop_notify, Keeper_thread now] l = Some (Inr ?l)"
    using assms(1,2) by (simp add: keeper_notify_def thread_step_def keeper_goes_def Let_def)
  then have run: "keeper_acts as ?l = Some (Inr l')" using assms(4) unfolding keeper_acts_append by simp
  have "kl_place l' = Empty_blocked \<and> \<not> tk_running (kl_keeper l')"
    if "keeper_acts bs k = Some (Inr l')" "Stop_flag \<notin> set bs" "\<forall>now end'. Add_record now end' \<notin> set bs"
      "kl_place k = Empty_blocked" "kl_stops k = 0" "tk_recordBook (kl_keeper k) = []" "\<not> tk_running (kl_keeper k)"
    for bs k
    using that
  proof (induction bs arbitrary: k)
    case (Cons a bs)
    then obtain k1 where k1: "keeper_act a k = Some (Inr k1)" "keeper_acts bs k1 = Some (Inr l')"
      by (auto simp: bindO_Inr)
    have "k1 = k"
      using k1(1) Cons.prems
      by (cases a) (auto simp: thread_step_def operation_done_def CancelRecord_id_def Let_def split: if_splits)
    with Cons k1(2) show ?case by simp
  qed simp
  from this [OF run assms(5,6)] assms(2,3) show ?thesis
    by (simp add: keeper_stop_def keeper_destroyed_def keeper_wait_returns_def)
qed

theorem keeper_stop_lost_witness:
  "\<exists>l. keeper_acts [Keeper_thread 0, Keeper_thread 0, Stop_flag, Stop_notify, Keeper_thread 0, Cancel_record 3]
     new_keeper_loop = Some (Inr l) \<and> \<not> keeper_destroyed l"
proof -
  obtain l0 where l0: "keeper_acts [Keeper_thread 0, Keeper_thread 0] new_keeper_loop = Some (Inr l0)"
    "kl_place l0 = Empty_committed" "kl_stops l0 = 0" "tk_recordBook (kl_keeper l0) = []"
    by (simp add: thread_step_def keeper_goes_def new_keeper_loop_def new_keeper_def)
  obtain l where l: "keeper_acts ([Stop_flag, Stop_notify, Keeper_thread 0] @ [Cancel_record 3]) l0 = Some (Inr l)"
    using l0 by (simp add: keeper_notify_def thread_step_def keeper_goes_def mutex_free_def CancelRecord_id_def
        keeper_stop_def operation_done_def Let_def)
  from keeper_stop_lost [OF l0(2-4) l] have "\<not> keeper_destroyed l" by simp
  moreover have "keeper_acts ([Keeper_thread 0, Keeper_thread 0] @ [Stop_flag, Stop_notify, Keeper_thread 0] @ [Cancel_record 3])
      new_keeper_loop = Some (Inr l)"
    unfolding keeper_acts_append [of "[Keeper_thread 0, Keeper_thread 0]"] l0(1) using l by simp
  ultimately show ?thesis by auto
qed

end
