(* ===== verification/TimerLoop.thy ===== *)
theory TimerLoop
  imports CombinedTimer
begin

text \<open>
  The thread of a \<^verbatim>\<open>combined_timer\<close> and the thread of its client, step by step.  \<open>CombinedTimer\<close> takes
  \<^verbatim>\<open>addTimer\<close>, \<^verbatim>\<open>stopTimer\<close> and a round of \<^verbatim>\<open>run\<close> for single steps; here \<^verbatim>\<open>stop()\<close> is split into setting
  the flag, notifying and joining, \<^verbatim>\<open>stopTimer\<close> into its test and the rest, and a round into the
  choice of a timer, the test of the predicate, the blocking and the emission.  The notification is
  sent without the mutex of the wait.  Wakeups without a notification are left out; they only repeat
  the test.

  Every run of these steps is a run of \<open>CombinedTimer\<close> (\<open>timer_loop_reaches\<close>), so what is proved there of
  all runs holds of the threads.
\<close>

subsection \<open>The two threads\<close>

text \<open>
  The places of the timer thread: not started or joined; before the test of \<^verbatim>\<open>while\<close>; with a copy of the
  closest timer about to test the predicate, decided to block, blocked, behind the wait; returned.
\<close>

datatype timer_place =
    Timer_none
  | Timer_top
  | Timer_test timer_id timer_data
  | Timer_committed timer_id timer_data
  | Timer_blocked timer_id timer_data
  | Timer_behind timer_id timer_data
  | Timer_ended

text \<open>The calls of the client, and how far it is: \<open>Tested\<close> is between the test of \<^verbatim>\<open>stopTimer\<close> and its
  \<^verbatim>\<open>stop()\<close>.\<close>

datatype timer_call = Call_add "64 word" bool | Call_stop timer_id

datatype timer_client = Idle | Tested timer_id | Flagged timer_call | Joining timer_call

record timer_loop =
  tl_place :: timer_place
  tl_client :: timer_client
  tl_timer :: combined_timer
  tl_added :: "bool list"  \<comment> \<open>the \<^verbatim>\<open>periodic\<close> flags of the timers added\<close>
  tl_clock :: int          \<comment> \<open>the last reading of \<^verbatim>\<open>steady_clock\<close>\<close>

definition new_timer_loop :: "int \<Rightarrow> timer_loop" where
  "new_timer_loop now = \<lparr>tl_place = Timer_none, tl_client = Idle, tl_timer = new_timer, tl_added = [],
     tl_clock = now\<rparr>"

text \<open>The part of a round behind the wait, under \<^verbatim>\<open>_dataMutex\<close>.\<close>

definition timer_emit :: "int \<Rightarrow> timer_id \<Rightarrow> timer_data \<Rightarrow> combined_timer \<Rightarrow> combined_timer res" where
  "timer_emit now closestTimerId closestTimer t =
     (let t = t\<lparr>ct_timeout := ct_timeout t @ [td_id closestTimer]\<rparr> in
      if \<not> td_periodic closestTimer then
        Inr (t\<lparr>ct_timeKeeperMap := AList.delete (td_id closestTimer) (ct_timeKeeperMap t)\<rparr>)
      else
        bindR (expires now (td_duration closestTimer)) (\<lambda>e.
          Inr (t\<lparr>ct_timeKeeperMap :=
            AList.update closestTimerId (closestTimer\<lparr>td_expirationDate := e\<rparr>) (ct_timeKeeperMap t)\<rparr>)))"

definition timer_goes :: "timer_loop \<Rightarrow> timer_place \<Rightarrow> combined_timer \<Rightarrow> timer_loop run" where
  "timer_goes l p t = Some (Inr (l\<lparr>tl_place := p, tl_timer := t\<rparr>))"

text \<open>The next step of the timer thread; \<open>None\<close> when it has none.\<close>

definition timer_thread :: "int \<Rightarrow> timer_loop \<Rightarrow> timer_loop run" where
  "timer_thread now l =
     (let t = tl_timer l in
      case tl_place l of
        Timer_none \<Rightarrow> None
      | Timer_top \<Rightarrow>
          if ct_stopped t then timer_goes l Timer_ended t
          else
            let closestTimerId = getClosestTimerId (ct_timeKeeperMap t) in
            if closestTimerId = - 1 then timer_goes l Timer_ended (t\<lparr>ct_stopped := True\<rparr>)
            else (case map_of (ct_timeKeeperMap t) closestTimerId of
                    None \<Rightarrow> Some (Inl Terminated)
                  | Some closestTimer \<Rightarrow> timer_goes l (Timer_test closestTimerId closestTimer) t)
      | Timer_test i d \<Rightarrow>
          timer_goes l (if td_expirationDate d < now \<or> ct_stopped t then Timer_behind i d else Timer_committed i d) t
      | Timer_committed i d \<Rightarrow> timer_goes l (Timer_blocked i d) t
      | Timer_blocked i d \<Rightarrow> if now < td_expirationDate d then None else timer_goes l (Timer_behind i d) t
      | Timer_behind i d \<Rightarrow>
          if ct_stopped t then timer_goes l Timer_top t
          else (case timer_emit now i d t of Inl e \<Rightarrow> Some (Inl e) | Inr t \<Rightarrow> timer_goes l Timer_top t)
      | Timer_ended \<Rightarrow> None)"

text \<open>\<^verbatim>\<open>notify_one\<close> makes a blocked thread test its predicate again.\<close>

definition timer_notified :: "timer_loop \<Rightarrow> timer_loop" where
  "timer_notified l =
     (case tl_place l of Timer_blocked i d \<Rightarrow> l\<lparr>tl_place := Timer_test i d\<rparr> | _ \<Rightarrow> l)"

text \<open>What a call does once the thread is joined: it changes the map and starts a new thread.\<close>

definition call_body :: "int \<Rightarrow> timer_call \<Rightarrow> combined_timer \<Rightarrow> combined_timer res" where
  "call_body now c t =
     (case c of
        Call_add d p \<Rightarrow>
          bindR (expires now d) (\<lambda>e.
            let i = ct_lastTimerId t in
            Inr (start (t\<lparr>ct_lastTimerId := i + 1,
              ct_timeKeeperMap := AList.update i \<lparr>td_periodic = p, td_id = i, td_duration = d,
                td_expirationDate = e\<rparr> (ct_timeKeeperMap t)\<rparr>)))
      | Call_stop i \<Rightarrow> Inr (start (t\<lparr>ct_timeKeeperMap := AList.delete i (ct_timeKeeperMap t)\<rparr>)))"

definition call_flags :: "timer_call \<Rightarrow> bool list" where
  "call_flags c = (case c of Call_add d p \<Rightarrow> [p] | Call_stop i \<Rightarrow> [])"

definition timer_flag :: "timer_call \<Rightarrow> timer_loop \<Rightarrow> timer_loop" where
  "timer_flag c l = l\<lparr>tl_client := Flagged c, tl_timer := stop (tl_timer l)\<rparr>"

text \<open>The next step of a client that is in a call; \<open>None\<close> while its \<^verbatim>\<open>join\<close> waits.\<close>

definition client_step :: "int \<Rightarrow> timer_loop \<Rightarrow> timer_loop run" where
  "client_step now l =
     (case tl_client l of
        Idle \<Rightarrow> None
      | Tested i \<Rightarrow> Some (Inr (timer_flag (Call_stop i) l))
      | Flagged c \<Rightarrow> Some (Inr (timer_notified (l\<lparr>tl_client := Joining c\<rparr>)))
      | Joining c \<Rightarrow>
          if tl_place l \<noteq> Timer_none \<and> tl_place l \<noteq> Timer_ended then None
          else Some (bindR (call_body now c (tl_timer l)) (\<lambda>t.
            Inr (l\<lparr>tl_place := Timer_top, tl_client := Idle, tl_timer := t, tl_added := tl_added l @ call_flags c\<rparr>))))"

datatype timer_actor = Timer_thread | Client_step | Client_calls timer_call

fun timer_loop_act :: "timer_actor \<Rightarrow> int \<Rightarrow> timer_loop \<Rightarrow> timer_loop run" where
  "timer_loop_act Timer_thread now l = timer_thread now l"
| "timer_loop_act Client_step now l = client_step now l"
| "timer_loop_act (Client_calls c) now l =
     (if tl_client l \<noteq> Idle then None
      else case c of
        Call_add d p \<Rightarrow> Some (Inr (timer_flag c l))
      | Call_stop i \<Rightarrow>
          if map_of (ct_timeKeeperMap (tl_timer l)) i = None then Some (Inr l)
          else Some (Inr (l\<lparr>tl_client := Tested i\<rparr>)))"

text \<open>A run: who acts, and the reading of the clock, which never goes back.\<close>

fun timer_loop_acts :: "(timer_actor \<times> int) list \<Rightarrow> timer_loop \<Rightarrow> timer_loop run" where
  "timer_loop_acts [] l = Some (Inr l)"
| "timer_loop_acts ((a, now) # as) l =
     (if now < tl_clock l then None
      else bindO (timer_loop_act a now (l\<lparr>tl_clock := now\<rparr>)) (timer_loop_acts as))"

subsection \<open>What is known where\<close>

fun timer_copy :: "timer_place \<Rightarrow> (timer_id \<times> timer_data) option" where
  "timer_copy (Timer_test i d) = Some (i, d)"
| "timer_copy (Timer_committed i d) = Some (i, d)"
| "timer_copy (Timer_blocked i d) = Some (i, d)"
| "timer_copy (Timer_behind i d) = Some (i, d)"
| "timer_copy _ = None"

definition thread_gone :: "timer_loop \<Rightarrow> bool" where
  "thread_gone l \<longleftrightarrow> tl_place l = Timer_none \<or> tl_place l = Timer_ended"

fun in_stop :: "timer_client \<Rightarrow> bool" where
  "in_stop (Flagged c) \<longleftrightarrow> True"
| "in_stop (Joining c) \<longleftrightarrow> True"
| "in_stop _ \<longleftrightarrow> False"

abbreviation tl_map :: "timer_loop \<Rightarrow> (timer_id \<times> timer_data) list" where
  "tl_map l \<equiv> ct_timeKeeperMap (tl_timer l)"

text \<open>
  The copy of the thread is the closest timer of the map, which nobody changes while the thread is
  alive; behind the wait its time has come; the flag is set exactly while the client is in \<^verbatim>\<open>stop()\<close>; and
  the thread only returns by itself when there is no timer left.
\<close>

definition timer_loop_inv :: "timer_loop \<Rightarrow> bool" where
  "timer_loop_inv l \<longleftrightarrow>
     (\<forall>i d. timer_copy (tl_place l) = Some (i, d) \<longrightarrow>
        i \<noteq> - 1 \<and> getClosestTimerId (tl_map l) = i \<and> map_of (tl_map l) i = Some d) \<and>
     (\<forall>i d. tl_place l = Timer_behind i d \<longrightarrow> td_expirationDate d \<le> tl_clock l \<or> ct_stopped (tl_timer l)) \<and>
     (in_stop (tl_client l) \<longrightarrow> ct_stopped (tl_timer l)) \<and>
     (\<not> in_stop (tl_client l) \<and> \<not> thread_gone l \<longrightarrow> \<not> ct_stopped (tl_timer l)) \<and>
     (\<not> in_stop (tl_client l) \<and> thread_gone l \<longrightarrow> getClosestTimerId (tl_map l) = - 1)"

lemma timer_loop_inv_new: "timer_loop_inv (new_timer_loop now)"
  by (simp add: timer_loop_inv_def new_timer_loop_def new_timer_def thread_gone_def getClosestTimerId_def)

lemma timer_loop_inv_clock: "timer_loop_inv l \<Longrightarrow> tl_clock l \<le> now \<Longrightarrow> timer_loop_inv (l\<lparr>tl_clock := now\<rparr>)"
  by (fastforce simp: timer_loop_inv_def thread_gone_def)

lemma timer_emit_stopped: "timer_emit now i d t = Inr t' \<Longrightarrow> ct_stopped t' = ct_stopped t"
  by (auto simp: timer_emit_def Let_def bindR_Inr_iff split: if_splits)

lemma timer_thread_inv:
  assumes "timer_thread now l = Some (Inr l')" "timer_loop_inv l" "tl_clock l = now"
  shows "timer_loop_inv l'"
proof (cases "tl_place l")
  case (Timer_behind i d)
  with assms show ?thesis
    by (auto simp: timer_thread_def timer_goes_def timer_loop_inv_def thread_gone_def Let_def
        dest: timer_emit_stopped split: if_splits sum.splits)
qed (use assms in \<open>auto simp: timer_thread_def timer_goes_def timer_loop_inv_def thread_gone_def Let_def
    split: if_splits option.splits\<close>)

lemma client_step_inv:
  assumes "client_step now l = Some (Inr l')" "timer_loop_inv l"
  shows "timer_loop_inv l'"
proof (cases "tl_client l")
  case (Flagged c)
  with assms show ?thesis
    by (cases "tl_place l")
      (auto simp: client_step_def timer_notified_def timer_loop_inv_def thread_gone_def)
next
  case (Joining c)
  then obtain t where t: "call_body now c (tl_timer l) = Inr t" "l' = l\<lparr>tl_place := Timer_top, tl_client := Idle,
      tl_timer := t, tl_added := tl_added l @ call_flags c\<rparr>"
    using assms(1) by (auto simp: client_step_def bindR_Inr_iff split: if_splits)
  have "\<not> ct_stopped t"
    using t(1) by (auto simp: call_body_def start_def Let_def bindR_Inr_iff split: timer_call.splits)
  then show ?thesis by (simp add: t(2) timer_loop_inv_def thread_gone_def)
qed (use assms in \<open>auto simp: client_step_def timer_flag_def stop_def timer_loop_inv_def thread_gone_def\<close>)

lemma timer_loop_act_inv:
  assumes "timer_loop_act a now l = Some (Inr l')" "timer_loop_inv l" "tl_clock l = now"
  shows "timer_loop_inv l'"
proof (cases a)
  case (Client_calls c)
  with assms(1,2) show ?thesis
    by (auto simp: timer_flag_def stop_def timer_loop_inv_def thread_gone_def split: if_splits timer_call.splits)
qed (use assms timer_thread_inv client_step_inv in auto)

lemma timer_loop_acts_induct [consumes 2, case_names step]:
  assumes "timer_loop_acts as l = Some (Inr l')" "Q l"
    and "\<And>l l' a now. Q l \<Longrightarrow> tl_clock l \<le> now \<Longrightarrow> timer_loop_act a now (l\<lparr>tl_clock := now\<rparr>) = Some (Inr l') \<Longrightarrow> Q l'"
  shows "Q l'"
  using assms(1,2)
proof (induction as arbitrary: l)
  case (Cons b bs)
  obtain a now where b: "b = (a, now)" by (cases b)
  with Cons.prems(1) obtain l1 where l1: "tl_clock l \<le> now"
    "timer_loop_act a now (l\<lparr>tl_clock := now\<rparr>) = Some (Inr l1)" "timer_loop_acts bs l1 = Some (Inr l')"
    by (auto simp: bindO_Inr split: if_splits)
  from assms(3) [OF Cons.prems(2) l1(1,2)] l1(3) show ?case by (rule Cons.IH [rotated])
qed simp

lemma timer_loop_acts_inv: "timer_loop_acts as l = Some (Inr l') \<Longrightarrow> timer_loop_inv l \<Longrightarrow> timer_loop_inv l'"
proof (induction rule: timer_loop_acts_induct)
  case (step l l' a now)
  from timer_loop_act_inv [OF step(3) timer_loop_inv_clock [OF step(1,2)]] show ?case by simp
qed

subsection \<open>Refinement\<close>

lemma run_round_emit:
  "i \<noteq> - 1 \<Longrightarrow> getClosestTimerId (ct_timeKeeperMap t) = i \<Longrightarrow> map_of (ct_timeKeeperMap t) i = Some d \<Longrightarrow>
   run_round now t = timer_emit now i d t"
  by (simp add: run_round_def timer_emit_def Let_def)

text \<open>The coarse timer is the fine one up to its flag, which is only set when no timer is left.\<close>

definition timer_abs :: "timer_loop \<Rightarrow> combined_timer \<Rightarrow> bool" where
  "timer_abs l t \<longleftrightarrow> (\<exists>s. t = (tl_timer l)\<lparr>ct_stopped := s\<rparr> \<and> (s \<longrightarrow> getClosestTimerId (tl_map l) = - 1))"

lemma timer_abs_same:
  "timer_abs l t \<Longrightarrow> tl_timer l' = (tl_timer l)\<lparr>ct_stopped := b\<rparr> \<Longrightarrow> timer_abs l' t"
  by (auto simp: timer_abs_def)

lemma thread_refines:
  assumes "timer_thread now l = Some (Inr l')" "timer_loop_inv l" "timer_abs l t" "tl_clock l = now"
  shows "tl_added l' = tl_added l \<and> (\<exists>t'. timer_runs (tl_added l, t) (tl_added l, t') \<and> timer_abs l' t')"
proof (cases "\<exists>i d. tl_place l = Timer_behind i d \<and> \<not> ct_stopped (tl_timer l)")
  case True
  then obtain i d where p: "tl_place l = Timer_behind i d" "\<not> ct_stopped (tl_timer l)" by blast
  have i: "i \<noteq> - 1" "getClosestTimerId (tl_map l) = i" "map_of (tl_map l) i = Some d" "td_expirationDate d \<le> now"
    using assms(2,4) p by (simp_all add: timer_loop_inv_def)
  obtain u where u: "timer_emit now i d (tl_timer l) = Inr u" "l' = l\<lparr>tl_place := Timer_top, tl_timer := u\<rparr>"
    using assms(1) p by (auto simp: timer_thread_def timer_goes_def Let_def split: sum.splits)
  have t: "t = (tl_timer l)\<lparr>ct_stopped := False\<rparr>" using assms(3) i(1,2) by (auto simp: timer_abs_def)
  then have "t = tl_timer l" using p(2) by simp
  then have "run_round now t = Inr u" "waits_for t \<le> now" "\<not> ct_stopped t"
    using run_round_emit [OF i(1-3)] i u(1) p(2) by (simp_all add: waits_for_def)
  then have "timer_runs (tl_added l, t) (tl_added l, u)" by (blast intro: timer_step.fire)
  moreover have "timer_abs l' u"
    using timer_emit_stopped [OF u(1)] p(2) by (auto simp: timer_abs_def u(2) intro!: exI [of _ False])
  ultimately show ?thesis using u(2) by auto
next
  case False
  obtain b where "tl_timer l' = (tl_timer l)\<lparr>ct_stopped := b\<rparr>" "tl_added l' = tl_added l"
  proof -
    have "tl_added l' = tl_added l \<and> (\<exists>b. tl_timer l' = (tl_timer l)\<lparr>ct_stopped := b\<rparr>)"
      using assms(1) False by (cases "tl_place l")
        (auto simp: timer_thread_def timer_goes_def Let_def split: if_splits option.splits
          intro: exI [of _ True] exI [of _ "ct_stopped (tl_timer l)"])
    then show thesis using that by blast
  qed
  then show ?thesis using timer_abs_same [OF assms(3)] by auto
qed

lemma client_refines:
  assumes "client_step now l = Some (Inr l')" "timer_abs l t"
  shows "\<exists>t'. timer_runs (tl_added l, t) (tl_added l', t') \<and> timer_abs l' t'"
proof (cases "\<exists>c. tl_client l = Joining c")
  case True
  then obtain c u where c: "tl_client l = Joining c" "call_body now c (tl_timer l) = Inr u"
    "l' = l\<lparr>tl_place := Timer_top, tl_client := Idle, tl_timer := u, tl_added := tl_added l @ call_flags c\<rparr>"
    using assms(1) by (auto simp: client_step_def bindR_Inr_iff split: if_splits)
  obtain s where s: "t = (tl_timer l)\<lparr>ct_stopped := s\<rparr>" "s \<longrightarrow> getClosestTimerId (tl_map l) = - 1"
    using assms(2) by (auto simp: timer_abs_def)
  show ?thesis
  proof (cases c)
    case (Call_add d p)
    with c(2) s(1) have "addTimer now d p t = (u, Inr (ct_lastTimerId t))"
      by (auto simp: addTimer_def call_body_def stop_def start_def Let_def bindR_Inr_iff)
    then have "timer_runs (tl_added l, t) (tl_added l @ [p], u)" by (blast intro: timer_step.add)
    moreover have "ct_stopped u = False" using c(2) Call_add by (auto simp: call_body_def start_def Let_def bindR_Inr_iff)
    ultimately show ?thesis
      using c(3) Call_add by (intro exI [of _ u]) (auto simp: timer_abs_def call_flags_def intro!: exI [of _ False])
  next
    case (Call_stop i)
    have u: "u = start ((tl_timer l)\<lparr>ct_timeKeeperMap := AList.delete i (tl_map l)\<rparr>)"
      using c(2) Call_stop by (simp add: call_body_def)
    show ?thesis
    proof (cases "map_of (tl_map l) i = None")
      case True
      then have "u = (tl_timer l)\<lparr>ct_stopped := False\<rparr>"
        using u by (simp add: start_def AList.delete_id map_of_eq_None_iff)
      then show ?thesis
        using timer_abs_same [OF assms(2), of l' False] c(3) Call_stop by (auto simp: call_flags_def)
    next
      case False
      then have "stopTimer i t = (u, True)" using s(1) u by (simp add: stopTimer_def stop_def start_def Let_def)
      then have "timer_runs (tl_added l, t) (tl_added l, u)" by (blast intro: timer_step.stop)
      then show ?thesis
        using c(3) Call_stop u by (intro exI [of _ u]) (auto simp: timer_abs_def call_flags_def start_def intro!: exI [of _ False])
    qed
  qed
next
  case False
  then have "tl_added l' = tl_added l" "\<exists>b. tl_timer l' = (tl_timer l)\<lparr>ct_stopped := b\<rparr>"
    using assms(1) by (auto simp: client_step_def timer_flag_def stop_def timer_notified_def
        split: timer_client.splits timer_place.splits intro: exI [of _ True] exI [of _ "ct_stopped (tl_timer l)"])
  then show ?thesis using timer_abs_same [OF assms(2)] by auto
qed

lemma act_refines:
  assumes "timer_loop_act a now l = Some (Inr l')" "timer_loop_inv l" "timer_abs l t" "tl_clock l = now"
  shows "\<exists>t'. timer_runs (tl_added l, t) (tl_added l', t') \<and> timer_abs l' t'"
proof (cases a)
  case (Client_calls c)
  with assms(1) have "tl_added l' = tl_added l" "\<exists>b. tl_timer l' = (tl_timer l)\<lparr>ct_stopped := b\<rparr>"
    by (auto simp: timer_flag_def stop_def split: if_splits timer_call.splits
        intro: exI [of _ True] exI [of _ "ct_stopped (tl_timer l)"])
  then show ?thesis using timer_abs_same [OF assms(3)] by auto
qed (use assms thread_refines client_refines in fastforce)+

lemma timer_loop_reaches:
  assumes "timer_loop_acts as (new_timer_loop now) = Some (Inr l)"
  shows "\<exists>t. timer_runs ([], new_timer) (tl_added l, t) \<and> ct_timeKeeperMap t = tl_map l \<and>
    ct_lastTimerId t = ct_lastTimerId (tl_timer l) \<and> ct_timeout t = ct_timeout (tl_timer l)"
proof -
  let ?Q = "\<lambda>l. timer_loop_inv l \<and> (\<exists>t. timer_runs ([], new_timer) (tl_added l, t) \<and> timer_abs l t)"
  have "timer_abs (new_timer_loop now) new_timer"
    by (auto simp: timer_abs_def new_timer_loop_def new_timer_def getClosestTimerId_def)
  then have "?Q (new_timer_loop now)" using timer_loop_inv_new by (auto simp: new_timer_loop_def)
  with assms have "?Q l"
  proof (induction rule: timer_loop_acts_induct)
    case (step l l' a now)
    let ?l = "l\<lparr>tl_clock := now\<rparr>"
    obtain t where t: "timer_runs ([], new_timer) (tl_added l, t)" "timer_abs l t" using step(1) by blast
    have inv: "timer_loop_inv ?l" using step(1,2) timer_loop_inv_clock by blast
    have "timer_abs ?l t" using t(2) by (simp add: timer_abs_def)
    from act_refines [OF step(3) inv this] obtain t' where
      t': "timer_runs (tl_added l, t) (tl_added l', t')" "timer_abs l' t'" by auto
    then have "timer_runs ([], new_timer) (tl_added l', t')" using t(1) by (meson rtranclp_trans)
    then show ?case using timer_loop_act_inv [OF step(3) inv] t'(2) by auto
  qed
  then show ?thesis by (auto simp: timer_abs_def)
qed

text \<open>
  C8. The threads of a \<^verbatim>\<open>combined_timer\<close> do nothing that its rounds and operations, taken as single steps,
  do not do: however the client and the timer thread interleave, the timers, the next identifier and
  the timeouts emitted are those of a run of \<open>timer_step\<close> that adds the same timers.
\<close>

theorem timer_loop_refines:
  assumes "timer_loop_acts as (new_timer_loop now) = Some (Inr l)"
  shows "\<exists>t. timer_runs ([], new_timer) (tl_added l, t) \<and> ct_timeKeeperMap t = tl_map l \<and>
    ct_lastTimerId t = ct_lastTimerId (tl_timer l) \<and> ct_timeout t = ct_timeout (tl_timer l)"
  using assms by (rule timer_loop_reaches)

theorem timer_loop_refines_witness:
  "\<exists>l t. timer_loop_acts [(Client_calls (Call_add 5 False), 0), (Client_step, 0), (Client_step, 0),
       (Timer_thread, 1), (Timer_thread, 6000000), (Client_calls (Call_stop 0), 6000000),
       (Timer_thread, 6000000), (Client_step, 6000000), (Client_step, 6000000),
       (Timer_thread, 6000000), (Client_step, 6000000)] (new_timer_loop 0) = Some (Inr l) \<and>
     tl_client l = Idle \<and> ct_timeout (tl_timer l) = [0] \<and>
     timer_runs ([], new_timer) ([False], t) \<and> ct_timeout t = [0]"
proof -
  obtain l where l: "timer_loop_acts [(Client_calls (Call_add 5 False), 0), (Client_step, 0), (Client_step, 0),
       (Timer_thread, 1), (Timer_thread, 6000000), (Client_calls (Call_stop 0), 6000000),
       (Timer_thread, 6000000), (Client_step, 6000000), (Client_step, 6000000),
       (Timer_thread, 6000000), (Client_step, 6000000)] (new_timer_loop 0) = Some (Inr l)"
    "tl_client l = Idle" "ct_timeout (tl_timer l) = [0]" "tl_added l = [False]"
    by (simp add: new_timer_loop_def new_timer_def timer_flag_def stop_def start_def client_step_def
        timer_notified_def call_body_def call_flags_def expires_def in_int64_def timer_thread_def timer_goes_def
        getClosestTimerId_def timer_emit_def Let_def)
  from timer_loop_refines [OF l(1)] l show ?thesis by auto
qed

subsection \<open>Waiting\<close>

lemma timer_loop_runs:
  assumes "timer_loop_acts as (new_timer_loop now) = Some (Inr l)" "length (tl_added l) \<le> 65535"
  shows "wf_map (tl_map l)" "\<forall>p \<in> set (tl_map l). fst p \<noteq> - 1"
proof -
  obtain t where t: "timer_runs ([], new_timer) (tl_added l, t)" "ct_timeKeeperMap t = tl_map l"
    using timer_loop_reaches [OF assms(1)] by blast
  have inv: "timer_inv (tl_added l) t" using timer_runs_inv [OF t(1) timer_inv_new assms(2)] .
  then show "wf_map (tl_map l)" by (simp add: timer_inv_def t(2))
  have "unat (- 1 :: timer_id) = 65535" by (simp add: unsigned_minus_1_eq_mask mask_eq_exp_minus_1)
  moreover have "\<forall>p \<in> set (tl_map l). unat (fst p) < length (tl_added l)"
    using inv by (auto simp: timer_inv_def t(2))
  ultimately show "\<forall>p \<in> set (tl_map l). fst p \<noteq> - 1" using assms(2) by fastforce
qed

text \<open>So a one-shot timer fires at most once, and only timers that were added fire, step by step, too.\<close>

lemma timer_loop_once:
  assumes "timer_loop_acts as (new_timer_loop now) = Some (Inr l)" "length (tl_added l) \<le> 65535"
  shows "\<forall>i \<in> set (ct_timeout (tl_timer l)). unat i < length (tl_added l) \<and>
    (\<not> tl_added l ! unat i \<longrightarrow> count (mset (ct_timeout (tl_timer l))) i = 1)"
proof -
  obtain t where t: "timer_runs ([], new_timer) (tl_added l, t)" "ct_timeout t = ct_timeout (tl_timer l)"
    using timer_loop_reaches [OF assms(1)] by blast
  have "timer_inv (tl_added l) t" using timer_runs_inv [OF t(1) timer_inv_new assms(2)] .
  then have "unat i < length (tl_added l)" "\<not> tl_added l ! unat i \<longrightarrow> count (mset (ct_timeout t)) i \<le> 1"
    if "i \<in> set (ct_timeout t)" for i using that by (auto simp: timer_inv_def)
  moreover have "0 < count (mset (ct_timeout t)) i" if "i \<in> set (ct_timeout t)" for i using that by simp
  ultimately show ?thesis unfolding t(2) by (metis One_nat_def Suc_leI le_antisym)
qed

lemma joined_in_time:
  assumes "in_stop (tl_client l)" "timer_loop_inv l" "tl_clock l \<le> now"
    and "\<And>i d. tl_place l = Timer_blocked i d \<Longrightarrow> td_expirationDate d \<le> now"
    and "\<And>i d. tl_place l = Timer_committed i d \<Longrightarrow> td_expirationDate d \<le> now"
  shows "\<exists>n \<le> 4. \<exists>l'. timer_loop_acts (replicate n (Timer_thread, now)) l = Some (Inr l') \<and> thread_gone l' \<and>
    tl_client l' = tl_client l \<and> tl_timer l' = tl_timer l"
proof -
  have s: "ct_stopped (tl_timer l)" using assms(1,2) by (simp add: timer_loop_inv_def)
  note defs = numeral_eq_Suc timer_thread_def timer_goes_def thread_gone_def Let_def
  show ?thesis
  proof (cases "tl_place l")
    case Timer_none
    then show ?thesis by (intro exI [of _ 0]) (simp add: thread_gone_def)
  next
    case Timer_top
    then show ?thesis using s assms(3) by (intro exI [of _ 1]) (simp add: defs)
  next
    case (Timer_test i d)
    then show ?thesis using s assms(3) by (intro exI [of _ 3]) (simp add: defs)
  next
    case (Timer_committed i d)
    then show ?thesis using s assms(3) assms(5) [OF Timer_committed] by (intro exI [of _ 4]) (simp add: defs)
  next
    case (Timer_blocked i d)
    then show ?thesis using s assms(3) assms(4) [OF Timer_blocked] by (intro exI [of _ 3]) (simp add: defs)
  next
    case (Timer_behind i d)
    then show ?thesis using s assms(3) by (intro exI [of _ 2]) (simp add: defs)
  next
    case Timer_ended
    then show ?thesis by (intro exI [of _ 0]) (simp add: thread_gone_def)
  qed
qed

text \<open>
  C28. As long as identifiers are left no timeout is slept through, and no call hangs: outside \<^verbatim>\<open>stop()\<close>
  the timer thread is not blocked when the time of some timer has come; and a client inside it can join
  the thread after at most four of its steps, at the latest when the time of the earliest timer has come.
\<close>

theorem timer_loop_serves:
  assumes "timer_loop_acts as (new_timer_loop now0) = Some (Inr l)" "length (tl_added l) \<le> 65535"
    and "p \<in> set (tl_map l)" "due p \<le> now" "tl_clock l \<le> now"
  shows "if in_stop (tl_client l)
    then \<exists>n \<le> 4. \<exists>l'. timer_loop_acts (replicate n (Timer_thread, now)) l = Some (Inr l') \<and> thread_gone l' \<and>
      tl_client l' = tl_client l \<and> tl_timer l' = tl_timer l
    else timer_thread now l \<noteq> None"
proof -
  note wf = timer_loop_runs [OF assms(1,2)]
  have inv: "timer_loop_inv l" by (rule timer_loop_acts_inv [OF assms(1) timer_loop_inv_new])
  have ne: "tl_map l \<noteq> []" using assms(3) by auto
  from getClosest_first_min [OF wf(1) ne] obtain ys x zs where x: "tl_map l = ys @ x # zs"
    "getClosestTimerId (tl_map l) = fst x" "\<forall>y \<in> set ys. due x < due y" "\<forall>z \<in> set zs. due x \<le> due z" .
  have "due x \<le> due p" using assms(3) x(1,3,4) by (auto intro: less_imp_le)
  moreover have "d = snd x" if "timer_copy (tl_place l) = Some (i, d)" for i d
  proof -
    have "i = fst x" "map_of (tl_map l) i = Some d" using inv that x(2) by (simp_all add: timer_loop_inv_def)
    then show ?thesis using map_of_middle(1) [of ys x zs] wf(1) x(1) by simp
  qed
  ultimately have d: "td_expirationDate d \<le> now" if "timer_copy (tl_place l) = Some (i, d)" for i d
    using assms(4) that by fastforce
  show ?thesis
  proof (cases "in_stop (tl_client l)")
    case True
    have "\<exists>n \<le> 4. \<exists>l'. timer_loop_acts (replicate n (Timer_thread, now)) l = Some (Inr l') \<and> thread_gone l' \<and>
      tl_client l' = tl_client l \<and> tl_timer l' = tl_timer l"
      by (rule joined_in_time [OF True inv assms(5)]) (auto intro: d)
    with True show ?thesis by simp
  next
    case False
    have "getClosestTimerId (tl_map l) \<noteq> - 1" using wf(2) x(1,2) by simp
    then have "\<not> thread_gone l" using inv False by (auto simp: timer_loop_inv_def)
    then have "timer_thread now l \<noteq> None"
      using d by (cases "tl_place l")
        (auto simp: timer_thread_def timer_goes_def thread_gone_def Let_def split: sum.splits option.splits)
    with False show ?thesis by simp
  qed
qed

theorem timer_loop_serves_witness:
  "\<exists>l. timer_loop_acts [(Client_calls (Call_add 5 False), 0), (Client_step, 0), (Client_step, 0),
       (Timer_thread, 1), (Timer_thread, 2), (Timer_thread, 3)] (new_timer_loop 0) = Some (Inr l) \<and>
     timer_thread 4999999 l = None \<and> timer_thread 5000000 l \<noteq> None"
proof -
  obtain l p where l: "timer_loop_acts [(Client_calls (Call_add 5 False), 0), (Client_step, 0), (Client_step, 0),
       (Timer_thread, 1), (Timer_thread, 2), (Timer_thread, 3)] (new_timer_loop 0) = Some (Inr l)"
    "tl_added l = [False]" "p \<in> set (tl_map l)" "due p = 5000000" "tl_clock l = 3" "tl_client l = Idle"
    "timer_thread 4999999 l = None"
    by (simp add: new_timer_loop_def new_timer_def timer_flag_def stop_def start_def client_step_def
        timer_notified_def call_body_def call_flags_def expires_def in_int64_def timer_thread_def timer_goes_def
        getClosestTimerId_def Let_def)
  with timer_loop_serves [OF l(1), of p 5000000] show ?thesis by auto
qed

text \<open>
  The notification of \<^verbatim>\<open>stop()\<close> can come between the test of the predicate and the blocking and is lost
  then.  So a client that adds a timer of ten milliseconds may have to wait for an hour, when another
  timer of that length is running.
\<close>

lemma add_waits_for_other_timer:
  "\<exists>l. timer_loop_acts [(Client_calls (Call_add 3600000 False), 0), (Client_step, 0), (Client_step, 0),
       (Timer_thread, 0), (Timer_thread, 0), (Client_calls (Call_add 10 False), 0), (Client_step, 0),
       (Timer_thread, 0)] (new_timer_loop 0) = Some (Inr l) \<and> tl_client l = Joining (Call_add 10 False) \<and>
     (\<forall>now < 3600000000000. timer_thread now l = None \<and> client_step now l = None)"
  by (simp add: new_timer_loop_def new_timer_def timer_flag_def stop_def start_def client_step_def
      timer_notified_def call_body_def call_flags_def expires_def in_int64_def timer_thread_def timer_goes_def
      getClosestTimerId_def Let_def)

end
