(* ===== verification/TimeUtils.thy ===== *)
theory TimeUtils
  imports Prelude "HOL-Library.Signed_Division"
begin

text \<open>
  \<^verbatim>\<open>include/brutils/time_utils.h\<close> and \<^verbatim>\<open>src/brutils/time_utils.cpp\<close>: the eight functions that
  print a time point, with the part of the standard library they use: \<^verbatim>\<open>to_time_t\<close>, \<^verbatim>\<open>gmtime\<close>,
  \<^verbatim>\<open>localtime\<close> and \<^verbatim>\<open>put_time\<close> in the C locale.  A \<^verbatim>\<open>system_clock::time_point\<close> is a signed 64-bit
  count of nanoseconds since 1970, so that every one of them has a broken-down time.  The time
  zone of the process is a parameter: what is added to a second, and the zone's name then.
  The reading of the clock is the argument \<open>now\<close> of the functions that take no time point.
\<close>

subsection \<open>The calendar\<close>

text \<open>Days are counted from the first of January of the year 1, a Monday.\<close>

definition leap_year :: "int \<Rightarrow> bool" where
  "leap_year y \<longleftrightarrow> y mod 4 = 0 \<and> (y mod 100 \<noteq> 0 \<or> y mod 400 = 0)"

definition year_length :: "int \<Rightarrow> int" where
  "year_length y = (if leap_year y then 366 else 365)"

definition month_lengths :: "int \<Rightarrow> int list" where
  "month_lengths y = [31, if leap_year y then 29 else 28, 31, 30, 31, 30, 31, 31, 30, 31, 30, 31]"

definition days_before_year :: "int \<Rightarrow> int" where
  "days_before_year y = 365 * (y - 1) + (y - 1) div 4 - (y - 1) div 100 + (y - 1) div 400"

text \<open>The year of a day, from the mean length of a year and corrected by at most one.\<close>

definition year_of_day :: "int \<Rightarrow> int" where
  "year_of_day d =
     (let y = 400 * d div 146097 + 1 in
      if d < days_before_year y then y - 1
      else if days_before_year (y + 1) \<le> d then y + 1
      else y)"

fun split_month :: "int list \<Rightarrow> int \<Rightarrow> int \<times> int" where
  "split_month [] d = (0, d)"
| "split_month (l # ls) d =
     (if d < l then (0, d) else case split_month ls (d - l) of (m, r) \<Rightarrow> (m + 1, r))"

lemma days_before_year_Suc: "days_before_year (y + 1) = days_before_year y + year_length y"
proof -
  have q: "y div k = (y - 1) div k + (if y mod k = 0 then 1 else 0)" if "k > 1" for k :: int
  proof (cases "y mod k = 0")
    case True
    then obtain q where "y = k * q" by auto
    moreover have "(k * q - 1) div k = q - 1" using that
      by (intro int_div_pos_eq [of _ _ _ "k - 1"]) (simp_all add: algebra_simps)
    ultimately show ?thesis using that by simp
  next
    case False
    have m: "y = k * (y div k) + y mod k" by simp
    have "0 \<le> y mod k" "y mod k < k" using that by simp_all
    with False have "0 \<le> y mod k - 1" "y mod k - 1 < k" by linarith+
    then have "(y - 1) div k = y div k"
      by (intro int_div_pos_eq [of _ _ _ "y mod k - 1"]) (use m in linarith)+
    with False show ?thesis by simp
  qed
  have d: "y mod 100 = 0 \<Longrightarrow> y mod 4 = 0" "y mod 400 = 0 \<Longrightarrow> y mod 100 = 0" by presburger+
  have len: "year_length y = 365 + (if y mod 4 = 0 then 1 else 0) - (if y mod 100 = 0 then 1 else 0) +
      (if y mod 400 = 0 then 1 else 0)"
    using d by (cases "y mod 4 = 0"; cases "y mod 100 = 0"; cases "y mod 400 = 0")
      (simp_all add: year_length_def leap_year_def)
  have "days_before_year (y + 1) - days_before_year y =
      365 + (y div 4 - (y - 1) div 4) - (y div 100 - (y - 1) div 100) + (y div 400 - (y - 1) div 400)"
    by (simp add: days_before_year_def algebra_simps)
  also have "\<dots> = year_length y"
    unfolding len by (subst q [of 4], simp, subst q [of 100], simp, subst q [of 400], simp, simp)
  finally show ?thesis by simp
qed

lemma year_length_pos: "365 \<le> year_length y \<and> year_length y \<le> 366"
  by (simp_all add: year_length_def)

lemma days_before_year_bounds:
  "146097 * (y - 1) - 699 \<le> 400 * days_before_year y \<and>
   400 * days_before_year y \<le> 146097 * (y - 1) + 396"
proof -
  define z where "z = y - 1"
  define a b c where abc: "a = z div 4" "b = z div 100" "c = z div 400"
  have "0 \<le> z - 4 * a" "z - 4 * a < 4" "0 \<le> z - 100 * b" "z - 100 * b < 100"
    "0 \<le> z - 400 * c" "z - 400 * c < 400"
    unfolding abc minus_mult_div_eq_mod by simp_all
  moreover have "days_before_year y = 365 * z + a - b + c"
    by (simp add: days_before_year_def abc z_def)
  ultimately show ?thesis unfolding z_def [symmetric] by linarith
qed

lemma year_of_day_bounds:
  "days_before_year (year_of_day d) \<le> d \<and> d < days_before_year (year_of_day d + 1)"
proof -
  define q where "q = 400 * d div 146097"
  have "0 \<le> 400 * d - 146097 * q" "400 * d - 146097 * q < 146097"
    unfolding q_def minus_mult_div_eq_mod by simp_all
  then have "days_before_year q \<le> d \<and> d < days_before_year (q + 3)"
    using days_before_year_bounds [of q] days_before_year_bounds [of "q + 3"] by auto
  then show ?thesis unfolding year_of_day_def Let_def q_def [symmetric]
    by (simp add: add.assoc)
qed

lemma days_before_year_mono: "x \<le> y \<Longrightarrow> days_before_year x \<le> days_before_year y"
proof (induction y rule: int_ge_induct)
  case (step y)
  then show ?case using days_before_year_Suc [of y] year_length_pos [of y] by linarith
qed simp

lemma year_of_day_unique:
  assumes "days_before_year y \<le> d" "d < days_before_year (y + 1)"
  shows "year_of_day d = y"
proof -
  have "\<not> year_of_day d + 1 \<le> y" "\<not> y + 1 \<le> year_of_day d"
    using assms year_of_day_bounds [of d] days_before_year_mono [of "year_of_day d + 1" y]
      days_before_year_mono [of "y + 1" "year_of_day d"] by linarith+
  then show ?thesis by linarith
qed

subsection \<open>Broken-down time\<close>

record tm =
  tm_sec :: int
  tm_min :: int
  tm_hour :: int
  tm_mday :: int
  tm_mon :: int    \<comment> \<open>from 0\<close>
  tm_year :: int   \<comment> \<open>from 1900\<close>
  tm_wday :: int   \<comment> \<open>from Sunday\<close>
  tm_yday :: int   \<comment> \<open>from 0\<close>
  tm_gmtoff :: int
  tm_zone :: string

record time_zone =
  tz_offset :: "int \<Rightarrow> int"     \<comment> \<open>seconds east of Greenwich, at a second since 1970\<close>
  tz_name :: "int \<Rightarrow> string"

type_synonym time_point = "64 word"

text \<open>\<^verbatim>\<open>system_clock::to_time_t\<close> is a \<^verbatim>\<open>duration_cast\<close> to seconds, which truncates toward zero.\<close>

definition to_time_t :: "time_point \<Rightarrow> int" where
  "to_time_t t = sint t sdiv 1000000000"

definition epoch_day :: int where
  "epoch_day = 719162"

definition broken_down :: "int \<Rightarrow> int \<Rightarrow> string \<Rightarrow> tm" where
  "broken_down t off zone =
     (let s = t + off;
          d = epoch_day + s div 86400;
          y = year_of_day d;
          yday = d - days_before_year y;
          (m, r) = split_month (month_lengths y) yday
      in \<lparr>tm_sec = s mod 60, tm_min = s div 60 mod 60, tm_hour = s div 3600 mod 24,
          tm_mday = r + 1, tm_mon = m, tm_year = y - 1900, tm_wday = (d + 1) mod 7, tm_yday = yday,
          tm_gmtoff = off, tm_zone = zone\<rparr>)"

definition std_gmtime :: "int \<Rightarrow> tm" where
  "std_gmtime t = broken_down t 0 ''GMT''"

definition std_localtime :: "time_zone \<Rightarrow> int \<Rightarrow> tm" where
  "std_localtime Z t = broken_down t (tz_offset Z t) (tz_name Z t)"

text \<open>What the fields mean: the day and the second they stand for.\<close>

definition tm_day :: "tm \<Rightarrow> int" where
  "tm_day x = days_before_year (tm_year x + 1900) +
     sum_list (take (nat (tm_mon x)) (month_lengths (tm_year x + 1900))) + tm_mday x - 1"

definition tm_seconds :: "tm \<Rightarrow> int" where
  "tm_seconds x = (tm_day x - epoch_day) * 86400 + tm_hour x * 3600 + tm_min x * 60 + tm_sec x"

definition tm_ok :: "tm \<Rightarrow> bool" where
  "tm_ok x \<longleftrightarrow> 0 \<le> tm_sec x \<and> tm_sec x < 60 \<and> 0 \<le> tm_min x \<and> tm_min x < 60 \<and>
     0 \<le> tm_hour x \<and> tm_hour x < 24 \<and> 0 \<le> tm_mon x \<and> tm_mon x < 12 \<and>
     1 \<le> tm_mday x \<and> tm_mday x \<le> month_lengths (tm_year x + 1900) ! nat (tm_mon x) \<and>
     0 \<le> tm_wday x \<and> tm_wday x < 7 \<and> 0 \<le> tm_yday x \<and> tm_yday x < year_length (tm_year x + 1900)"

lemma split_month_correct:
  assumes "split_month ls d = (m, r)" "0 \<le> d" "d < sum_list ls"
  shows "0 \<le> m \<and> m < int (length ls) \<and> 0 \<le> r \<and> r < ls ! nat m \<and> d = sum_list (take (nat m) ls) + r"
  using assms
proof (induction ls arbitrary: d m r)
  case (Cons l ls)
  show ?case
  proof (cases "d < l")
    case False
    obtain m' r' where s: "split_month ls (d - l) = (m', r')" by (cases "split_month ls (d - l)")
    with Cons.prems False have mr: "m = m' + 1" "r = r'" by auto
    with Cons.IH [OF s] Cons.prems False show ?thesis by (auto simp: nat_add_distrib)
  qed (use Cons.prems in auto)
qed simp

lemma month_lengths_facts [simp]:
  "length (month_lengths y) = 12" "sum_list (month_lengths y) = year_length y"
  by (simp_all add: month_lengths_def year_length_def)

lemma month_length_le: "0 \<le> m \<Longrightarrow> m < 12 \<Longrightarrow> month_lengths y ! nat m \<le> 31"
proof -
  have "\<forall>l \<in> set (month_lengths y). l \<le> 31" by (simp add: month_lengths_def)
  then show "0 \<le> m \<Longrightarrow> m < 12 \<Longrightarrow> month_lengths y ! nat m \<le> 31" by simp
qed

lemma hms:
  "s = m * 60 + c \<Longrightarrow> m = h * 60 + b \<Longrightarrow> h = d * 24 + a \<Longrightarrow>
   s = d * 86400 + a * 3600 + b * 60 + (c :: int)"
  by simp

lemma broken_down_correct:
  "tm_ok (broken_down t off zone) \<and> tm_seconds (broken_down t off zone) = t + off"
proof -
  define s where "s = t + off"
  define d where "d = epoch_day + s div 86400"
  define y where "y = year_of_day d"
  obtain m r where mr: "split_month (month_lengths y) (d - days_before_year y) = (m, r)"
    by (cases "split_month (month_lengths y) (d - days_before_year y)")
  have y: "days_before_year y \<le> d" "d < days_before_year y + year_length y"
    using year_of_day_bounds [of d] days_before_year_Suc [of y] unfolding y_def by simp_all
  have m: "0 \<le> m" "m < 12" "0 \<le> r" "r < month_lengths y ! nat m"
    "d - days_before_year y = sum_list (take (nat m) (month_lengths y)) + r"
    using split_month_correct [OF mr] y by simp_all
  define S M H where SMH: "S = s mod 60" "M = s div 60 mod 60" "H = s div 3600 mod 24"
  define wd where "wd = (d + 1) mod 7"
  have b: "broken_down t off zone = \<lparr>tm_sec = S, tm_min = M, tm_hour = H,
          tm_mday = r + 1, tm_mon = m, tm_year = y - 1900, tm_wday = wd,
          tm_yday = d - days_before_year y, tm_gmtoff = off, tm_zone = zone\<rparr>"
    unfolding broken_down_def Let_def s_def [symmetric] d_def [symmetric] y_def [symmetric] mr prod.case
      SMH wd_def by (rule refl)
  have f: "tm_year (broken_down t off zone) + 1900 = y" "tm_mon (broken_down t off zone) = m"
    "tm_mday (broken_down t off zone) = r + 1" "tm_yday (broken_down t off zone) = d - days_before_year y"
    "tm_sec (broken_down t off zone) = S" "tm_min (broken_down t off zone) = M"
    "tm_hour (broken_down t off zone) = H" "tm_wday (broken_down t off zone) = wd"
    unfolding b by simp_all
  have r: "0 \<le> S \<and> S < 60 \<and> 0 \<le> M \<and> M < 60 \<and> 0 \<le> H \<and> H < 24 \<and> 0 \<le> wd \<and> wd < 7"
    unfolding SMH wd_def by simp
  have "tm_ok (broken_down t off zone)" unfolding tm_ok_def f using r m y by simp
  moreover have "tm_day (broken_down t off zone) = d" unfolding tm_day_def f using m by linarith
  moreover have "s = s div 86400 * 86400 + s div 3600 mod 24 * 3600 + s div 60 mod 60 * 60 + s mod 60"
  proof -
    have "s div 3600 = s div 60 div 60" "s div 86400 = s div 3600 div 24" by (simp_all add: div_mult2_eq [symmetric])
    moreover have "\<And>a b. b \<noteq> 0 \<Longrightarrow> a = a div b * b + (a mod b :: int)" by simp
    ultimately have "s = s div 60 * 60 + s mod 60" "s div 60 = s div 3600 * 60 + s div 60 mod 60"
      "s div 3600 = s div 86400 * 24 + s div 3600 mod 24" by (metis zero_neq_numeral)+
    then show ?thesis by (rule hms)
  qed
  moreover have "(d - epoch_day) * 86400 = s div 86400 * 86400" by (simp add: d_def)
  ultimately show ?thesis unfolding tm_seconds_def f SMH [symmetric] s_def [symmetric] by simp
qed

subsection \<open>\<^verbatim>\<open>put_time\<close>\<close>

definition day_names :: "string list" where
  "day_names = [''Sunday'', ''Monday'', ''Tuesday'', ''Wednesday'', ''Thursday'', ''Friday'', ''Saturday'']"

definition month_names :: "string list" where
  "month_names = [''January'', ''February'', ''March'', ''April'', ''May'', ''June'', ''July'', ''August'',
     ''September'', ''October'', ''November'', ''December'']"

definition pad_int :: "nat \<Rightarrow> char \<Rightarrow> int \<Rightarrow> string" where
  "pad_int width c i = (let s = show_int i in replicate (width - length s) c @ s)"

abbreviation two :: "int \<Rightarrow> string" where "two i \<equiv> pad_int 2 (CHR ''0'') i"

definition hour12 :: "tm \<Rightarrow> int" where
  "hour12 x = (if tm_hour x mod 12 = 0 then 12 else tm_hour x mod 12)"

definition full_year :: "tm \<Rightarrow> int" where
  "full_year x = tm_year x + 1900"

text \<open>The year and the week of ISO 8601: those of the Thursday of the week.\<close>

definition iso_year_week :: "tm \<Rightarrow> int \<times> int" where
  "iso_year_week x =
     (let y = full_year x;
          thursday = tm_yday x - (tm_wday x + 6) mod 7 + 3
      in if thursday < 0 then (y - 1, (thursday + year_length (y - 1)) div 7 + 1)
         else if year_length y \<le> thursday then (y + 1, (thursday - year_length y) div 7 + 1)
         else (y, thursday div 7 + 1))"

definition zone_offset :: "int \<Rightarrow> string" where
  "zone_offset off = (if off < 0 then CHR ''-'' else CHR ''+'') # two (\<bar>off\<bar> div 3600) @ two (\<bar>off\<bar> div 60 mod 60)"

text \<open>A conversion of \<^verbatim>\<open>strftime\<close> that prints one field, and those that abbreviate several.\<close>

definition put_field :: "tm \<Rightarrow> char \<Rightarrow> string option" where
  "put_field x c = map_of [
     (CHR ''%'', ''%''), (CHR ''n'', [lf]), (CHR ''t'', [CHR 0x09]),
     (CHR ''a'', take 3 (day_names ! nat (tm_wday x))), (CHR ''A'', day_names ! nat (tm_wday x)),
     (CHR ''b'', take 3 (month_names ! nat (tm_mon x))), (CHR ''B'', month_names ! nat (tm_mon x)),
     (CHR ''h'', take 3 (month_names ! nat (tm_mon x))),
     (CHR ''C'', two (full_year x div 100)), (CHR ''y'', two (full_year x mod 100)),
     (CHR ''Y'', show_int (full_year x)), (CHR ''m'', two (tm_mon x + 1)),
     (CHR ''d'', two (tm_mday x)), (CHR ''e'', pad_int 2 (CHR 0x20) (tm_mday x)),
     (CHR ''j'', pad_int 3 (CHR ''0'') (tm_yday x + 1)),
     (CHR ''u'', show_int ((tm_wday x + 6) mod 7 + 1)), (CHR ''w'', show_int (tm_wday x)),
     (CHR ''U'', two ((tm_yday x + 7 - tm_wday x) div 7)),
     (CHR ''W'', two ((tm_yday x + 7 - (tm_wday x + 6) mod 7) div 7)),
     (CHR ''V'', two (snd (iso_year_week x))), (CHR ''G'', show_int (fst (iso_year_week x))),
     (CHR ''g'', two (fst (iso_year_week x) mod 100)),
     (CHR ''H'', two (tm_hour x)), (CHR ''I'', two (hour12 x)), (CHR ''M'', two (tm_min x)),
     (CHR ''S'', two (tm_sec x)), (CHR ''p'', if tm_hour x < 12 then ''AM'' else ''PM''),
     (CHR ''z'', zone_offset (tm_gmtoff x)), (CHR ''Z'', tm_zone x)] c"

definition composite_formats :: "(char \<times> string) list" where
  "composite_formats = [
     (CHR ''D'', ''%m/%d/%y''), (CHR ''F'', ''%Y-%m-%d''), (CHR ''T'', ''%H:%M:%S''), (CHR ''R'', ''%H:%M''),
     (CHR ''r'', ''%I:%M:%S %p''), (CHR ''x'', ''%m/%d/%y''), (CHR ''X'', ''%H:%M:%S''),
     (CHR ''c'', ''%a %b %e %H:%M:%S %Y'')]"

text \<open>Any other conversion, and a modifier in front of a conversion that has none, is undefined.\<close>

fun put_simple :: "tm \<Rightarrow> string \<Rightarrow> string option" where
  "put_simple x (c # d # fmt) =
     (if c = CHR ''%'' then
        (case (put_field x d, put_simple x fmt) of (Some s, Some t) \<Rightarrow> Some (s @ t) | _ \<Rightarrow> None)
      else map_option ((#) c) (put_simple x (d # fmt)))"
| "put_simple x [c] = Some [c]"
| "put_simple x [] = Some []"

definition put_conversion :: "tm \<Rightarrow> char \<Rightarrow> string option" where
  "put_conversion x c = (case map_of composite_formats c of
     Some fmt \<Rightarrow> put_simple x fmt | None \<Rightarrow> put_field x c)"

definition put_modified :: "tm \<Rightarrow> char \<Rightarrow> char \<Rightarrow> string option" where
  "put_modified x m c =
     (if c \<in> set (if m = CHR ''E'' then ''cCxXyY'' else ''deHImMSuUVwWy'') then put_conversion x c else None)"

text \<open>\<^verbatim>\<open>time_put::put\<close>: an incomplete conversion at the end of the format prints nothing.\<close>

fun time_put :: "tm \<Rightarrow> string \<Rightarrow> string res" where
  "time_put x [] = Inr []"
| "time_put x (c # fmt) =
     (if c \<noteq> CHR ''%'' then bindR (time_put x fmt) (\<lambda>t. Inr (c # t))
      else case fmt of
        [] \<Rightarrow> Inr []
      | d # fmt' \<Rightarrow>
          if d \<noteq> CHR ''E'' \<and> d \<noteq> CHR ''O'' then
            (case put_conversion x d of
               None \<Rightarrow> Inl Undefined | Some s \<Rightarrow> bindR (time_put x fmt') (\<lambda>t. Inr (s @ t)))
          else case fmt' of
            [] \<Rightarrow> Inr []
          | e # fmt'' \<Rightarrow>
              (case put_modified x d e of
                 None \<Rightarrow> Inl Undefined | Some s \<Rightarrow> bindR (time_put x fmt'') (\<lambda>t. Inr (s @ t))))"

definition c_str :: "string \<Rightarrow> string" where
  "c_str s = takeWhile (\<lambda>c. c \<noteq> CHR 0x00) s"

subsection \<open>The functions\<close>

text \<open>
  An overload for an rvalue names its parameter, an lvalue, so that it calls the overload for
  constant references.
\<close>

definition getTimeFormatted :: "string \<Rightarrow> time_point \<Rightarrow> string res" where
  "getTimeFormatted format timePoint = time_put (std_gmtime (to_time_t timePoint)) (c_str format)"

definition getTimeFormatted_rvalue :: "string \<Rightarrow> time_point \<Rightarrow> string res" where
  "getTimeFormatted_rvalue format timePoint = getTimeFormatted format timePoint"

definition getTimeFormatted_now :: "time_point \<Rightarrow> string \<Rightarrow> string res" where
  "getTimeFormatted_now now format = getTimeFormatted format now"

definition getTimeFormatted_now_rvalue :: "time_point \<Rightarrow> string \<Rightarrow> string res" where
  "getTimeFormatted_now_rvalue now format = getTimeFormatted format now"

definition getLocaltimeFormatted :: "time_zone \<Rightarrow> string \<Rightarrow> time_point \<Rightarrow> string res" where
  "getLocaltimeFormatted Z format timePoint = time_put (std_localtime Z (to_time_t timePoint)) (c_str format)"

definition getLocaltimeFormatted_rvalue :: "time_zone \<Rightarrow> string \<Rightarrow> time_point \<Rightarrow> string res" where
  "getLocaltimeFormatted_rvalue Z format timePoint = getLocaltimeFormatted Z format timePoint"

definition getLocaltimeFormatted_now :: "time_zone \<Rightarrow> time_point \<Rightarrow> string \<Rightarrow> string res" where
  "getLocaltimeFormatted_now Z now format = getLocaltimeFormatted Z format now"

definition getLocaltimeFormatted_now_rvalue :: "time_zone \<Rightarrow> time_point \<Rightarrow> string \<Rightarrow> string res" where
  "getLocaltimeFormatted_now_rvalue Z now format = getLocaltimeFormatted Z format now"

subsection \<open>The date of a response\<close>

text \<open>
  The format of the connections, and a reader of what it prints: columns 5 to 23 hold the
  day, the month, the year and the time.
\<close>

definition date_format :: string where
  "date_format = ''%a, %d %m %Y %T %Z''"

definition digits_val :: "string \<Rightarrow> int" where
  "digits_val s = foldl (\<lambda>a c. 10 * a + digit_val c) 0 s"

definition field_val :: "nat \<Rightarrow> nat \<Rightarrow> string \<Rightarrow> int" where
  "field_val i n s = digits_val (take n (drop i s))"

definition read_date :: "string \<Rightarrow> int" where
  "read_date s = tm_seconds \<lparr>tm_sec = field_val 22 2 s, tm_min = field_val 19 2 s, tm_hour = field_val 16 2 s,
     tm_mday = field_val 5 2 s, tm_mon = field_val 8 2 s - 1, tm_year = field_val 11 4 s - 1900,
     tm_wday = 0, tm_yday = 0, tm_gmtoff = 0, tm_zone = []\<rparr>"

lemma two_digits:
  assumes "0 \<le> i" "i < 100"
  shows "two i = [digit_char (nat i div 10), digit_char (nat i mod 10)]"
  using assms by (auto simp: pad_int_def show_int_def Let_def show_nat.simps [of "nat i"]
      show_nat.simps [of "nat i div 10"] digit_char_0)

lemma digits_show [simp]: "0 \<le> i \<Longrightarrow> digits_val (show_int i) = i"
  by (simp add: digits_val_def show_int_def foldl_show_nat)

lemma digits_zeros [simp]: "digits_val (replicate n (CHR ''0'') @ s) = digits_val s"
  by (induction n) (simp_all add: digits_val_def digit_val_def)

lemma digits_two [simp]: "0 \<le> i \<Longrightarrow> digits_val (two i) = i"
  by (simp add: pad_int_def Let_def)

lemma length_two [simp]: "0 \<le> i \<Longrightarrow> i < 100 \<Longrightarrow> length (two i) = 2"
  by (simp add: two_digits)

lemma four_digits:
  assumes "1000 \<le> i" "i < 10000"
  shows "length (show_int i) = 4"
proof -
  define n where "n = nat i"
  have n: "1000 \<le> n" "n < 10000" "\<not> i < 0" using assms by (simp_all add: n_def)
  have "\<not> n < 10" "\<not> n div 10 < 10" "\<not> n div 10 div 10 < 10" "n div 10 div 10 div 10 < 10"
    using n(1,2) by (simp_all add: div_mult2_eq [symmetric])
  then show ?thesis
    using n(3) by (simp add: show_int_def n_def [symmetric] show_nat.simps [of n] show_nat.simps [of "n div 10"]
        show_nat.simps [of "n div 10 div 10"] show_nat.simps [of "n div 10 div 10 div 10"])
qed

lemma year_four_digits:
  assumes "- 30000000000 \<le> t + off" "t + off < 200000000000"
  shows "1000 \<le> full_year (broken_down t off zone) \<and> full_year (broken_down t off zone) < 10000"
proof -
  define d where "d = epoch_day + (t + off) div 86400"
  have "- 30000000000 div 86400 \<le> (t + off) div 86400" "(t + off) div 86400 \<le> 200000000000 div 86400"
    using assms by (auto intro: zdiv_mono1)
  then have d: "364877 \<le> d" "d < 3652059" by (simp_all add: d_def epoch_day_def)
  have "full_year (broken_down t off zone) = year_of_day d"
    by (simp add: full_year_def broken_down_def Let_def d_def split: prod.split)
  moreover have "days_before_year 1000 = 364877" "days_before_year 10000 = 3652059"
    by (simp_all add: days_before_year_def)
  moreover have "days_before_year (year_of_day d) \<le> d" "d < days_before_year (year_of_day d + 1)"
    using year_of_day_bounds [of d] by simp_all
  ultimately show ?thesis
    using d days_before_year_mono [of "year_of_day d + 1" 1000] days_before_year_mono [of 10000 "year_of_day d"]
    by (metis linorder_not_le order_less_le_trans zless_imp_add1_zle)
qed

lemma date_layout:
  "time_put x date_format = Inr (take 3 (day_names ! nat (tm_wday x)) @ '', '' @ two (tm_mday x) @ '' '' @
     two (tm_mon x + 1) @ '' '' @ show_int (full_year x) @ '' '' @ two (tm_hour x) @ '':'' @ two (tm_min x) @
     '':'' @ two (tm_sec x) @ '' '' @ tm_zone x)"
  by (simp add: date_format_def put_conversion_def composite_formats_def put_field_def)

lemma day_name_length: "0 \<le> i \<Longrightarrow> i < 7 \<Longrightarrow> length (take 3 (day_names ! nat i)) = 3"
proof -
  have "\<forall>s \<in> set day_names. length (take 3 s) = 3" by (simp add: day_names_def)
  moreover have "length day_names = 7" by (simp add: day_names_def)
  ultimately show "0 \<le> i \<Longrightarrow> i < 7 \<Longrightarrow> length (take 3 (day_names ! nat i)) = 3" by simp
qed

lemma read_layout:
  assumes "length a = 3" "length d = 2" "length m = 2" "length y = 4" "length h = 2" "length mi = 2" "length s = 2"
  shows "read_date (a @ '', '' @ d @ '' '' @ m @ '' '' @ y @ '' '' @ h @ '':'' @ mi @ '':'' @ s @ z) =
     tm_seconds \<lparr>tm_sec = digits_val s, tm_min = digits_val mi, tm_hour = digits_val h,
     tm_mday = digits_val d, tm_mon = digits_val m - 1, tm_year = digits_val y - 1900,
     tm_wday = 0, tm_yday = 0, tm_gmtoff = 0, tm_zone = []\<rparr>"
  using assms by (simp add: read_date_def field_val_def)

lemma date_text:
  assumes "- 30000000000 \<le> t + off" "t + off < 200000000000"
  shows "\<exists>text. time_put (broken_down t off zone) date_format = Inr (text @ '' '' @ zone) \<and>
    length text = 24 \<and> read_date (text @ '' '' @ zone) = t + off \<and>
    take 3 text = take 3 (day_names ! nat ((epoch_day + (t + off) div 86400 + 1) mod 7))"
proof -
  let ?x = "broken_down t off zone"
  let ?text = "take 3 (day_names ! nat (tm_wday ?x)) @ '', '' @ two (tm_mday ?x) @ '' '' @
     two (tm_mon ?x + 1) @ '' '' @ show_int (full_year ?x) @ '' '' @ two (tm_hour ?x) @ '':'' @ two (tm_min ?x) @
     '':'' @ two (tm_sec ?x)"
  have ok: "tm_ok ?x" "tm_seconds ?x = t + off" using broken_down_correct by blast+
  have z: "tm_zone ?x = zone" "tm_wday ?x = (epoch_day + (t + off) div 86400 + 1) mod 7"
    by (simp_all add: broken_down_def Let_def split: prod.split)
  have y: "1000 \<le> full_year ?x" "full_year ?x < 10000" using year_four_digits [OF assms] by simp_all
  then have y0: "0 \<le> full_year ?x" by linarith
  have mday: "tm_mday ?x \<le> 31"
    using ok(1) month_length_le [of "tm_mon ?x" "tm_year ?x + 1900"] unfolding tm_ok_def by linarith
  have r: "0 \<le> tm_sec ?x" "tm_sec ?x < 100" "0 \<le> tm_min ?x" "tm_min ?x < 100" "0 \<le> tm_hour ?x" "tm_hour ?x < 100"
    "0 \<le> tm_mday ?x" "tm_mday ?x < 100" "0 \<le> tm_mon ?x + 1" "tm_mon ?x + 1 < 100" "0 \<le> tm_wday ?x" "tm_wday ?x < 7"
    using ok(1) mday unfolding tm_ok_def by linarith+
  note l = day_name_length [OF r(11,12)] length_two [OF r(1,2)] length_two [OF r(3,4)] length_two [OF r(5,6)]
    length_two [OF r(7,8)] length_two [OF r(9,10)] four_digits [OF y]
  note v = digits_two [OF r(1)] digits_two [OF r(3)] digits_two [OF r(5)]
    digits_two [OF r(7)] digits_two [OF r(9)] digits_show [OF y0]
  have "read_date (?text @ '' '' @ zone) = tm_seconds ?x"
    unfolding append_assoc
    by (subst read_layout) (simp_all only: l v, simp add: tm_seconds_def tm_day_def full_year_def)
  moreover have "length ?text = 24" by (simp only: length_append l) simp
  moreover have "take 3 ?text = take 3 (day_names ! nat (tm_wday ?x))" using l(1) by simp
  moreover have "time_put ?x date_format = Inr (?text @ '' '' @ zone)" unfolding date_layout z(1) by simp
  ultimately show ?thesis using ok(2) z(2) by metis
qed

lemma to_time_t_bounds: "- 9223372037 \<le> to_time_t t \<and> to_time_t t \<le> 9223372036"
proof -
  have b: "- (2 ^ 63) \<le> sint t" "sint t < 2 ^ 63"
    using sint_ge [of t] sint_lt [of t] by simp_all
  have "\<bar>sint t\<bar> div 1000000000 \<le> 2 ^ 63 div 1000000000" using b by (intro zdiv_mono1) auto
  moreover have "0 \<le> \<bar>sint t\<bar> div 1000000000" by (simp add: pos_imp_zdiv_nonneg_iff)
  ultimately show ?thesis
    by (auto simp: to_time_t_def signed_divide_int_def sgn_if)
qed

lemma c_str_date_format [simp]: "c_str date_format = date_format"
  by (simp add: c_str_def date_format_def)

text \<open>
  C18. For every time point, the format of the connections prints a text of 24 characters and the
  name of the zone, which begins with the name of the day of the week and from which the second
  can be read back: the second of the time point for \<^verbatim>\<open>getTimeFormatted\<close>, and the second of the
  clock on the wall for \<^verbatim>\<open>getLocaltimeFormatted\<close>.
\<close>

theorem formatted_date_read_back:
  assumes "\<forall>t. \<bar>tz_offset Z t\<bar> \<le> 86400"
  shows "(\<exists>text. getTimeFormatted date_format tp = Inr (text @ '' GMT'') \<and> length text = 24 \<and>
      read_date (text @ '' GMT'') = to_time_t tp \<and>
      take 3 text = take 3 (day_names ! nat ((epoch_day + to_time_t tp div 86400 + 1) mod 7))) \<and>
    (\<exists>text. getLocaltimeFormatted Z date_format tp = Inr (text @ '' '' @ tz_name Z (to_time_t tp)) \<and>
      length text = 24 \<and>
      read_date (text @ '' '' @ tz_name Z (to_time_t tp)) = to_time_t tp + tz_offset Z (to_time_t tp))"
proof (intro conjI)
  have b: "- 9223372037 \<le> to_time_t tp" "to_time_t tp \<le> 9223372036" using to_time_t_bounds by blast+
  show "\<exists>text. getTimeFormatted date_format tp = Inr (text @ '' GMT'') \<and> length text = 24 \<and>
      read_date (text @ '' GMT'') = to_time_t tp \<and>
      take 3 text = take 3 (day_names ! nat ((epoch_day + to_time_t tp div 86400 + 1) mod 7))"
    using b date_text [of "to_time_t tp" 0 "''GMT''"] by (simp add: getTimeFormatted_def std_gmtime_def)
  have "\<bar>tz_offset Z (to_time_t tp)\<bar> \<le> 86400" using assms by blast
  then show "\<exists>text. getLocaltimeFormatted Z date_format tp = Inr (text @ '' '' @ tz_name Z (to_time_t tp)) \<and>
      length text = 24 \<and>
      read_date (text @ '' '' @ tz_name Z (to_time_t tp)) = to_time_t tp + tz_offset Z (to_time_t tp)"
    using b date_text [of "to_time_t tp" "tz_offset Z (to_time_t tp)" "tz_name Z (to_time_t tp)"]
    unfolding getLocaltimeFormatted_def std_localtime_def by fastforce
qed

definition istanbul :: time_zone where
  "istanbul = \<lparr>tz_offset = (\<lambda>t. 10800), tz_name = (\<lambda>t. ''+03'')\<rparr>"

theorem formatted_date_read_back_witness:
  "(\<exists>text. getTimeFormatted date_format 1600000000123456789 = Inr (text @ '' GMT'') \<and>
      read_date (text @ '' GMT'') = 1600000000 \<and> take 3 text = ''Sun'') \<and>
   (\<exists>text. getLocaltimeFormatted istanbul date_format 1600000000123456789 = Inr (text @ '' +03'') \<and>
      read_date (text @ '' +03'') = 1600010800)"
proof -
  have t: "to_time_t 1600000000123456789 = 1600000000"
    by (simp add: to_time_t_def signed_divide_int_def sgn_if)
  have z: "\<forall>t. \<bar>tz_offset istanbul t\<bar> \<le> 86400" "tz_offset istanbul 1600000000 = 10800"
    "tz_name istanbul 1600000000 = ''+03''" by (simp_all add: istanbul_def)
  have d: "take 3 (day_names ! nat ((epoch_day + 1600000000 div 86400 + 1) mod 7)) = ''Sun''"
    by (simp add: epoch_day_def day_names_def)
  show ?thesis
    using formatted_date_read_back [OF z(1), of 1600000000123456789] unfolding t z(2,3) d by auto
qed

text \<open>
  What is printed of a format ends at its first null character, and whether a format is defined
  does not depend on the time point.
\<close>

lemma format_after_null: "getTimeFormatted (fmt @ CHR 0x00 # rest) tp = getTimeFormatted fmt tp"
proof -
  have "takeWhile (\<lambda>c. c \<noteq> CHR 0x00) (fmt @ CHR 0x00 # rest) = takeWhile (\<lambda>c. c \<noteq> CHR 0x00) fmt"
    by (induction fmt) auto
  then show ?thesis by (simp add: getTimeFormatted_def c_str_def)
qed

lemma put_field_keys: "put_field x c = None \<longleftrightarrow> c \<notin> set ''%ntaAbBhCyYmdejuwUWVGgHIMSpzZ''"
  by (simp add: put_field_def)

lemma put_conversion_None:
  "put_conversion x c = None \<longleftrightarrow> c \<notin> set ''%ntaAbBhCyYmdejuwUWVGgHIMSpzZDFTRrxXc''"
proof (cases "map_of composite_formats c")
  case None
  then have "c \<notin> set ''DFTRrxXc''" by (auto simp: composite_formats_def split: if_splits)
  with None show ?thesis by (simp add: put_conversion_def put_field_keys)
next
  case (Some fmt)
  then have "c \<in> set ''DFTRrxXc''" by (auto simp: composite_formats_def split: if_splits)
  moreover have "put_conversion x c \<noteq> None"
    using Some by (auto simp: composite_formats_def put_conversion_def put_field_def split: if_splits)
  ultimately show ?thesis by auto
qed

lemma put_modified_None: "put_modified x m c = None \<longleftrightarrow> put_modified x' m c = None"
  by (simp add: put_modified_def put_conversion_None)

lemma time_put_defined:
  "time_put x fmt = Inl e \<Longrightarrow> e = Undefined \<and> time_put x' fmt = Inl Undefined"
proof (induction x fmt rule: time_put.induct)
  case (2 x c fmt)
  show ?case
  proof (cases "c = CHR ''%'' \<and> fmt \<noteq> []")
    case False
    with 2 show ?thesis by (auto simp: bindR_Inl_iff)
  next
    case True
    then obtain d fmt' where f: "c = CHR ''%''" "fmt = d # fmt'" by (cases fmt) auto
    show ?thesis
    proof (cases "d \<noteq> CHR ''E'' \<and> d \<noteq> CHR ''O''")
      case True
      have p: "put_conversion x d = None \<longleftrightarrow> put_conversion x' d = None"
        by (simp only: put_conversion_None)
      from 2(2) [OF _ f(2) True] 2(4) f True p show ?thesis
        by (cases "put_conversion x d"; cases "put_conversion x' d") (auto simp: bindR_Inl_iff)
    next
      case False
      note eo = this
      show ?thesis
      proof (cases fmt')
        case Nil
        with 2(4) f eo show ?thesis by auto
      next
        case (Cons m fmt'')
        from 2(3) [OF _ f(2) _ Cons] 2(4) f eo Cons put_modified_None [of x d m x'] show ?thesis
          by (cases "put_modified x d m"; cases "put_modified x' d m") (auto simp: bindR_Inl_iff)
      qed
    qed
  qed
qed simp

lemma format_defined:
  "getLocaltimeFormatted Z fmt tp = Inl e \<Longrightarrow>
   e = Undefined \<and> getTimeFormatted fmt tp' = Inl Undefined"
  unfolding getLocaltimeFormatted_def getTimeFormatted_def by (rule time_put_defined)

end
