(* ===== verification/HttpConnection.thy ===== *)
theory HttpConnection
  imports HttpResponse RequestParser TcpSocketProperties TimeUtils
begin

text \<open>
  \<^verbatim>\<open>HttpServer/HttpConnection\<close>: the object between a socket, a request parser and the user of
  the server.  It executes in one thread, so that its slots are called directly: what a
  response emits is handed to \<open>responseReady_slot\<close> at once.  The formatted local time is an
  argument of the slot, filled in by \<open>newRequestAvailable_at\<close> for a time zone and a reading of
  the clock; the operating system is an argument too.  Four of the six slots have empty bodies.
\<close>

record http_connection =
  hc_upgradeProtocol :: bool
  hc_parser :: "request_parser option"       \<comment> \<open>a \<^verbatim>\<open>unique_ptr\<close>\<close>
  hc_tcpSocket :: "tcp_socket option"        \<comment> \<open>a \<^verbatim>\<open>shared_ptr\<close>\<close>
  hc_newRequestReady :: "(http_request \<times> http_response) list"  \<comment> \<open>what it emits\<close>

text \<open>The constructor connects the signals of the socket and of the parser, which it never creates.\<close>

definition new_connection :: "bool \<Rightarrow> tcp_socket option \<Rightarrow> http_connection res" where
  "new_connection upgrade tcpSocket =
     (let c = \<lparr>hc_upgradeProtocol = upgrade, hc_parser = None, hc_tcpSocket = tcpSocket,
               hc_newRequestReady = []\<rparr>
      in if hc_tcpSocket c = None then Inl Undefined
         else if hc_parser c = None then Inl Undefined
         else Inr c)"

definition destroy_connection :: "'w posix \<Rightarrow> thread_id \<Rightarrow> http_connection \<Rightarrow> 'w \<Rightarrow> http_connection \<times> 'w" where
  "destroy_connection P cur c w =
     (case hc_tcpSocket c of
        None \<Rightarrow> (c, w)
      | Some s \<Rightarrow> (case socket_disconnect P cur s w of (b, s, w) \<Rightarrow> (c\<lparr>hc_tcpSocket := Some s\<rparr>, w)))"

definition tcp_errorOccured_slot :: "tcp_error \<Rightarrow> http_connection \<Rightarrow> http_connection" where
  "tcp_errorOccured_slot e c = c"

definition tcp_disconnected_slot :: "http_connection \<Rightarrow> http_connection" where
  "tcp_disconnected_slot c = c"

definition tcp_dataReceived_slot :: "http_connection \<Rightarrow> http_connection" where
  "tcp_dataReceived_slot c = c"

definition parseErrorOccured_slot :: "parse_error \<Rightarrow> http_connection \<Rightarrow> http_connection" where
  "parseErrorOccured_slot e c = c"

definition responseReady_slot ::
  "'w posix \<Rightarrow> string \<Rightarrow> http_connection \<times> 'w \<Rightarrow> (http_connection \<times> 'w) \<times> fault option" where
  "responseReady_slot P data st = (case st of (c, w) \<Rightarrow>
     (case hc_tcpSocket c of
        None \<Rightarrow> (st, Some Undefined)
      | Some s \<Rightarrow> (case socket_write P data s w of (b, s, w) \<Rightarrow> ((c\<lparr>hc_tcpSocket := Some s\<rparr>, w), None))))"

definition createResponse :: "string \<Rightarrow> http_response" where
  "createResponse localtime =
     (let response = new_response True;
          response = put_header ''date'' localtime response
      in put_header ''server'' ''brutils/cervpp'' response)"

definition newRequestAvailable_slot ::
  "string_ops \<Rightarrow> 'w posix \<Rightarrow> string \<Rightarrow> http_request \<Rightarrow> http_connection \<times> 'w \<Rightarrow>
   (http_connection \<times> 'w) \<times> fault option" where
  "newRequestAvailable_slot O' P localtime request st =
     (let response = createResponse localtime in
      if HTTP_11 \<noteq> connectionVersion request then
        (case send O' (set_status HTTP_STATUS_VERSION_NOT_SUPPORTED response) of
           (response, r) \<Rightarrow>
             andThen (each (responseReady_slot P) (readyToWrite response) st)
               (\<lambda>st. (st, case r of Inl e \<Rightarrow> Some e | Inr u \<Rightarrow> None)))
      else
        case st of (c, w) \<Rightarrow>
          ((c\<lparr>hc_newRequestReady := hc_newRequestReady c @ [(request, response)]\<rparr>, w), None))"

text \<open>The two operations with the date they read themselves.\<close>

definition createResponse_at :: "time_zone \<Rightarrow> time_point \<Rightarrow> http_response res" where
  "createResponse_at Z now =
     bindR (getLocaltimeFormatted_now_rvalue Z now ''%a, %d %m %Y %T %Z'')
       (\<lambda>localtime. Inr (createResponse localtime))"

definition newRequestAvailable_at ::
  "string_ops \<Rightarrow> 'w posix \<Rightarrow> time_zone \<Rightarrow> time_point \<Rightarrow> http_request \<Rightarrow> http_connection \<times> 'w \<Rightarrow>
   (http_connection \<times> 'w) \<times> fault option" where
  "newRequestAvailable_at O' P Z now request st =
     (case getLocaltimeFormatted_now_rvalue Z now ''%a, %d %m %Y %T %Z'' of
        Inl e \<Rightarrow> (st, Some e)
      | Inr localtime \<Rightarrow> newRequestAvailable_slot O' P localtime request st)"

subsection \<open>Properties\<close>

lemma createResponse_headers:
  "rs_headerMap (createResponse localtime) = [(''date'', localtime), (''server'', ''brutils/cervpp'')]"
  "readyToWrite (createResponse localtime) = []" "rs_status (createResponse localtime) = 200"
  "rs_version (createResponse localtime) = UNKNOWN_VERSION"
  by (simp_all add: createResponse_def put_header_def new_response_def)

text \<open>
  C21. The version decides what the connection does with a request.  One of version 1.1 is handed on
  to the user of the server, once, with a response of status 200 that holds the date and the server
  and no other header; nothing is written to the socket.  A request of any other version is never
  handed on; the refusal it should be answered with is undefined behaviour before any byte of it
  reaches the socket, whatever the state of the connection and the operating system.
\<close>

theorem request_version_decides:
  "(connectionVersion request = HTTP_11 \<longrightarrow>
     (\<exists>r. newRequestAvailable_slot response_ops P localtime request (c, w) =
        ((c\<lparr>hc_newRequestReady := hc_newRequestReady c @ [(request, r)]\<rparr>, w), None) \<and>
        rs_headerMap r = [(''date'', localtime), (''server'', ''brutils/cervpp'')] \<and>
        rs_status r = 200 \<and> readyToWrite r = [])) \<and>
   (connectionVersion request \<noteq> HTTP_11 \<longrightarrow>
     newRequestAvailable_slot response_ops P localtime request (c, w) = ((c, w), Some Undefined))"
proof (intro conjI impI)
  assume "connectionVersion request = HTTP_11"
  then show "\<exists>r. newRequestAvailable_slot response_ops P localtime request (c, w) =
        ((c\<lparr>hc_newRequestReady := hc_newRequestReady c @ [(request, r)]\<rparr>, w), None) \<and>
        rs_headerMap r = [(''date'', localtime), (''server'', ''brutils/cervpp'')] \<and>
        rs_status r = 200 \<and> readyToWrite r = []"
    by (intro exI [of _ "createResponse localtime"])
      (simp add: newRequestAvailable_slot_def createResponse_headers)
next
  assume v: "connectionVersion request \<noteq> HTTP_11"
  let ?r = "set_status HTTP_STATUS_VERSION_NOT_SUPPORTED (createResponse localtime)"
  have "send response_ops ?r = (?r\<lparr>rs_version := HTTP_11\<rparr>, Inl Undefined)" "readyToWrite ?r = []"
    by (simp_all add: send_def sendResponse_source set_status_def createResponse_headers chosen_version_def)
  with v show "newRequestAvailable_slot response_ops P localtime request (c, w) = ((c, w), Some Undefined)"
    by (simp add: newRequestAvailable_slot_def)
qed

theorem request_version_decides_witness:
  "newRequestAvailable_slot response_ops script_posix ''now'' (new_request\<lparr>r_version := HTTP_10\<rparr>)
     (\<lparr>hc_upgradeProtocol = False, hc_parser = None, hc_tcpSocket = None, hc_newRequestReady = []\<rparr>, script_start) =
   ((\<lparr>hc_upgradeProtocol = False, hc_parser = None, hc_tcpSocket = None, hc_newRequestReady = []\<rparr>, script_start),
     Some Undefined)"
proof -
  have "connectionVersion (new_request\<lparr>r_version := HTTP_10\<rparr>) \<noteq> HTTP_11" by (simp add: connectionVersion_def)
  then show ?thesis by (rule request_version_decides [THEN conjunct2, rule_format])
qed

text \<open>
  The constructor connects to the signals of a parser that no code creates: whatever the socket, it
  is undefined behaviour, so that no connection comes into being.
\<close>

lemma no_connection_is_built: "new_connection upgrade tcpSocket = Inl Undefined"
  by (simp add: new_connection_def Let_def)

end
