(* ===== verification/HttpFlow.thy ===== *)
theory HttpFlow
  imports HttpConnection
begin

text \<open>
  The connection with the clock it reads: the date in the responses it builds, and what it does
  with a request that it is given at some time in some time zone.
\<close>

lemma date_format_literal: "''%a, %d %m %Y %T %Z'' = date_format"
  by (simp add: date_format_def)

lemma local_date:
  assumes "\<forall>t. \<bar>tz_offset Z t\<bar> \<le> 86400"
  shows "\<exists>localtime. getLocaltimeFormatted_now_rvalue Z now ''%a, %d %m %Y %T %Z'' = Inr localtime \<and>
    read_date localtime = to_time_t now + tz_offset Z (to_time_t now)"
proof -
  have b: "- 9223372037 \<le> to_time_t now" "to_time_t now \<le> 9223372036" using to_time_t_bounds by blast+
  have "\<bar>tz_offset Z (to_time_t now)\<bar> \<le> 86400" using assms by blast
  with b obtain t where "time_put (std_localtime Z (to_time_t now)) date_format = Inr (t @ '' '' @ tz_name Z (to_time_t now))"
    "length t = 24" "read_date (t @ '' '' @ tz_name Z (to_time_t now)) = to_time_t now + tz_offset Z (to_time_t now)"
    using date_text [of "to_time_t now" "tz_offset Z (to_time_t now)" "tz_name Z (to_time_t now)"]
    unfolding std_localtime_def by fastforce
  then show ?thesis
    unfolding date_format_literal getLocaltimeFormatted_now_rvalue_def getLocaltimeFormatted_def c_str_date_format
    by simp
qed

text \<open>
  C23. The date of every response is the clock on the wall, whatever the time zone: from the
  header the second can be read back, shifted by the offset of the zone.
\<close>

theorem response_date_is_local:
  assumes "\<forall>t. \<bar>tz_offset Z t\<bar> \<le> 86400"
  shows "\<exists>r localtime. createResponse_at Z now = Inr r \<and>
    rs_headerMap r = [(''date'', localtime), (''server'', ''brutils/cervpp'')] \<and>
    read_date localtime = to_time_t now + tz_offset Z (to_time_t now)"
proof -
  obtain localtime where l: "getLocaltimeFormatted_now_rvalue Z now ''%a, %d %m %Y %T %Z'' = Inr localtime"
    "read_date localtime = to_time_t now + tz_offset Z (to_time_t now)" using local_date [OF assms] by blast
  then have "createResponse_at Z now = Inr (createResponse localtime)" by (simp add: createResponse_at_def)
  moreover have "rs_headerMap (createResponse localtime) = [(''date'', localtime), (''server'', ''brutils/cervpp'')]"
    by (simp add: createResponse_def put_header_def new_response_def)
  ultimately show ?thesis using l(2) by blast
qed

theorem response_date_is_local_witness:
  "\<exists>r date. createResponse_at istanbul 1600000000123456789 = Inr r \<and>
     map_of (rs_headerMap r) ''date'' = Some date \<and> read_date date = 1600010800"
proof -
  have z: "\<forall>t. \<bar>tz_offset istanbul t\<bar> \<le> 86400" "tz_offset istanbul 1600000000 = 10800"
    by (simp_all add: istanbul_def)
  have t: "to_time_t 1600000000123456789 = 1600000000" by (simp add: to_time_t_def signed_divide_int_def sgn_if)
  show ?thesis using response_date_is_local [OF z(1), of 1600000000123456789] unfolding t z(2) by auto
qed

end
