(* ===== verification/EventLoop.thy ===== *)
theory EventLoop
  imports Prelude
begin

text \<open>
  The event loop of a \<^verbatim>\<open>br_threaded_object\<close> in \<^verbatim>\<open>include/brutils/br_object.h\<close> at the grain at
  which its threads interleave: \<open>Signals\<close> takes a call of \<^verbatim>\<open>addEvent\<close> and a round of \<^verbatim>\<open>run\<close> for single
  steps, here the wait of the condition variable is split where another thread can come between.
  \<^verbatim>\<open>addEvent\<close> and the destructor do not take the mutex of the loop.  Wakeups without a
  notification are left out; they only repeat the test of the predicate.

  The place of the thread: before the test of \<^verbatim>\<open>while\<close>, about to test the predicate of the wait,
  decided to block (the predicate was false), blocked, behind the wait, inside the event.
\<close>

datatype loop_place = Testing | Evaluating | Committed | Blocked | Woken | Executing | Finished

record event_loop =
  el_place :: loop_place
  el_running :: bool
  el_eventList :: "nat list"
  el_pushed :: "nat list"      \<comment> \<open>all events added so far\<close>
  el_executed :: "nat list"    \<comment> \<open>all events called so far\<close>
  el_adding :: nat             \<comment> \<open>calls of \<^verbatim>\<open>addEvent\<close> that have pushed and not yet notified\<close>
  el_destroying :: bool        \<comment> \<open>the destructor has not yet notified\<close>

definition new_loop :: event_loop where
  "new_loop = \<lparr>el_place = Testing, el_running = True, el_eventList = [], el_pushed = [], el_executed = [],
     el_adding = 0, el_destroying = False\<rparr>"

datatype loop_action = Advance | Push nat | Notify | Stop_running | Notify_all

text \<open>The next step of \<^verbatim>\<open>run\<close>; a blocked thread has none, nor has one that has returned.\<close>

definition advance :: "event_loop \<Rightarrow> event_loop option" where
  "advance e = (case el_place e of
     Testing \<Rightarrow> Some (e\<lparr>el_place := (if el_running e then Evaluating else Finished)\<rparr>)
   | Evaluating \<Rightarrow>
       Some (e\<lparr>el_place := (if el_eventList e \<noteq> [] \<or> \<not> el_running e then Woken else Committed)\<rparr>)
   | Committed \<Rightarrow> Some (e\<lparr>el_place := Blocked\<rparr>)
   | Blocked \<Rightarrow> None
   | Woken \<Rightarrow>
       (case el_eventList e of
          [] \<Rightarrow> Some (e\<lparr>el_place := Testing\<rparr>)
        | event # _ \<Rightarrow> Some (e\<lparr>el_place := Executing, el_executed := el_executed e @ [event]\<rparr>))
   | Executing \<Rightarrow> Some (e\<lparr>el_place := Testing, el_eventList := tl (el_eventList e)\<rparr>)
   | Finished \<Rightarrow> None)"

text \<open>A notification reaches a thread that is blocked, and nobody else.\<close>

definition wake :: "event_loop \<Rightarrow> event_loop" where
  "wake e = (if el_place e = Blocked then e\<lparr>el_place := Evaluating\<rparr> else e)"

fun loop_act :: "loop_action \<Rightarrow> event_loop \<Rightarrow> event_loop option" where
  "loop_act Advance e = advance e"
| "loop_act (Push n) e =
     Some (e\<lparr>el_eventList := el_eventList e @ [n], el_pushed := el_pushed e @ [n], el_adding := Suc (el_adding e)\<rparr>)"
| "loop_act Notify e = (if el_adding e = 0 then None else Some (wake (e\<lparr>el_adding := el_adding e - 1\<rparr>)))"
| "loop_act Stop_running e = (if el_running e then Some (e\<lparr>el_running := False, el_destroying := True\<rparr>) else None)"
| "loop_act Notify_all e = (if el_destroying e then Some (wake (e\<lparr>el_destroying := False\<rparr>)) else None)"

fun loop_acts :: "loop_action list \<Rightarrow> event_loop \<Rightarrow> event_loop option" where
  "loop_acts [] e = Some e"
| "loop_acts (a # as) e = Option.bind (loop_act a e) (loop_acts as)"

lemma loop_acts_append: "loop_acts (as @ bs) e = Option.bind (loop_acts as e) (loop_acts bs)"
proof (induction as arbitrary: e)
  case (Cons a as)
  then show ?case by (cases "loop_act a e") simp_all
qed simp

subsection \<open>Order\<close>

definition loop_inv :: "event_loop \<Rightarrow> bool" where
  "loop_inv e \<longleftrightarrow> (el_place e = Executing \<longrightarrow> el_eventList e \<noteq> []) \<and>
     el_pushed e = (if el_place e = Executing then el_executed e @ tl (el_eventList e) else el_executed e @ el_eventList e)"

lemma loop_inv_new: "loop_inv new_loop"
  by (simp add: loop_inv_def new_loop_def)

lemma loop_inv_act: "loop_act a e = Some e' \<Longrightarrow> loop_inv e \<Longrightarrow> loop_inv e'"
  by (cases a) (auto simp: loop_inv_def advance_def wake_def split: loop_place.splits list.splits if_splits)

lemma loop_inv_acts: "loop_acts as e = Some e' \<Longrightarrow> loop_inv e \<Longrightarrow> loop_inv e'"
proof (induction as arbitrary: e)
  case (Cons a as)
  then obtain e1 where "loop_act a e = Some e1" "loop_acts as e1 = Some e'"
    by (cases "loop_act a e") auto
  with Cons loop_inv_act show ?case by blast
qed simp

text \<open>
  However the threads interleave, the events that have been called are the first ones of those
  that have been added, in their order; the others are still in the list.
\<close>

lemma executed_prefix:
  "loop_acts as new_loop = Some e \<Longrightarrow> prefix (el_executed e) (el_pushed e)"
  using loop_inv_acts [OF _ loop_inv_new] by (auto simp: loop_inv_def split: if_splits)

subsection \<open>Draining\<close>

lemma drain_one:
  assumes "el_place e = Testing" "el_running e" "el_eventList e = n # ns"
  shows "loop_acts [Advance, Advance, Advance, Advance] e =
    Some (e\<lparr>el_eventList := ns, el_executed := el_executed e @ [n]\<rparr>)"
  using assms by (simp add: advance_def)

lemma drain:
  "el_place e = Testing \<Longrightarrow> el_running e \<Longrightarrow>
   loop_acts (replicate (4 * length (el_eventList e)) Advance) e =
     Some (e\<lparr>el_eventList := [], el_executed := el_executed e @ el_eventList e\<rparr>)"
proof (induction "el_eventList e" arbitrary: e)
  case Nil
  then show ?case by simp
next
  case (Cons n ns)
  let ?e = "e\<lparr>el_eventList := ns, el_executed := el_executed e @ [n]\<rparr>"
  have "replicate (4 * length (el_eventList e)) Advance =
      [Advance, Advance, Advance, Advance] @ replicate (4 * length (el_eventList ?e)) Advance"
    by (simp add: Cons.hyps(2) [symmetric] numeral_eq_Suc)
  with Cons.hyps(1) [of ?e] Cons.prems drain_one [OF Cons.prems, of n ns] Cons.hyps(2) show ?case
    by (simp only: loop_acts_append) simp
qed

subsection \<open>Lost notifications\<close>

text \<open>
  A blocked thread stays where it is until it is notified, whatever is added and however the
  destructor begins.
\<close>

lemma blocked_stays:
  "loop_acts as e = Some e' \<Longrightarrow> el_place e = Blocked \<Longrightarrow> Notify \<notin> set as \<Longrightarrow> Notify_all \<notin> set as \<Longrightarrow>
   el_place e' = Blocked \<and> el_executed e' = el_executed e"
proof (induction as arbitrary: e)
  case (Cons a as)
  then obtain e1 where e1: "loop_act a e = Some e1" "loop_acts as e1 = Some e'"
    by (cases "loop_act a e") auto
  have "el_place e1 = Blocked \<and> el_executed e1 = el_executed e"
    using e1(1) Cons.prems by (cases a) (auto simp: advance_def split: if_splits)
  with Cons.IH [OF e1(2)] Cons.prems show ?case by simp
qed simp

text \<open>
  C17. \<^verbatim>\<open>addEvent\<close> and the destructor notify without the mutex.  When they come between the test of
  the loop and its blocking, the notification is lost: the event stays in the list although the
  thread is idle, until some other event is added, which then brings both to execution; and a
  destructor whose notification is lost joins a thread that never returns.
\<close>

theorem notification_lost:
  assumes "loop_acts as new_loop = Some e" "el_place e = Committed"
  shows "(\<exists>e1. loop_acts [Push n, Notify, Advance] e = Some e1 \<and> el_eventList e1 = el_eventList e @ [n] \<and>
      (\<forall>bs e2. loop_acts bs e1 = Some e2 \<and> Notify \<notin> set bs \<and> Notify_all \<notin> set bs \<longrightarrow>
        el_executed e2 = el_executed e \<and> loop_act Advance e2 = None) \<and>
      (el_running e \<longrightarrow> (\<exists>cs e3. loop_acts (Push m # Notify # cs) e1 = Some e3 \<and> set cs \<subseteq> {Advance} \<and>
        el_executed e3 = el_executed e @ el_eventList e @ [n, m] \<and> el_eventList e3 = []))) \<and>
    (el_running e \<longrightarrow> (\<exists>e1. loop_acts [Stop_running, Notify_all, Advance] e = Some e1 \<and>
      \<not> el_running e1 \<and> \<not> el_destroying e1 \<and>
      (\<forall>bs e2. loop_acts bs e1 = Some e2 \<and> Notify \<notin> set bs \<longrightarrow> el_place e2 \<noteq> Finished)))"
proof -
  let ?e1 = "e\<lparr>el_place := Blocked, el_eventList := el_eventList e @ [n], el_pushed := el_pushed e @ [n]\<rparr>"
  have e1: "loop_acts [Push n, Notify, Advance] e = Some ?e1"
    using assms(2) by (simp add: wake_def advance_def)
  have stuck: "el_executed e2 = el_executed e \<and> loop_act Advance e2 = None"
    if "loop_acts bs ?e1 = Some e2" "Notify \<notin> set bs" "Notify_all \<notin> set bs" for bs e2
    using blocked_stays [OF that(1)] that(2,3) by (simp add: advance_def)
  have revived: "\<exists>cs e3. loop_acts (Push m # Notify # cs) ?e1 = Some e3 \<and> set cs \<subseteq> {Advance} \<and>
        el_executed e3 = el_executed e @ el_eventList e @ [n, m] \<and> el_eventList e3 = []"
    if run: "el_running e"
  proof -
    let ?l = "el_eventList e @ [n, m]"
    let ?e2 = "?e1\<lparr>el_place := Testing, el_eventList := tl ?l, el_pushed := el_pushed e @ [n, m],
        el_executed := el_executed e @ [hd ?l]\<rparr>"
    have l: "?l \<noteq> []" "hd ?l # tl ?l = ?l" "el_eventList e @ [n] @ [m] = ?l" by simp_all
    have "loop_acts [Push m, Notify, Advance, Advance, Advance] ?e1 = Some ?e2"
      using l(2) by (cases "el_eventList e") (simp_all add: wake_def advance_def)
    moreover have "loop_acts (replicate (4 * length (el_eventList ?e2)) Advance) ?e2 =
        Some (?e2\<lparr>el_eventList := [], el_executed := el_executed ?e2 @ el_eventList ?e2\<rparr>)"
      by (rule drain) (simp_all add: run)
    ultimately have "loop_acts ([Push m, Notify, Advance, Advance, Advance] @
        replicate (4 * length (el_eventList ?e2)) Advance) ?e1 =
        Some (?e2\<lparr>el_eventList := [], el_executed := el_executed ?e2 @ el_eventList ?e2\<rparr>)"
      unfolding loop_acts_append by simp
    then show ?thesis
      using l(2)
      by (intro exI [of _ "[Advance, Advance, Advance] @ replicate (4 * length (el_eventList ?e2)) Advance"]
          exI [of _ "?e2\<lparr>el_eventList := [], el_executed := el_executed ?e2 @ el_eventList ?e2\<rparr>"]) auto
  qed
  have hangs: "\<exists>e1. loop_acts [Stop_running, Notify_all, Advance] e = Some e1 \<and>
      \<not> el_running e1 \<and> \<not> el_destroying e1 \<and>
      (\<forall>bs e2. loop_acts bs e1 = Some e2 \<and> Notify \<notin> set bs \<longrightarrow> el_place e2 \<noteq> Finished)"
    if run: "el_running e"
  proof -
    let ?e = "e\<lparr>el_place := Blocked, el_running := False, el_destroying := False\<rparr>"
    have "loop_acts [Stop_running, Notify_all, Advance] e = Some ?e"
      using assms(2) run by (simp add: wake_def advance_def)
    moreover have "el_place e2 = Blocked"
      if "loop_acts bs e0 = Some e2" "Notify \<notin> set bs" "el_place e0 = Blocked" "\<not> el_running e0" "\<not> el_destroying e0"
      for bs e0 e2
      using that
    proof (induction bs arbitrary: e0)
      case (Cons a as)
      then obtain e1 where e1: "loop_act a e0 = Some e1" "loop_acts as e1 = Some e2"
        by (cases "loop_act a e0") auto
      have "el_place e1 = Blocked \<and> \<not> el_running e1 \<and> \<not> el_destroying e1"
        using e1(1) Cons.prems by (cases a) (auto simp: advance_def split: if_splits)
      with Cons.IH [OF e1(2)] Cons.prems show ?case by simp
    qed simp
    ultimately show ?thesis by (intro exI [of _ ?e]) fastforce
  qed
  show ?thesis using e1 stuck revived hangs by (intro conjI exI [of _ ?e1]) auto
qed

theorem notification_lost_witness:
  "\<exists>e1 e2. loop_acts ([Advance, Advance] @ [Push 7, Notify, Advance]) new_loop = Some e1 \<and>
     el_eventList e1 = [7] \<and> loop_act Advance e1 = None \<and>
     loop_acts ([Advance, Advance] @ [Stop_running, Notify_all, Advance]) new_loop = Some e2 \<and>
     loop_act Advance e2 = None"
proof -
  obtain e where e: "loop_acts [Advance, Advance] new_loop = Some e" "el_place e = Committed" "el_eventList e = []"
    "el_running e" by (simp add: advance_def new_loop_def)
  from conjunct1 [OF notification_lost [OF e(1,2), of 7 0]] obtain e1 where
    e1: "loop_acts [Push 7, Notify, Advance] e = Some e1" "el_eventList e1 = el_eventList e @ [7]"
    "\<forall>bs e2. loop_acts bs e1 = Some e2 \<and> Notify \<notin> set bs \<and> Notify_all \<notin> set bs \<longrightarrow>
        el_executed e2 = el_executed e \<and> loop_act Advance e2 = None" by (elim exE conjE)
  have "loop_acts [] e1 = Some e1 \<and> Notify \<notin> set [] \<and> Notify_all \<notin> set []" by simp
  with e1(3) have b: "loop_act Advance e1 = None" by blast
  have "\<exists>e2. loop_acts [Stop_running, Notify_all, Advance] e = Some e2 \<and> loop_act Advance e2 = None"
    using e(2,4) by (simp add: wake_def advance_def)
  with e(1,3) e1(1,2) b show ?thesis unfolding loop_acts_append by auto
qed

end
