(* ===== verification/Singleton.thy ===== *)
theory Singleton
  imports Prelude
begin

text \<open>
  \<^verbatim>\<open>include/brutils/singleton_crtp.h\<close>: \<^verbatim>\<open>getInstance\<close> holds a local static object, which the first
  call that reaches its definition constructs from a token.  A constructor that throws leaves the
  object unconstructed, and the next call tries again.  The constructor of the class is a
  parameter; \<open>'w\<close> is what it acts on.
\<close>

datatype token = token

type_synonym ('c, 'w) singleton = "'c option \<times> 'w"

definition getInstance ::
  "(token \<Rightarrow> 'w \<Rightarrow> 'c res \<times> 'w) \<Rightarrow> ('c, 'w) singleton \<Rightarrow> 'c res \<times> ('c, 'w) singleton" where
  "getInstance construct st = (case st of
     (Some instance', w) \<Rightarrow> (Inr instance', st)
   | (None, w) \<Rightarrow>
       (case construct token w of
          (Inl e, w) \<Rightarrow> (Inl e, (None, w))
        | (Inr instance', w) \<Rightarrow> (Inr instance', (Some instance', w))))"

fun getInstances ::
  "(token \<Rightarrow> 'w \<Rightarrow> 'c res \<times> 'w) \<Rightarrow> nat \<Rightarrow> ('c, 'w) singleton \<Rightarrow> 'c res list \<times> ('c, 'w) singleton" where
  "getInstances construct 0 st = ([], st)"
| "getInstances construct (Suc n) st =
     (case getInstance construct st of (r, st) \<Rightarrow>
        case getInstances construct n st of (rs, st) \<Rightarrow> (r # rs, st))"

text \<open>Once a call has returned an object, every later call returns it and constructs nothing.\<close>

lemma getInstance_again:
  "getInstance construct st = (Inr c, st') \<Longrightarrow> getInstances construct n st' = (replicate n (Inr c), st')"
proof (induction n)
  case (Suc n)
  have "getInstance construct st' = (Inr c, st')"
    using Suc.prems by (auto simp: getInstance_def split: prod.splits option.splits sum.splits)
  with Suc show ?case by simp
qed simp

end
