(* ===== verification/Spec2Isabelle.thy ===== *)
theory Spec2Isabelle
  imports JsonProperties RequestParserProperties HttpResponse CombinedTimer SignalProperties
    TcpServerTimers ThreadProperties QueuePc KeeperLoop TimerLoop HttpFlow EventLoop
    Singleton
begin

text \<open>
  brutils is a C++ utility library: a dynamic value type with a JSON parser and generator,
  string helpers, a signal and slot mechanism, threads and timers, and on top of them a TCP
  server and an HTTP/1.x layer.  This development models all of these parts and proves what
  they do on all inputs.  Paths below are those of the repository.

  \<^bold>\<open>Parts and theories.\<close>
  \<^item> \<open>Prelude\<close>: faults (a thrown exception, the end of the program or undefined behaviour),
    fallible results (\<open>res\<close>), fallible computations that may not return (\<open>run\<close>), actions that
    keep what they have done when they throw (\<open>andThen\<close>, \<open>each\<close>), \<^verbatim>\<open>std::string\<close>,
    \<^verbatim>\<open>std::string_view\<close>, \<^verbatim>\<open>std::transform\<close> and \<^verbatim>\<open><cctype>\<close>.
  \<^item> \<open>StdMap\<close>: \<^verbatim>\<open>std::map\<close> as a sorted association list, and the interface \<open>std_dict\<close> of a
    dictionary, interpreted for assignment (the last pair of a key wins; used by the JSON
    parser) and for insertion (the first wins; used by the HTTP headers and queries).
  \<^item> \<open>Variant\<close>: \<^verbatim>\<open>include/brutils/variant.h\<close>.  The class invariant is \<open>coherent\<close>.
  \<^item> \<open>StringUtils\<close>: \<^verbatim>\<open>include/brutils/string_utils.h\<close>.
  \<^item> \<open>JsonParser\<close>, \<open>JsonParserFacts\<close>, \<open>JsonGrammar\<close>, \<open>JsonGenerator\<close>, \<open>JsonRoundTrip\<close>,
    \<open>JsonProperties\<close>: \<^verbatim>\<open>src/brutils/json_parser.cpp\<close> and \<^verbatim>\<open>src/brutils/json_generator.cpp\<close>.  A
    parsing function takes the view it is given by reference and returns its value with the view it
    leaves behind, or throws, or does not return (\<open>None\<close>).  \<open>JsonParserFacts\<close> shows that views only
    get shorter, that fuel does not matter and when a call returns.  \<open>JsonGrammar\<close> is the dialect of
    JSON that the parser reads, with the values it gives (\<open>json_value\<close>): no white space in an empty list, no plus sign
    in an exponent, no quote in a string, escapes kept as they are, no sign of a number without exponent.
    It is a device of the proofs; \<open>JsonRoundTrip\<close> shows that the generator prints texts of it.
  \<^item> \<open>JsonSyntax\<close>: JSON as its standard (RFC 8259) has it, and nothing of the parser: syntax trees
    (\<open>json_tree\<close>) with white space and the tokens as spelled, \<open>wf_tree\<close> for the texts that are JSON and
    \<open>tree_value\<close> for what they denote: numbers are rational (\<open>numeral_value\<close>), escapes are
    decoded into UTF-8 (\<open>string_value\<close>).  \<open>known\<close> delimits the part that the parser reads, and
    \<open>as_read\<close> says what it makes of it.
  \<^item> \<open>HttpRequest\<close>, \<open>RequestParser\<close>, \<open>RequestParserFacts\<close>, \<open>RequestParserProperties\<close>:
    \<^verbatim>\<open>HttpServer/HttpRequest\<close> and \<^verbatim>\<open>HttpServer/RequestParser\<close> (\<^verbatim>\<open>RequestParser_v1x\<close>).  Iterators
    are positions in the buffer; the members of the parser are a record, the signals it
    emits are logs in it.  \<open>RequestParserFacts\<close> shows that the loop of \<^verbatim>\<open>parse\<close> ends in its first
    round and what the first line of the received bytes leads to.
  \<^item> \<open>HttpResponse\<close>: \<^verbatim>\<open>HttpServer/HttpResponse\<close>, with its status table.
  \<^item> \<open>TimeUtils\<close>: \<^verbatim>\<open>src/brutils/time_utils.cpp\<close>, with the part of the standard library it prints
    with: the civil calendar behind \<^verbatim>\<open>gmtime\<close>, and \<^verbatim>\<open>put_time\<close> with all conversions of \<^verbatim>\<open>strftime\<close> in
    the C locale.
  \<^item> \<open>HttpConnection\<close>: \<^verbatim>\<open>HttpServer/HttpConnection\<close>, which answers requests on its socket.
    \<open>HttpFlow\<close> adds the clock it reads the date of a response from.
  \<^item> \<open>Signals\<close>, \<open>SignalFacts\<close>, \<open>SignalProperties\<close>: \<^verbatim>\<open>include/brutils/br_object.h\<close>.  Slots and signals
    are cells of a store, an event loop is a queue of events per thread; \<open>object_step\<close> is what
    clients do to the store, \<open>loop_step\<close> a round of an event loop.  \<open>linked\<close> is the invariant
    that both ends of every connection know each other.
  \<^item> \<open>EventLoop\<close>: the event loop of a \<^verbatim>\<open>br_threaded_object\<close> once more, with the wait of its condition
    variable split into the steps at which \<^verbatim>\<open>addEvent\<close> and the destructor can come between.
  \<^item> \<open>Threads\<close>, \<open>ThreadProperties\<close>: \<^verbatim>\<open>Thread/Thread\<close> and \<^verbatim>\<open>Thread/ThreadPool\<close> on that store;
    \<open>pool_step\<close> interleaves the pool, its threads and the functions of its slots.
  \<^item> \<open>QueuePc\<close>: \<^verbatim>\<open>include/brutils/queue_pc.h\<close>; \<open>queue_step\<close> interleaves producers and consumers.
    \<^verbatim>\<open>pop\<close> is the two steps of its code, \<^verbatim>\<open>front\<close> and \<^verbatim>\<open>pop\<close> of the list, between which other
    threads run.
  \<^item> \<open>TimerService\<close>, \<open>CombinedTimer\<close>: \<^verbatim>\<open>timers/combined_timer\<close>.  Runs are sequences of added,
    stopped and firing timers (\<open>timer_step\<close>), with an invariant by rule induction
    (\<open>timer_inv\<close>).  \<open>timer_service\<close> is the interface its clients rely on: the two maps that the
    server and the pool keep from their keys to timers and back; \<open>numbered_timers\<close> extends it
    by identifiers that are not given twice, under which the two maps stay complementary.  \<open>TimerLoop\<close>
    splits the operations and the rounds into the steps at which the client and the timer thread come
    between each other, and shows that their runs are those of \<open>timer_step\<close> (\<open>timer_abs\<close>).
  \<^item> \<open>TimeKeepers\<close>, \<open>TimeKeeperProperties\<close>: \<^verbatim>\<open>timers/TimeKeeper\<close> and \<^verbatim>\<open>timers/timer.h\<close>.  \<open>KeeperLoop\<close>
    splits the waits of the keeper's thread, which the operations and \<^verbatim>\<open>stop\<close> interrupt; an
    invariant (\<open>keeper_inv\<close>) says for what it may sleep.
  \<^item> \<open>PosixCalls\<close>: the system calls as a record of functions, and an instance that plays back a
    script.
  \<^item> \<open>TcpSocket\<close>, \<open>TcpSocketProperties\<close>: \<^verbatim>\<open>TcpSocket/TcpSocket\<close>, the signals emitted as a log.
  \<^item> \<open>TcpServer\<close>, \<open>TcpServerFacts\<close>, \<open>TcpServerInvariants\<close>, \<open>TcpServerProperties\<close>:
    \<^verbatim>\<open>TcpServer/TcpServer\<close>.  \<open>tables_ok\<close> is the invariant of its tables; \<open>server_invariant\<close> is the
    contract of an invariant of the poll loop, interpreted for the tables and for the state in
    which a server cannot be stopped.
  \<^item> \<open>TcpServerService\<close>: what a round of the poll loop means to the connections (\<open>serve\<close>), and what
    becomes of a descriptor that has been closed.  \<open>TcpServerTimers\<close>: the timeouts of a server, with
    the steps of the server thread and of the timer thread (\<open>timeout_step\<close>).
  \<^item> \<open>Singleton\<close>: \<^verbatim>\<open>include/brutils/singleton_crtp.h\<close>.

  \<^bold>\<open>How the parts interact.\<close>  The parser and the generator build and read variants; a request
  parses its body with the JSON parser, a response prints its body with the generator; the
  request parser fills in requests through their setters; a connection hands requests to its
  user and writes responses to its socket.  The server owns sockets and a combined timer;
  threads and pools are built from signals and slots.  Keys and values of the HTTP classes
  pass through two string builders, \<^verbatim>\<open>toLower\<close> and \<^verbatim>\<open>getString\<close> (in a response
  \<^verbatim>\<open>convertStringToBytes\<close>), which write through an iterator of an empty container.  The two classes
  have different ones, so that the HTTP operations take the builders as an argument: \<open>source_ops\<close>
  for requests, \<open>response_ops\<close> for responses.  Their common behaviour is the interface
  \<open>unsized_builders\<close>, interpreted on both: they return for an empty argument only and are undefined
  behaviour for any other.  What follows from it for the parser, the requests, the responses and the
  connections is proved as it is: no request is delivered and no response is written.

  \<^bold>\<open>Parameters.\<close>  \<^verbatim>\<open>float\<close> and \<^verbatim>\<open>double\<close> arithmetic is the record \<open>fp_ops\<close>, their formatting by a
  stream the record \<open>fp_show\<close>, of which nothing is assumed; \<open>rat_ops\<close> is the exact instance, in
  which the value of a JSON text can be compared with the rational number it denotes.  The operating system is the record
  \<open>posix\<close>, of which nothing is assumed but what a property states.  The clock, the time zone, the
  thread that executes an operation and the identifiers of new objects are arguments.  Functions given by clients are numbers or slots, and their calls are logged.

  \<^bold>\<open>Bounds and fuel.\<close>  \<^verbatim>\<open>int\<close> values of variants are 32-bit words, timer and record identifiers
  and ports 16-bit words; positions narrowed to \<^verbatim>\<open>int\<close> are converted explicitly, and texts
  longer than \<open>2 ^ 31\<close> are excluded where that matters.  The five mutually recursive parsing
  functions run on \<open>parse_fuel\<close>, three calls for each character and four more; more fuel never
  changes a result.  The loops that may not end (the search for a closing quote, the splitting
  loop, the loops of the request parser, reading from a socket, accepting connections, the
  search for a record identifier, the join of a timer thread) are partial functions.  Event
  loops, the poll loop and the timer threads run for any number of rounds.

  \<^bold>\<open>Groups of properties.\<close>  JSON: the texts that the parser reads and their values, what the
  generator prints is JSON and is read back, and the texts on which the parser throws or never
  returns.  Termination: when the JSON parser returns, the search for a record identifier, and the
  loops that never end.  Invariants: coherent variants, the connections of signals and slots, the
  tables of the server, the timer run, for what the thread of a keeper may sleep.  Refinement: the
  steps of the timer thread and its client are whole operations and rounds; the queue with one consumer
  is first in first out, and with two it is not; timers fire in the order of their dates.  The
  server: which connections a round reads, which timer belongs to which connection, and what it
  loses.  Delivery: a signal reaches every slot once, a timeout is not slept through, and where the
  pool, the time keeper and the single timer deliver nothing.  Faults: which exception can leave an
  operation, and where it reaches undefined behaviour; what that means for the HTTP layer.
  Functional behaviour: repeated keys, dates, what a socket reads and what it announces.

  \<^bold>\<open>Not modelled.\<close>  \<^verbatim>\<open>main.cpp\<close> and the test classes: \<^verbatim>\<open>main.cpp\<close> hands iterators of bytes of another
  type to the parser and the test classes include a header that does not exist, so none of them is
  a program.  Locales other than C, and the static object that \<^verbatim>\<open>gmtime\<close> and \<^verbatim>\<open>localtime\<close> share between
  threads.  Data races: a push to the event list without a lock is a single step, and so are the
  two halves of a \<^verbatim>\<open>pop\<close> of the queue; the operations that a client calls on a running server from
  another thread are only \<^verbatim>\<open>stop\<close> and \<^verbatim>\<open>waitForFinished\<close>.  Lifetimes of parents: the parent of a slot
  or signal is the value of its thread and not a pointer, so that a parent destroyed before its slots and
  signals, and events that are still queued for a destroyed one, are outside the invariant on
  connections (what a queued event does is \<open>queued_event_outlives\<close>).  Slot functions are logged when they
  are called: one that connects, disconnects or destroys during an \<^verbatim>\<open>emit\<close> does not occur.  The character
  tests of \<^verbatim>\<open><cctype>\<close> are undefined on a negative \<^verbatim>\<open>char\<close>; they are total here, and the property
  on the faults of the JSON parser is about texts of bytes below 128.  The order of a
  \<^verbatim>\<open>std::unordered_map\<close> is that of insertion in the runs of the keeper's thread, on which no conclusion
  depends.
  Wakeups without a notification only repeat a test.  A \<^verbatim>\<open>combined_timer\<close> has one client
  thread: calls of two threads at once, and calls from a slot that the timer thread runs, which would join
  itself, are left out.
\<close>

end
